(* ===== verification/Prelude.thy ===== *)
theory Prelude
  imports Main "HOL-Library.Word"
begin

text \<open>
  Shared vocabulary of the development: the machine integers of the C++ sources, the
  faults an operation can run into (what C++ leaves undefined, or stops the process
  with, is a value here), the result type with its sequencing, and a byte-addressed
  block of memory with bounded reads and writes.
\<close>

unbundle bit_operations_syntax

section \<open>Machine integers\<close>

type_synonym byte = "8 word"
type_synonym u16 = "16 word"
type_synonym u32 = "32 word"
type_synonym u64 = "64 word"
type_synonym i32 = "32 word"

named_theorems byte_masks \<open>mask literals of the sources as shifted bit masks\<close>
named_theorems mem_simps \<open>reading back what was written to a memory block\<close>

lemma mask8_lit [byte_masks]: "(0xff :: 'a::len word) = mask 8"
  by (simp add: mask_eq_exp_minus_1)

lemma mask16_lit [byte_masks]: "(0xffff :: 'a::len word) = mask 16"
  by (simp add: mask_eq_exp_minus_1)

lemma not_bit_byte [simp]: "8 \<le> n \<Longrightarrow> bit (b :: byte) n \<longleftrightarrow> False"
  using bit_imp_le_length [of b n] by auto

lemma unat_byte_le: "unat (b :: byte) \<le> 255"
  using unsigned_less [of b, where ?'a = nat] by simp

lemma uint_byte_bounds: "0 \<le> uint (b :: byte)" "uint (b :: byte) \<le> 255"
  using unsigned_less [of b, where ?'a = int] by simp_all

lemma uint_byte_diff: "uint (a :: byte) - uint (b :: byte) \<le> 255"
  using uint_byte_bounds [of a] uint_byte_bounds [of b] by linarith

section \<open>Faults and results\<close>

datatype fault =
    OutOfBounds      \<comment> \<open>access outside an array, undefined in C++\<close>
  | AssertFailed     \<comment> \<open>a failed \<open>assert\<close>\<close>
  | DivByZero        \<comment> \<open>\<open>/\<close> or \<open>%\<close> by zero\<close>
  | NullDeref        \<comment> \<open>call through a null pointer\<close>
  | BadFree          \<comment> \<open>\<open>delete\<close> of an object that is not allocated\<close>
  | StaleBuffer      \<comment> \<open>bytes stored into a pooled buffer its owner has given back\<close>
  | Aborted          \<comment> \<open>\<open>abort()\<close> or an exception nobody catches\<close>
  | Diverged         \<comment> \<open>a loop that did not end within the fuel of its model\<close>

type_synonym 'a res = "fault + 'a"

definition rbind :: "'a res \<Rightarrow> ('a \<Rightarrow> 'b res) \<Rightarrow> 'b res" where
  "rbind m f = (case m of Inl e \<Rightarrow> Inl e | Inr x \<Rightarrow> f x)"

definition ensure :: "bool \<Rightarrow> fault \<Rightarrow> unit res" where
  "ensure b e = (if b then Inr () else Inl e)"

lemma rbind_Inr [simp]: "rbind (Inr x) f = f x"
  by (simp add: rbind_def)

lemma rbind_Inl [simp]: "rbind (Inl e) f = Inl e"
  by (simp add: rbind_def)

lemma rbind_assoc: "rbind (rbind m f) g = rbind m (\<lambda>x. rbind (f x) g)"
  by (simp add: rbind_def split: sum.splits)

lemma rbind_eq_Inr: "rbind m f = Inr y \<longleftrightarrow> (\<exists>x. m = Inr x \<and> f x = Inr y)"
  by (auto simp: rbind_def split: sum.splits)

lemma rbind_eq_Inl: "rbind m f = Inl e \<longleftrightarrow> m = Inl e \<or> (\<exists>x. m = Inr x \<and> f x = Inl e)"
  by (auto simp: rbind_def split: sum.splits)

lemma ensure_eq_Inr [simp]: "ensure b e = Inr u \<longleftrightarrow> b"
  by (simp add: ensure_def)

lemma ensure_True [simp]: "ensure True e = Inr ()"
  by (simp add: ensure_def)

lemma ensure_False [simp]: "ensure False e = Inl e"
  by (simp add: ensure_def)

text \<open>
  \<open>yields m P\<close>: if \<open>m\<close> produces a result, it satisfies \<open>P\<close>. The rules follow the code, one
  sequenced operation at a time; \<open>runs\<close> collects what the operations yield.
\<close>

named_theorems runs \<open>what an operation yields\<close>

definition yields :: "'a res \<Rightarrow> ('a \<Rightarrow> bool) \<Rightarrow> bool" where
  "yields m P \<longleftrightarrow> (\<forall>x. m = Inr x \<longrightarrow> P x)"

lemma yields_Inr [simp]: "yields (Inr x) P \<longleftrightarrow> P x"
  by (simp add: yields_def)

lemma yields_Inl [simp]: "yields (Inl e) P"
  by (simp add: yields_def)

lemma yields_bind: "yields m Q \<Longrightarrow> (\<And>x. Q x \<Longrightarrow> yields (f x) P) \<Longrightarrow> yields (rbind m f) P"
  by (auto simp: yields_def rbind_eq_Inr)

lemma yields_bind_pair:
  "yields m (\<lambda>(a, b). Q a b) \<Longrightarrow> (\<And>a b. Q a b \<Longrightarrow> yields (f a b) P) \<Longrightarrow>
   yields (rbind m (\<lambda>(a, b). f a b)) P"
  by (auto simp: yields_def rbind_eq_Inr)

lemma yields_bind_pair2:
  "yields m (\<lambda>(x, w). Q x w) \<Longrightarrow> (\<And>a b w. Q (a, b) w \<Longrightarrow> yields (f a b w) P) \<Longrightarrow>
   yields (rbind m (\<lambda>((a, b), w). f a b w)) P"
  by (auto simp: yields_def rbind_eq_Inr)

lemma yields_mono: "yields m Q \<Longrightarrow> (\<And>x. Q x \<Longrightarrow> P x) \<Longrightarrow> yields m P"
  by (auto simp: yields_def)

lemma yields_conj: "yields m P \<Longrightarrow> yields m Q \<Longrightarrow> yields m (\<lambda>x. P x \<and> Q x)"
  by (auto simp: yields_def)

lemma yields_if: "(b \<Longrightarrow> yields m P) \<Longrightarrow> (\<not> b \<Longrightarrow> yields n P) \<Longrightarrow> yields (if b then m else n) P"
  by simp

lemma yields_option:
  "(x = None \<Longrightarrow> yields m P) \<Longrightarrow> (\<And>y. x = Some y \<Longrightarrow> yields (f y) P) \<Longrightarrow>
   yields (case x of None \<Rightarrow> m | Some y \<Rightarrow> f y) P"
  by (cases x) simp_all

lemma yields_list:
  "(xs = [] \<Longrightarrow> yields m P) \<Longrightarrow> (\<And>y ys. xs = y # ys \<Longrightarrow> yields (f y ys) P) \<Longrightarrow>
   yields (case xs of [] \<Rightarrow> m | y # ys \<Rightarrow> f y ys) P"
  by (cases xs) simp_all

lemma yields_pair: "(\<And>a b. x = (a, b) \<Longrightarrow> yields (f a b) P) \<Longrightarrow> yields (case x of (a, b) \<Rightarrow> f a b) P"
  by (cases x) simp

lemma yields_Let: "(\<And>y. y = x \<Longrightarrow> yields (f y) P) \<Longrightarrow> yields (let y = x in f y) P"
  by simp

lemma yields_True: "yields m (\<lambda>x. True)"
  by (simp add: yields_def)

lemma yieldsD: "m = Inr x \<Longrightarrow> yields m P \<Longrightarrow> P x"
  by (simp add: yields_def)

lemmas yields_step = yields_bind_pair yields_bind yields_if yields_option yields_pair yields_Let

section \<open>Arrays and loops\<close>

text \<open>
  A C array of fixed length is a list; an access outside it is a fault. A counted loop
  \<open>for (i : is) body\<close> whose body may fault is \<open>rfold body is\<close>.
\<close>

definition arr_get :: "'a list \<Rightarrow> nat \<Rightarrow> 'a res" where
  "arr_get xs i = (if i < length xs then Inr (xs ! i) else Inl OutOfBounds)"

definition arr_set :: "'a list \<Rightarrow> nat \<Rightarrow> 'a \<Rightarrow> 'a list res" where
  "arr_set xs i x = (if i < length xs then Inr (xs[i := x]) else Inl OutOfBounds)"

lemma arr_get_in [simp]: "i < length xs \<Longrightarrow> arr_get xs i = Inr (xs ! i)"
  by (simp add: arr_get_def)

lemma arr_set_in [simp]: "i < length xs \<Longrightarrow> arr_set xs i x = Inr (xs[i := x])"
  by (simp add: arr_set_def)

fun rfold :: "('i \<Rightarrow> 's \<Rightarrow> 's res) \<Rightarrow> 'i list \<Rightarrow> 's \<Rightarrow> 's res" where
  "rfold f [] s = Inr s"
| "rfold f (i # is) s = rbind (f i s) (rfold f is)"

lemma rfold_append: "rfold f (is @ js) s = rbind (rfold f is s) (rfold f js)"
  by (induction "is" arbitrary: s) (simp_all add: rbind_def split: sum.splits)

text \<open>The loop rule: an invariant the body keeps, faulting never, holds at the end.\<close>

lemma rfold_inv:
  assumes "\<And>i s. i \<in> set is \<Longrightarrow> P s \<Longrightarrow> \<exists>s'. f i s = Inr s' \<and> P s'"
    and "P s"
  shows "\<exists>s'. rfold f is s = Inr s' \<and> P s'"
  using assms
proof (induction "is" arbitrary: s)
  case Nil
  then show ?case by simp
next
  case (Cons i "is")
  from Cons.prems obtain s1 where "f i s = Inr s1" "P s1" by (metis list.set_intros(1))
  with Cons.IH [of s1] Cons.prems(1) show ?case by simp
qed

text \<open>Two loops in step: bodies that keep two states related, faulting never.\<close>

lemma rfold_rel:
  assumes "R s t"
    and "\<And>i s t. i \<in> set is \<Longrightarrow> R s t \<Longrightarrow> \<exists>s' t'. f i s = Inr s' \<and> g i t = Inr t' \<and> R s' t'"
  shows "\<exists>s' t'. rfold f is s = Inr s' \<and> rfold g is t = Inr t' \<and> R s' t'"
  using assms
proof (induction "is" arbitrary: s t)
  case Nil
  then show ?case by simp
next
  case (Cons i "is")
  from Cons.prems obtain s1 t1 where "f i s = Inr s1" "g i t = Inr t1" "R s1 t1"
    by (metis list.set_intros(1))
  with Cons.IH [of s1 t1] Cons.prems(2) show ?case by simp
qed

text \<open>
  \<open>succeeds m\<close>: \<open>m\<close> produces a result, it runs into no fault. What an operation before it yields is
  known to the rest.
\<close>

definition succeeds :: "'a res \<Rightarrow> bool" where
  "succeeds m \<longleftrightarrow> (\<exists>x. m = Inr x)"

lemma succeeds_Inr [simp, intro]: "succeeds (Inr x)"
  by (simp add: succeeds_def)

lemma succeeds_Inl [simp]: "\<not> succeeds (Inl e)"
  by (simp add: succeeds_def)

lemma succeeds_bind:
  "succeeds m \<Longrightarrow> yields m Q \<Longrightarrow> (\<And>x. Q x \<Longrightarrow> succeeds (f x)) \<Longrightarrow> succeeds (rbind m f)"
  by (auto simp: succeeds_def yields_def)

lemma succeeds_bind_pair:
  "succeeds m \<Longrightarrow> yields m (\<lambda>(a, b). Q a b) \<Longrightarrow> (\<And>a b. Q a b \<Longrightarrow> succeeds (f a b)) \<Longrightarrow>
   succeeds (rbind m (\<lambda>(a, b). f a b))"
  by (auto simp: succeeds_def yields_def)

lemma succeeds_map [simp]: "succeeds (rbind m (\<lambda>x. Inr (f x))) \<longleftrightarrow> succeeds m"
  by (auto simp: succeeds_def rbind_eq_Inr)

lemma succeeds_if: "(b \<Longrightarrow> succeeds m) \<Longrightarrow> (\<not> b \<Longrightarrow> succeeds n) \<Longrightarrow> succeeds (if b then m else n)"
  by simp

lemma succeeds_rfold:
  "(\<And>i s. i \<in> set is \<Longrightarrow> P s \<Longrightarrow> succeeds (f i s) \<and> yields (f i s) P) \<Longrightarrow> P s \<Longrightarrow> succeeds (rfold f is s)"
  using rfold_inv [of "is" P f s] by (force simp: succeeds_def yields_def)

section \<open>Readers\<close>

text \<open>
  A pointer the code only reads through: \<open>rd o n\<close> are the \<open>n\<close> bytes at distance \<open>o\<close>, or a
  fault where they are not all inside the object.
\<close>

type_synonym reader = "nat \<Rightarrow> nat \<Rightarrow> byte list res"

definition list_reader :: "byte list \<Rightarrow> reader" where
  "list_reader bs o' n = (if o' + n \<le> length bs then Inr (take n (drop o' bs)) else Inl OutOfBounds)"

definition read_byte :: "reader \<Rightarrow> nat \<Rightarrow> byte res" where
  "read_byte rd o' = rbind (rd o' 1) (\<lambda>bs. Inr (bs ! 0))"

text \<open>\<open>holds rd bs\<close>: the bytes \<open>bs\<close> can be read from the pointer on.\<close>

definition holds :: "reader \<Rightarrow> byte list \<Rightarrow> bool" where
  "holds rd bs \<longleftrightarrow> (\<forall>o' n. o' + n \<le> length bs \<longrightarrow> rd o' n = Inr (take n (drop o' bs)))"

lemma holds_list_reader [simp]: "holds (list_reader bs) bs"
  by (simp add: holds_def list_reader_def)

lemma holds_read: "holds rd bs \<Longrightarrow> o' + n \<le> length bs \<Longrightarrow> rd o' n = Inr (take n (drop o' bs))"
  by (simp add: holds_def)

lemma holds_read_byte: "holds rd bs \<Longrightarrow> i < length bs \<Longrightarrow> read_byte rd i = Inr (bs ! i)"
  by (simp add: read_byte_def holds_read hd_drop_conv_nth)

section \<open>Memory blocks\<close>

text \<open>
  A block of memory maps positions to bytes. Its size is kept beside it by whoever owns
  the block; the operations here are the raw copies.
\<close>

type_synonym memory = "nat \<Rightarrow> byte"

definition mem_read :: "memory \<Rightarrow> nat \<Rightarrow> nat \<Rightarrow> byte list" where
  "mem_read m p n = map (\<lambda>i. m (p + i)) [0..<n]"

definition mem_write :: "memory \<Rightarrow> nat \<Rightarrow> byte list \<Rightarrow> memory" where
  "mem_write m p xs = (\<lambda>i. if p \<le> i \<and> i < p + length xs then xs ! (i - p) else m i)"

lemma length_mem_read [simp]: "length (mem_read m p n) = n"
  by (simp add: mem_read_def)

lemma nth_mem_read [simp]: "i < n \<Longrightarrow> mem_read m p n ! i = m (p + i)"
  by (simp add: mem_read_def)

lemma mem_read_0 [simp]: "mem_read m p 0 = []"
  by (simp add: mem_read_def)

lemma mem_write_Nil [simp]: "mem_write m p [] = m"
  by (auto simp: mem_write_def fun_eq_iff)

lemma mem_read_write_same [mem_simps]:
  "length xs = n \<Longrightarrow> mem_read (mem_write m p xs) p n = xs"
  by (rule nth_equalityI) (simp_all add: mem_write_def)

lemma mem_read_write_disjoint [mem_simps]:
  "q + n \<le> p \<or> p + length xs \<le> q \<Longrightarrow> mem_read (mem_write m p xs) q n = mem_read m q n"
  by (rule nth_equalityI) (auto simp: mem_write_def)

lemma mem_read_write_inside:
  "p \<le> q \<Longrightarrow> q + n \<le> p + length xs \<Longrightarrow>
   mem_read (mem_write m p xs) q n = take n (drop (q - p) xs)"
  by (rule nth_equalityI) (auto simp: mem_write_def)

lemma mem_read_append: "mem_read m p (n + k) = mem_read m p n @ mem_read m (p + n) k"
  by (rule nth_equalityI) (auto simp: nth_append)

lemma mem_read_take: "k \<le> n \<Longrightarrow> take k (mem_read m p n) = mem_read m p k"
  by (rule nth_equalityI) auto

lemma mem_read_drop: "k \<le> n \<Longrightarrow> drop k (mem_read m p n) = mem_read m (p + k) (n - k)"
  by (rule nth_equalityI) (auto simp: add.assoc)

lemma mem_write_other: "i < p \<or> p + length xs \<le> i \<Longrightarrow> mem_write m p xs i = m i"
  by (auto simp: mem_write_def)

section \<open>Unsigned arithmetic\<close>

lemma unat_add_small:
  "unat (a :: 'a::len word) + unat b < 2 ^ LENGTH('a) \<Longrightarrow> unat (a + b) = unat a + unat b"
  by (simp add: unat_word_ariths)

lemma unat_sub_small:
  "unat (b :: 'a::len word) \<le> unat a \<Longrightarrow> unat (a - b) = unat a - unat b"
  by (simp add: unat_sub word_le_nat_alt)

lemma unat_of_nat_small:
  "n < 2 ^ LENGTH('a) \<Longrightarrow> unat (of_nat n :: 'a::len word) = n"
  by (simp add: unat_of_nat)

lemma unat_ucast_up:
  "LENGTH('a) \<le> LENGTH('b) \<Longrightarrow> unat (ucast (x :: 'a::len word) :: 'b::len word) = unat x"
  by (simp add: unsigned_ucast_eq take_bit_nat_eq_self_iff)
    (metis nat_le_linear less_le_trans one_less_numeral_iff power_increasing_iff semiring_norm(76)
      unsigned_less)

end
