(* ===== verification/Byte_Order.thy ===== *)
theory Byte_Order
  imports Prelude
begin

text \<open>
  \<open>NetUtils.hpp\<close>: the integer (de)serialisers. Each writer stores its value most
  significant byte first at \<open>block[0]\<close>, \<open>block[1]\<close>, ...; the model returns the bytes
  that are stored, in the order of their addresses, and the caller places them. Each
  reader takes the bytes found at \<open>block[0]\<close>, \<open>block[1]\<close>, ....
\<close>

definition write_uint16 :: "u16 \<Rightarrow> byte list" where
  "write_uint16 val =
     [ucast (drop_bit 8 (val AND 0xff00)),
      ucast (val AND 0x00ff)]"

definition read_uint16 :: "byte list \<Rightarrow> u16" where
  "read_uint16 block = ucast (block ! 1) OR push_bit 8 (ucast (block ! 0))"

definition write_uint32 :: "u32 \<Rightarrow> byte list" where
  "write_uint32 val =
     [ucast (drop_bit 24 (val AND 0xff000000)),
      ucast (drop_bit 16 (val AND 0x00ff0000)),
      ucast (drop_bit 8 (val AND 0x0000ff00)),
      ucast (val AND 0x000000ff)]"

definition read_uint32 :: "byte list \<Rightarrow> u32" where
  "read_uint32 block =
     ucast (block ! 3) OR push_bit 8 (ucast (block ! 2))
       OR (push_bit 16 (ucast (block ! 1)) OR push_bit 24 (ucast (block ! 0)))"

definition write_uint64 :: "u64 \<Rightarrow> byte list" where
  "write_uint64 val =
     [ucast (drop_bit 56 (val AND 0xff00000000000000)),
      ucast (drop_bit 48 (val AND 0x00ff000000000000)),
      ucast (drop_bit 40 (val AND 0x0000ff0000000000)),
      ucast (drop_bit 32 (val AND 0x000000ff00000000)),
      ucast (drop_bit 24 (val AND 0x00000000ff000000)),
      ucast (drop_bit 16 (val AND 0x0000000000ff0000)),
      ucast (drop_bit 8 (val AND 0x000000000000ff00)),
      ucast (val AND 0x00000000000000ff)]"

text \<open>
  \<open>read_uint64\<close> is declared to return \<open>int64_t\<close>: the bits are these, and a caller
  that reads them as a number reads them signed.
\<close>

definition read_uint64 :: "byte list \<Rightarrow> u64" where
  "read_uint64 block =
     ucast (block ! 7) OR push_bit 8 (ucast (block ! 6))
       OR push_bit 16 (ucast (block ! 5)) OR push_bit 24 (ucast (block ! 4))
       OR push_bit 32 (ucast (block ! 3)) OR push_bit 40 (ucast (block ! 2))
       OR push_bit 48 (ucast (block ! 1)) OR push_bit 56 (ucast (block ! 0))"

definition read_uint64_value :: "byte list \<Rightarrow> int" where
  "read_uint64_value block = sint (read_uint64 block)"

section \<open>Mask literals\<close>

lemma byte_mask_lits [byte_masks]:
  "(0xff00 :: 'a::len word) = push_bit 8 (mask 8)"
  "(0xff0000 :: 'a::len word) = push_bit 16 (mask 8)"
  "(0xff000000 :: 'a::len word) = push_bit 24 (mask 8)"
  "(0xff00000000 :: 'a::len word) = push_bit 32 (mask 8)"
  "(0xff0000000000 :: 'a::len word) = push_bit 40 (mask 8)"
  "(0xff000000000000 :: 'a::len word) = push_bit 48 (mask 8)"
  "(0xff00000000000000 :: 'a::len word) = push_bit 56 (mask 8)"
  by (simp_all add: mask_eq_exp_minus_1 push_bit_eq_mult)

section \<open>Lengths and round trips\<close>

lemma length_write_uint [simp]:
  "length (write_uint16 v) = 2" "length (write_uint32 w) = 4" "length (write_uint64 x) = 8"
  by (simp_all add: write_uint16_def write_uint32_def write_uint64_def)

lemma ucast_masked_byte [byte_masks]:
  "ucast (drop_bit k (v AND push_bit k (mask 8))) = (ucast (drop_bit k v) :: byte)"
  "ucast (v AND mask 8) = (ucast v :: byte)"
  for v :: "'a::len word"
  by (rule bit_word_eqI; auto simp: bit_simps dest: bit_imp_le_length)+

lemma read_write_uint16 [simp]: "read_uint16 (write_uint16 v) = v"
  unfolding read_uint16_def write_uint16_def byte_masks
  by (rule bit_word_eqI) (auto simp: bit_simps)

lemma read_write_uint32 [simp]: "read_uint32 (write_uint32 v) = v"
  unfolding read_uint32_def write_uint32_def byte_masks
proof (rule bit_word_eqI, goal_cases)
  case (1 n)
  then consider "n < 8" | "8 \<le> n" "n < 16" | "16 \<le> n" "n < 24" | "24 \<le> n" "n < 32"
    by fastforce
  then show ?case by cases (simp_all add: bit_simps less_diff_conv2)
qed

lemma read_write_uint64 [simp]: "read_uint64 (write_uint64 v) = v"
  unfolding read_uint64_def write_uint64_def byte_masks
proof (rule bit_word_eqI, goal_cases)
  case (1 n)
  then consider "n < 8" | "8 \<le> n" "n < 16" | "16 \<le> n" "n < 24" | "24 \<le> n" "n < 32"
    | "32 \<le> n" "n < 40" | "40 \<le> n" "n < 48" | "48 \<le> n" "n < 56" | "56 \<le> n" "n < 64"
    by fastforce
  then show ?case by cases (simp_all add: bit_simps less_diff_conv2)
qed

lemma length2_cases:
  assumes "length bs = 2"
  obtains a b where "bs = [a, b]"
  using assms by (auto simp: length_Suc_conv numeral_2_eq_2)

lemma length4_cases:
  assumes "length bs = 4"
  obtains a b c d where "bs = [a, b, c, d]"
proof -
  have "length bs = Suc (Suc (Suc (Suc 0)))" using assms by simp
  with that show ?thesis by (auto simp: length_Suc_conv)
qed

lemma write_read_uint16: "length bs = 2 \<Longrightarrow> write_uint16 (read_uint16 bs) = bs"
  unfolding read_uint16_def write_uint16_def byte_masks
  by (erule length2_cases) (auto intro!: bit_word_eqI simp: bit_simps)

lemma write_read_uint32: "length bs = 4 \<Longrightarrow> write_uint32 (read_uint32 bs) = bs"
  unfolding read_uint32_def write_uint32_def byte_masks
  by (erule length4_cases) (auto intro!: bit_word_eqI simp: bit_simps)

end
