(* ===== verification/Reusable_Buffer.thy ===== *)
theory Reusable_Buffer
  imports Prelude
begin

text \<open>
  \<open>reusabel_buffer.hpp\<close>: a fixed block of \<open>SIZE\<close> bytes with an \<open>offset\<close> in front of
  the payload, so that a header can be written before it without copying, and the
  payload's \<open>length\<close>. Positions are \<open>size_t\<close>: subtracting a header from an offset that
  is too small wraps around, as it does in the source. A pointer into the block is its
  index; an access through it is checked against \<open>SIZE\<close>.
\<close>

record reusable_buffer =
  buf_SIZE :: u64
  buf_offset :: u64
  buf_length :: u64
  buf_bytes :: memory

abbreviation ONCE_BUFFER_SIZE :: u64 where
  "ONCE_BUFFER_SIZE \<equiv> 1024 * 64"

abbreviation TINY_ONCE_BUFFER_SIZE :: u64 where
  "TINY_ONCE_BUFFER_SIZE \<equiv> 16"

definition buffer_at :: "reusable_buffer \<Rightarrow> u64 \<Rightarrow> u64" where
  "buffer_at b explicit_offset = buf_offset b + explicit_offset"

definition reset_buffer :: "reusable_buffer \<Rightarrow> reusable_buffer" where
  "reset_buffer b = b\<lparr>buf_offset := 0, buf_length := 0\<rparr>"

definition available_capacity :: "reusable_buffer \<Rightarrow> u64" where
  "available_capacity b = buf_SIZE b - buf_offset b"

definition origin_buffer :: "reusable_buffer \<Rightarrow> u64 \<Rightarrow> u64" where
  "origin_buffer b explicit_offset = explicit_offset"

definition resize_buffer :: "reusable_buffer \<Rightarrow> u64 \<Rightarrow> reusable_buffer" where
  "resize_buffer b s = b\<lparr>buf_length := s\<rparr>"

definition size_buffer :: "reusable_buffer \<Rightarrow> u64" where
  "size_buffer b = buf_length b"

text \<open>Bytes read and written through a pointer into the block.\<close>

definition buf_get :: "reusable_buffer \<Rightarrow> u64 \<Rightarrow> nat \<Rightarrow> byte list res" where
  "buf_get b p n =
     (if unat p + n \<le> unat (buf_SIZE b) then Inr (mem_read (buf_bytes b) (unat p) n)
      else Inl OutOfBounds)"

definition buf_put :: "reusable_buffer \<Rightarrow> u64 \<Rightarrow> byte list \<Rightarrow> reusable_buffer res" where
  "buf_put b p xs =
     (if unat p + length xs \<le> unat (buf_SIZE b)
      then Inr (b\<lparr>buf_bytes := mem_write (buf_bytes b) (unat p) xs\<rparr>)
      else Inl OutOfBounds)"

text \<open>\<open>operator[]\<close> as a read.\<close>

definition buf_index :: "reusable_buffer \<Rightarrow> u64 \<Rightarrow> byte res" where
  "buf_index b idx = rbind (buf_get b (buf_offset b + idx) 1) (\<lambda>xs. Inr (xs ! 0))"

text \<open>The payload: \<open>length\<close> bytes at \<open>buffer()\<close>.\<close>

definition payload :: "reusable_buffer \<Rightarrow> byte list res" where
  "payload b = buf_get b (buffer_at b 0) (unat (buf_length b))"

section \<open>Reading back\<close>

lemma buffer_at_0 [simp]: "buffer_at b 0 = buf_offset b"
  by (simp add: buffer_at_def)

lemma origin_buffer_simp [simp]: "origin_buffer b p = p"
  by (simp add: origin_buffer_def)

lemma buf_get_in:
  "unat p + n \<le> unat (buf_SIZE b) \<Longrightarrow> buf_get b p n = Inr (mem_read (buf_bytes b) (unat p) n)"
  by (simp add: buf_get_def)

lemma buf_put_in:
  "unat p + length xs \<le> unat (buf_SIZE b) \<Longrightarrow>
   buf_put b p xs = Inr (b\<lparr>buf_bytes := mem_write (buf_bytes b) (unat p) xs\<rparr>)"
  by (simp add: buf_put_def)

lemma buf_put_Inr_iff:
  "buf_put b p xs = Inr b' \<longleftrightarrow>
   unat p + length xs \<le> unat (buf_SIZE b) \<and>
   b' = b\<lparr>buf_bytes := mem_write (buf_bytes b) (unat p) xs\<rparr>"
  by (auto simp: buf_put_def)

lemma buf_get_Inr_iff:
  "buf_get b p n = Inr xs \<longleftrightarrow>
   unat p + n \<le> unat (buf_SIZE b) \<and> xs = mem_read (buf_bytes b) (unat p) n"
  by (auto simp: buf_get_def)

lemma buf_get_length: "buf_get b p n = Inr xs \<Longrightarrow> length xs = n"
  by (auto simp: buf_get_Inr_iff)

lemma buf_put_get:
  "buf_put b p xs = Inr b' \<Longrightarrow> buf_get b' p (length xs) = Inr xs"
  by (auto simp: buf_put_Inr_iff buf_get_def mem_simps)

lemma buf_put_get_disjoint:
  assumes "buf_put b p xs = Inr b'"
    and "unat q + n \<le> unat p \<or> unat p + length xs \<le> unat q"
  shows "buf_get b' q n = buf_get b q n"
  using assms by (auto simp: buf_put_Inr_iff buf_get_def mem_simps)

lemma buf_put_frame:
  assumes "buf_put b p xs = Inr b'"
  shows "buf_SIZE b' = buf_SIZE b" "buf_offset b' = buf_offset b" "buf_length b' = buf_length b"
  using assms by (auto simp: buf_put_Inr_iff)

text \<open>Two states of one block: its size and its offset are the same.\<close>

definition same_block :: "reusable_buffer \<Rightarrow> reusable_buffer \<Rightarrow> bool" where
  "same_block b b' \<longleftrightarrow> buf_SIZE b' = buf_SIZE b \<and> buf_offset b' = buf_offset b"

lemma same_block_resize [simp]: "same_block b (resize_buffer b s)"
  by (simp add: same_block_def resize_buffer_def)

lemma same_block_trans: "same_block a b \<Longrightarrow> same_block b c \<Longrightarrow> same_block a c"
  by (simp add: same_block_def)

lemma same_block_refl [simp]: "same_block b b"
  by (simp add: same_block_def)

lemma same_block_length [simp]: "same_block b (b'\<lparr>buf_length := n\<rparr>) \<longleftrightarrow> same_block b b'"
  by (simp add: same_block_def)

lemma buf_put_same_block: "buf_put b p xs = Inr b' \<Longrightarrow> same_block b b'"
  by (auto simp: same_block_def buf_put_Inr_iff)

end
