(* ===== verification/Proto_Mask.thy ===== *)
theory Proto_Mask
  imports Prelude
begin

text \<open>
  \<open>proto_mask.hpp\<close>: the 16-bit one's-complement checksum over the header bytes and then
  the payload bytes. \<open>mask_off_32\<close> adds the bytes up as big-endian pairs in a 32-bit
  accumulator (a last odd byte counts as the high half of a pair) and folds the carries
  back twice; \<open>get_mask\<close> chains it over both blocks and complements the low half.
\<close>

fun mask_sum :: "byte list \<Rightarrow> u32 \<Rightarrow> u32" where
  "mask_sum (a # b # bs) acc =
     mask_sum bs (acc + ucast (push_bit 8 (ucast a) OR ucast b :: u16))"
| "mask_sum [a] acc = acc + ucast (push_bit 8 (ucast a) :: u16)"
| "mask_sum [] acc = acc"

definition mask_carry :: "u32 \<Rightarrow> u32" where
  "mask_carry acc = drop_bit 16 acc + (acc AND 0x0000ffff)"

definition mask_off_32 :: "byte list \<Rightarrow> u32 \<Rightarrow> u32" where
  "mask_off_32 bs acc =
     (let acc = mask_carry (mask_sum bs acc)
      in if acc AND 0xffff0000 \<noteq> 0 then mask_carry acc else acc)"

definition get_mask :: "byte list \<Rightarrow> byte list \<Rightarrow> u32 \<Rightarrow> u16" where
  "get_mask head data acc =
     (let inverseMask = mask_off_32 data (mask_off_32 head acc)
      in ucast (NOT (inverseMask AND 0xffff)))"

section \<open>The sum over the natural numbers\<close>

fun pair_sum :: "byte list \<Rightarrow> nat" where
  "pair_sum (a # b # bs) = 256 * unat a + unat b + pair_sum bs"
| "pair_sum [a] = 256 * unat a"
| "pair_sum [] = 0"

lemma unat_pair: "unat (push_bit 8 (ucast a) OR ucast b :: u16) = 256 * unat a + unat b"
  for a b :: byte
proof -
  have "push_bit 8 (ucast a) OR ucast b = push_bit 8 (ucast a) + (ucast b :: u16)"
    by (rule disjunctive_add [symmetric]) (auto simp: bit_simps)
  then show ?thesis
    using unat_byte_le [of a] unat_byte_le [of b]
    by (simp add: unat_word_ariths unsigned_push_bit_eq unsigned_ucast_eq take_bit_eq_mod
        push_bit_eq_mult)
qed

lemma pair_sum_le: "2 * pair_sum bs \<le> 65535 * (length bs + 1)"
proof (induction bs rule: pair_sum.induct)
  case (1 a b bs)
  with unat_byte_le [of a] unat_byte_le [of b] show ?case by simp
next
  case (2 a)
  with unat_byte_le [of a] show ?case by simp
qed simp

lemma pair_sum_append_even:
  "even (length xs) \<Longrightarrow> pair_sum (xs @ ys) = pair_sum xs + pair_sum ys"
  by (induction xs rule: pair_sum.induct) auto

lemma unat_mask_sum:
  "unat acc + pair_sum bs < 2 ^ 32 \<Longrightarrow> unat (mask_sum bs acc) = unat acc + pair_sum bs"
proof (induction bs acc rule: mask_sum.induct)
  case (1 a b bs acc)
  from "1.prems" have "unat (acc + ucast (push_bit 8 (ucast a) OR ucast b :: u16))
      = unat acc + (256 * unat a + unat b)"
    by (subst unat_add_small) (simp_all add: unat_ucast_up unat_pair)
  with 1 show ?case by simp
next
  case (2 a acc)
  have "unat (ucast (push_bit 8 (ucast a) :: u16) :: u32) = 256 * unat a"
    using unat_pair [of a 0] by (simp add: unat_ucast_up)
  with 2 show ?case by (subst mask_sum.simps, subst unat_add_small) simp_all
qed simp

section \<open>Folding the carries\<close>

definition carry16 :: "nat \<Rightarrow> nat" where
  "carry16 n = n div 65536 + n mod 65536"

lemma unat_mask_carry: "unat (mask_carry acc) = carry16 (unat acc)"
proof -
  have "unat acc < 2 ^ 32" using unsigned_less [of acc, where ?'a = nat] by simp
  then show ?thesis
    unfolding mask_carry_def carry16_def byte_masks
    by (subst unat_add_small)
      (simp_all add: drop_bit_eq_div take_bit_eq_mod unat_div unat_mod flip: take_bit_eq_mask)
qed

lemma high_mask_lit: "(0xffff0000 :: u32) = push_bit 16 (mask 16)"
  by (simp add: mask_eq_exp_minus_1 push_bit_eq_mult)

lemma high_half_zero: "(acc AND 0xffff0000 = 0) \<longleftrightarrow> unat (acc :: u32) < 65536"
proof -
  have "acc AND 0xffff0000 = push_bit 16 (drop_bit 16 acc)"
    unfolding high_mask_lit by (rule bit_word_eqI) (auto simp: bit_simps)
  moreover have "drop_bit 16 (acc AND 0xffff0000) = drop_bit 16 acc"
    unfolding high_mask_lit by (rule bit_word_eqI) (auto simp: bit_simps dest: bit_imp_le_length)
  ultimately have "acc AND 0xffff0000 = 0 \<longleftrightarrow> drop_bit 16 acc = 0"
    by (metis drop_bit_of_0 push_bit_of_0)
  also have "\<dots> \<longleftrightarrow> unat (drop_bit 16 acc) = 0"
    by (simp only: unat_eq_0)
  also have "\<dots> \<longleftrightarrow> unat acc < 65536"
    by (simp add: drop_bit_eq_div unat_div div_eq_0_iff)
  finally show ?thesis .
qed

lemma carry16_mod: "carry16 n mod 65535 = n mod 65535"
proof -
  have "n = 65535 * (n div 65536) + carry16 n" by (simp add: carry16_def)
  then show ?thesis by (metis mod_mult_self4)
qed

lemma carry16_eq_0: "carry16 n = 0 \<longleftrightarrow> n = 0"
  by (auto simp: carry16_def)

lemma carry16_twice_le:
  assumes "n < 2 ^ 32" "65536 \<le> carry16 n"
  shows "carry16 (carry16 n) \<le> 65535"
proof -
  from assms(1) have "n div 65536 < 65536" by (simp add: less_mult_imp_div_less)
  moreover have "n mod 65536 < 65536" by simp
  ultimately have "carry16 n \<le> 131070" unfolding carry16_def by linarith
  with assms(2) have "carry16 n div 65536 = 1" "carry16 n mod 65536 = carry16 n - 65536"
    by (simp_all add: div_nat_eqI le_mod_geq)
  with \<open>carry16 n \<le> 131070\<close> assms(2) show ?thesis
    unfolding carry16_def [of "carry16 n"] by linarith
qed

text \<open>
  What one pass leaves: a value of at most 16 bits, congruent to the sum modulo 65535, and
  zero only when everything added was zero. It rests on the 32-bit accumulator not wrapping.
\<close>

definition folded :: "nat \<Rightarrow> nat \<Rightarrow> bool" where
  "folded r n \<longleftrightarrow> r \<le> 65535 \<and> r mod 65535 = n mod 65535 \<and> (r = 0 \<longleftrightarrow> n = 0)"

lemma mask_off_32_folded:
  assumes "unat acc + pair_sum bs < 2 ^ 32"
  shows "folded (unat (mask_off_32 bs acc)) (unat acc + pair_sum bs)"
proof -
  let ?n = "unat acc + pair_sum bs"
  have u: "unat (mask_sum bs acc) = ?n" using assms by (rule unat_mask_sum)
  show ?thesis
  proof (cases "carry16 ?n < 65536")
    case True
    then show ?thesis
      by (simp add: mask_off_32_def Let_def high_half_zero unat_mask_carry u folded_def
          carry16_mod carry16_eq_0)
  next
    case False
    then show ?thesis using carry16_twice_le [OF assms]
      by (simp add: mask_off_32_def Let_def high_half_zero unat_mask_carry u folded_def
          carry16_mod carry16_eq_0)
  qed
qed

lemma folded_add: "folded r n \<Longrightarrow> folded q (r + m) \<Longrightarrow> folded q (n + m)"
  unfolding folded_def by (metis mod_add_left_eq add_is_0)

lemma folded_unique_pos:
  "folded r n \<Longrightarrow> n mod 65535 = 0 \<Longrightarrow> 0 < n \<Longrightarrow> r = 65535"
  unfolding folded_def by (cases "r = 65535") (auto simp: mod_less)

section \<open>The checksum\<close>

lemma unat_not_u16: "unat (NOT (x :: u16)) = 65535 - unat x"
proof -
  have "NOT x = 65535 - x" by (simp add: not_eq_complement)
  moreover have "unat x \<le> unat (65535 :: u16)"
    using unsigned_less [of x, where ?'a = nat] by simp
  ultimately show ?thesis by (simp add: unat_sub_small)
qed

lemma unat_get_mask:
  assumes "pair_sum head + pair_sum data + 65535 < 2 ^ 32"
  shows "\<exists>r. folded r (pair_sum head + pair_sum data) \<and> unat (get_mask head data 0) = 65535 - r"
proof -
  let ?h = "mask_off_32 head 0"
  let ?r = "mask_off_32 data ?h"
  have h: "folded (unat ?h) (pair_sum head)"
    using mask_off_32_folded [of 0 head] assms by simp
  then have "unat ?h \<le> 65535" by (simp add: folded_def)
  then have r: "folded (unat ?r) (unat ?h + pair_sum data)"
    using mask_off_32_folded [of ?h data] assms by simp
  with h have f: "folded (unat ?r) (pair_sum head + pair_sum data)" by (rule folded_add)
  have "unat ?r \<le> 65535" using f by (simp add: folded_def)
  then have "unat (ucast (?r AND 0xffff) :: u16) = unat ?r"
    by (simp add: mask16_lit unsigned_ucast_eq unsigned_take_bit_eq take_bit_eq_mod
        unat_mod flip: take_bit_eq_mask)
  moreover have "get_mask head data 0 = NOT (ucast (?r AND 0xffff))"
    unfolding get_mask_def Let_def by (rule bit_word_eqI) (auto simp: bit_simps)
  ultimately have "unat (get_mask head data 0) = 65535 - unat ?r"
    by (simp add: unat_not_u16)
  with f show ?thesis by blast
qed

text \<open>What a receiver accepts: a checksum of zero says the sum is a positive multiple of 65535.\<close>

lemma get_mask_zero_iff:
  assumes "pair_sum head + pair_sum data + 65535 < 2 ^ 32"
  shows "get_mask head data 0 = 0 \<longleftrightarrow>
    0 < pair_sum head + pair_sum data \<and> (pair_sum head + pair_sum data) mod 65535 = 0"
proof -
  obtain r where r: "folded r (pair_sum head + pair_sum data)"
      "unat (get_mask head data 0) = 65535 - r"
    using unat_get_mask [OF assms] by blast
  have "get_mask head data 0 = 0 \<longleftrightarrow> unat (get_mask head data 0) = 0" by (simp add: unat_eq_0)
  also have "\<dots> \<longleftrightarrow> r = 65535" using r by (auto simp: folded_def)
  also have "\<dots> \<longleftrightarrow> 0 < pair_sum head + pair_sum data \<and> (pair_sum head + pair_sum data) mod 65535 = 0"
    using r(1) folded_unique_pos [OF r(1)] by (auto simp: folded_def)
  finally show ?thesis .
qed

lemma get_mask_zero_dvd:
  assumes "pair_sum head + pair_sum data + 65535 < 2 ^ 32" "get_mask head data 0 = 0"
  shows "(65535 :: int) dvd int (pair_sum head + pair_sum data)"
proof -
  have "65535 dvd pair_sum head + pair_sum data"
    using assms get_mask_zero_iff [OF assms(1)] by (simp add: mod_0_imp_dvd)
  then have "int 65535 dvd int (pair_sum head + pair_sum data)" by (simp only: of_nat_dvd_iff)
  then show ?thesis by simp
qed

lemma get_mask_complements:
  assumes "pair_sum head + pair_sum data + 65535 < 2 ^ 32"
  shows "0 < pair_sum head + pair_sum data + unat (get_mask head data 0)"
    and "(pair_sum head + pair_sum data + unat (get_mask head data 0)) mod 65535 = 0"
proof -
  obtain r where r: "folded r (pair_sum head + pair_sum data)"
      "unat (get_mask head data 0) = 65535 - r"
    using unat_get_mask [OF assms] by blast
  show "0 < pair_sum head + pair_sum data + unat (get_mask head data 0)"
    using r by (auto simp: folded_def)
  have "(pair_sum head + pair_sum data + unat (get_mask head data 0)) mod 65535
      = (r + (65535 - r)) mod 65535"
    using r unfolding folded_def by (metis mod_add_left_eq)
  with r show "(pair_sum head + pair_sum data + unat (get_mask head data 0)) mod 65535 = 0"
    by (simp add: folded_def)
qed

text \<open>Sender and receiver: adding the mask to the summed bytes makes the receiver's check pass.\<close>

lemma mask_accepted:
  assumes "pair_sum head' = pair_sum head + unat (get_mask head data 0)"
    and "pair_sum head + pair_sum data + 2 * 65535 < 2 ^ 32"
  shows "get_mask head' data 0 = 0"
proof -
  have "unat (get_mask head data 0) \<le> 65535"
    using unsigned_less [of "get_mask head data 0", where ?'a = nat] by simp
  with assms have b: "pair_sum head' + pair_sum data + 65535 < 2 ^ 32" by simp
  have s: "pair_sum head' + pair_sum data
      = pair_sum head + pair_sum data + unat (get_mask head data 0)"
    by (simp add: assms(1))
  have "pair_sum head + pair_sum data + 65535 < 2 ^ 32" using assms(2) by simp
  from get_mask_complements [OF this] show ?thesis
    by (simp only: get_mask_zero_iff [OF b] s)
qed

section \<open>Single-byte corruption\<close>

lemma pair_sum_update:
  "i < length bs \<Longrightarrow>
   int (pair_sum (bs[i := x])) =
     int (pair_sum bs) + (if even i then 256 else 1) * (int (unat x) - int (unat (bs ! i)))"
proof (induction bs arbitrary: i rule: pair_sum.induct)
  case (1 a b bs)
  show ?case
  proof (cases "i < 2")
    case True
    then have "i = 0 \<or> i = 1" by linarith
    then show ?thesis by auto
  next
    case False
    then obtain j where "i = Suc (Suc j)" by (metis add_2_eq_Suc le_add_diff_inverse not_less)
    with 1 show ?thesis by simp
  qed
qed auto

lemma byte_change_not_multiple:
  fixes x y :: byte
  assumes "x \<noteq> y" "k = 256 \<or> k = 1"
  shows "\<not> (65535 :: int) dvd k * (int (unat x) - int (unat y))"
proof
  assume d: "65535 dvd k * (int (unat x) - int (unat y))"
  let ?d = "int (unat x) - int (unat y)"
  have "unat x \<noteq> unat y" using assms(1) by (simp add: word_unat_eq_iff)
  then have "?d \<noteq> 0" by linarith
  moreover have "\<bar>?d\<bar> \<le> 255" using unat_byte_le [of x] unat_byte_le [of y] by linarith
  ultimately have "k * ?d \<noteq> 0" "\<bar>k * ?d\<bar> < 65535" using assms(2) by (auto simp: abs_mult)
  with d show False by (metis abs_dvd_iff dvd_abs_iff dvd_imp_le_int not_less abs_numeral)
qed

lemma corrupt_byte_rejected:
  assumes ok: "get_mask head data 0 = 0"
    and i: "i < length data" and x: "x \<noteq> data ! i"
    and b: "pair_sum head + pair_sum data + 2 * 65535 < 2 ^ 32"
  shows "get_mask head (data[i := x]) 0 \<noteq> 0"
proof
  assume bad: "get_mask head (data[i := x]) 0 = 0"
  let ?k = "(if even i then 256 else 1) :: int"
  have u: "int (pair_sum (data[i := x])) = int (pair_sum data) + ?k * (int (unat x) - int (unat (data ! i)))"
    using i by (rule pair_sum_update)
  have "?k * (int (unat x) - int (unat (data ! i))) \<le> 65535"
    using uint_byte_diff [of x "data ! i"] by auto
  with u b have b': "pair_sum head + pair_sum (data[i := x]) + 65535 < 2 ^ 32" by linarith
  have b1: "pair_sum head + pair_sum data + 65535 < 2 ^ 32" using b by simp
  have "65535 dvd int (pair_sum head + pair_sum data)"
    using b1 ok by (rule get_mask_zero_dvd)
  moreover have "65535 dvd int (pair_sum head + pair_sum (data[i := x]))"
    using b' bad by (rule get_mask_zero_dvd)
  ultimately have "65535 dvd int (pair_sum head + pair_sum (data[i := x])) - int (pair_sum head + pair_sum data)"
    by (rule dvd_diff [rotated])
  with u have "65535 dvd ?k * (int (unat x) - int (unat (data ! i)))" by simp
  with byte_change_not_multiple [OF x, of ?k] show False by simp
qed

section \<open>Properties\<close>

text \<open>C24: a packet that passes the checksum does not pass it any more once one byte of its payload
  is changed.\<close>

theorem mask_detects_corrupt_byte:
  assumes "get_mask head data 0 = 0" "i < length data" "x \<noteq> data ! i"
    and "pair_sum head + pair_sum data + 2 * 65535 < 2 ^ 32"
  shows "get_mask head (data[i := x]) 0 \<noteq> 0"
  using assms by (rule corrupt_byte_rejected)

lemma mask_detects_corrupt_byte_witness:
  "get_mask [0xFF, 0xFF] ([0, 0][1 := 7]) 0 \<noteq> 0"
  by (rule mask_detects_corrupt_byte)
    (simp_all add: get_mask_zero_iff)

end
