(* ===== verification/Rc4.thy ===== *)
theory Rc4
  imports Prelude "HOL-Library.Multiset"
begin

text \<open>
  \<open>rc4.hpp\<close>: the stream cipher of the client link. Its box is a local array of 255 bytes
  that starts uninitialised (the argument \<open>box0\<close>), its modulus is a parameter of the
  session. The counters are \<open>int\<close> and the remainder is C's; every index into the box
  or the key is checked. The null tests of the source have no counterpart: arrays are
  values here.
\<close>

definition crem :: "int \<Rightarrow> int \<Rightarrow> int res" where
  "crem a b = (if b = 0 then Inl DivByZero else Inr (sgn a * (\<bar>a\<bar> mod \<bar>b\<bar>)))"

definition box_get :: "byte list \<Rightarrow> int \<Rightarrow> byte res" where
  "box_get box i = (if 0 \<le> i then arr_get box (nat i) else Inl OutOfBounds)"

definition box_set :: "byte list \<Rightarrow> int \<Rightarrow> byte \<Rightarrow> byte list res" where
  "box_set box i b = (if 0 \<le> i then arr_set box (nat i) b else Inl OutOfBounds)"

definition box_swap :: "byte list \<Rightarrow> int \<Rightarrow> int \<Rightarrow> byte list res" where
  "box_swap box i j =
     rbind (box_get box i) (\<lambda>b.
     rbind (box_get box j) (\<lambda>c.
     rbind (box_set box i c) (\<lambda>box.
     box_set box j b)))"

definition sbox_mix :: "int \<Rightarrow> byte list \<Rightarrow> nat \<Rightarrow> int \<Rightarrow> int \<times> byte list \<Rightarrow> (int \<times> byte list) res" where
  "sbox_mix md key keylen i = (\<lambda>(j, box).
     rbind (box_get box i) (\<lambda>b.
     rbind (arr_get key (nat i mod keylen)) (\<lambda>k.
     rbind (crem (j + uint b + uint k) md) (\<lambda>j.
     rbind (box_swap box i j) (\<lambda>box.
     Inr (j, box))))))"

definition rc4_sbox :: "int \<Rightarrow> byte list \<Rightarrow> byte list \<Rightarrow> nat \<Rightarrow> byte list res" where
  "rc4_sbox md box key keylen =
     (if keylen = 0 then Inr box
      else rbind (rfold (\<lambda>i box. box_set box i (word_of_int i)) [0..md - 1] box) (\<lambda>box.
           rbind (rfold (sbox_mix md key keylen) [0..md - 1] (0, box)) (\<lambda>(j, box).
           Inr box)))"

text \<open>One round of the crypt loop: the next state and the byte of the key stream.\<close>

definition rc4_round ::
  "int \<Rightarrow> int \<Rightarrow> int \<times> int \<times> byte list \<Rightarrow> ((int \<times> int \<times> byte list) \<times> byte) res" where
  "rc4_round md i = (\<lambda>(low, high, box).
     rbind (crem low md) (\<lambda>low.
     rbind (crem i md) (\<lambda>im.
     rbind (box_get box im) (\<lambda>bi.
     rbind (crem (high + uint bi) md) (\<lambda>high.
     rbind (box_swap box low high) (\<lambda>box.
     rbind (box_get box low) (\<lambda>bl.
     rbind (box_get box high) (\<lambda>bh.
     rbind (crem (uint bl + uint bh) md) (\<lambda>mid.
     rbind (box_get box mid) (\<lambda>k.
     Inr ((low, high, box), k)))))))))))"

fun rc4_loop ::
  "int \<Rightarrow> byte \<Rightarrow> bool \<Rightarrow> int \<Rightarrow> int \<times> int \<times> byte list \<Rightarrow> byte list \<Rightarrow> byte list res" where
  "rc4_loop md x E i st [] = Inr []"
| "rc4_loop md x E i st (d # ds) =
     rbind (rc4_round md i st) (\<lambda>(st, k).
     rbind (rc4_loop md x E (i + 1) st ds) (\<lambda>rest.
     Inr ((if E then (d XOR k) - x else (d - x) XOR k) # rest)))"

definition rc4_crypt ::
  "byte list \<Rightarrow> int \<Rightarrow> byte list \<Rightarrow> int \<Rightarrow> byte list \<Rightarrow> int \<Rightarrow> bool \<Rightarrow> byte list res" where
  "rc4_crypt box0 md key keylen data subtract E =
     (if keylen \<le> 0 \<or> data = [] then Inr data
      else rbind (rc4_sbox md box0 key (nat keylen)) (\<lambda>box.
           rc4_loop md (word_of_int (if E then subtract else - subtract)) E 0 (0, 0, box) data))"

section \<open>Indices stay in bounds\<close>

lemma crem_nonneg: "0 \<le> a \<Longrightarrow> 0 < b \<Longrightarrow> crem a b = Inr (a mod b)"
  by (cases "a = 0") (simp_all add: crem_def)

lemma box_get_in: "0 \<le> i \<Longrightarrow> i < int (length box) \<Longrightarrow> box_get box i = Inr (box ! nat i)"
  by (simp add: box_get_def nat_less_iff)

lemma box_set_in: "0 \<le> i \<Longrightarrow> i < int (length box) \<Longrightarrow> box_set box i b = Inr (box[nat i := b])"
  by (simp add: box_set_def nat_less_iff)

lemma box_get_at: "length box = 255 \<Longrightarrow> 0 \<le> i \<Longrightarrow> i < 255 \<Longrightarrow> box_get box i = Inr (box ! nat i)"
  by (simp add: box_get_in)

lemma box_swap_in:
  "0 \<le> i \<Longrightarrow> i < int (length box) \<Longrightarrow> 0 \<le> j \<Longrightarrow> j < int (length box) \<Longrightarrow>
   box_swap box i j = Inr (box[nat i := box ! nat j, nat j := box ! nat i])"
  by (simp add: box_swap_def box_get_in box_set_in)

text \<open>Valid moduli, and boxes that agree wherever a valid modulus lets the code look.\<close>

definition valid_mod :: "int \<Rightarrow> bool" where
  "valid_mod md \<longleftrightarrow> 1 \<le> md \<and> md \<le> 255"

definition box_rel :: "int \<Rightarrow> byte list \<Rightarrow> byte list \<Rightarrow> bool" where
  "box_rel md a b \<longleftrightarrow> length a = 255 \<and> length b = 255 \<and> take (nat md) a = take (nat md) b"

lemma box_rel_nth: "box_rel md a b \<Longrightarrow> valid_mod md \<Longrightarrow> 0 \<le> i \<Longrightarrow> i < md \<Longrightarrow> a ! nat i = b ! nat i"
proof -
  assume "box_rel md a b" "valid_mod md" "0 \<le> i" "i < md"
  then have "nat i < nat md" and t: "take (nat md) a = take (nat md) b"
    by (simp_all add: box_rel_def)
  from \<open>nat i < nat md\<close> have "a ! nat i = take (nat md) a ! nat i" by (rule nth_take [symmetric])
  also have "\<dots> = take (nat md) b ! nat i" by (simp only: t)
  also have "\<dots> = b ! nat i" using \<open>nat i < nat md\<close> by (rule nth_take)
  finally show ?thesis .
qed

lemma box_rel_update:
  "box_rel md a b \<Longrightarrow> box_rel md (a[i := x]) (b[i := x])"
  by (simp add: box_rel_def take_update_swap)

lemma box_swap_rel:
  assumes "box_rel md a b" "valid_mod md" "0 \<le> i" "i < md" "0 \<le> j" "j < md"
  shows "\<exists>a' b'. box_swap a i j = Inr a' \<and> box_swap b i j = Inr b' \<and> box_rel md a' b'"
proof -
  have "length a = 255" "length b = 255" "i < 255" "j < 255"
    using assms(1,2,4,6) by (auto simp: box_rel_def valid_mod_def)
  then have "box_swap a i j = Inr (a[nat i := a ! nat j, nat j := a ! nat i])"
    "box_swap b i j = Inr (b[nat i := b ! nat j, nat j := b ! nat i])"
    using assms(3,5) by (simp_all add: box_swap_in)
  moreover have "a ! nat i = b ! nat i" "a ! nat j = b ! nat j"
    using box_rel_nth [OF assms(1,2)] assms(3-6) by blast+
  ultimately show ?thesis using box_rel_update [OF box_rel_update [OF assms(1)]] by simp
qed

section \<open>The key schedule\<close>

definition mix_rel :: "int \<Rightarrow> int \<times> byte list \<Rightarrow> int \<times> byte list \<Rightarrow> bool" where
  "mix_rel md = (\<lambda>(j, a) (k, b). j = k \<and> 0 \<le> j \<and> box_rel md a b)"

lemma sbox_mix_rel:
  assumes "mix_rel md s t" "valid_mod md" "0 \<le> i" "i < md" "0 < keylen" "keylen \<le> length key"
  shows "\<exists>s' t'. sbox_mix md key keylen i s = Inr s' \<and> sbox_mix md key keylen i t = Inr t'
           \<and> mix_rel md s' t'"
proof -
  obtain j a b where st: "s = (j, a)" "t = (j, b)" "0 \<le> j" "box_rel md a b"
    using assms(1) by (auto simp: mix_rel_def)
  have len: "length a = 255" "length b = 255" "md \<le> 255" "0 < md"
    using st(4) assms(2) by (auto simp: box_rel_def valid_mod_def)
  let ?k = "key ! (nat i mod keylen)"
  let ?j = "(j + uint (a ! nat i) + uint ?k) mod md"
  have nk: "nat i mod keylen < length key"
    using assms(5,6) by (meson mod_less_divisor less_le_trans)
  have j: "0 \<le> ?j" "?j < md" using len by simp_all
  have ab: "a ! nat i = b ! nat i" using box_rel_nth [OF st(4) assms(2-4)] .
  obtain a' b' where sw: "box_swap a i ?j = Inr a'" "box_swap b i ?j = Inr b'" "box_rel md a' b'"
    using box_swap_rel [OF st(4) assms(2-4) j] by blast
  have "sbox_mix md key keylen i s = Inr (?j, a')"
    using sw(1) nk st(3) assms(3,4) len by (simp add: sbox_mix_def st(1) box_get_in crem_nonneg)
  moreover have "sbox_mix md key keylen i t = Inr (?j, b')"
    using sw(2) nk st(3) assms(3,4) len
    by (simp add: sbox_mix_def st(2) box_get_in crem_nonneg ab [symmetric])
  ultimately show ?thesis using sw(3) j by (simp add: mix_rel_def)
qed

text \<open>
  The schedule never reads the uninitialised part of the box: two stack contents give
  boxes that agree on the first \<open>md\<close> entries, and no step of it faults.
\<close>

lemma fill_box:
  assumes "n \<le> length box"
  shows "rfold (\<lambda>i box. box_set box i (word_of_int i)) [0..int n - 1] box
    = Inr (map (\<lambda>i. word_of_int (int i)) [0..<n] @ drop n box)"
  using assms
proof (induction n)
  case 0
  then show ?case by simp
next
  case (Suc n)
  let ?b = "map (\<lambda>i. word_of_int (int i)) [0..<n] @ drop n box :: byte list"
  have "?b[n := word_of_int (int n)] = map (\<lambda>i. word_of_int (int i)) [0..<n] @
      (drop n box)[0 := word_of_int (int n)]"
    by (simp add: list_update_append)
  also have "(drop n box)[0 := word_of_int (int n)] = word_of_int (int n) # drop (Suc n) box"
    using Suc.prems by (subst Cons_nth_drop_Suc [symmetric]) simp_all
  finally have upd: "?b[n := word_of_int (int n)]
      = map (\<lambda>i. word_of_int (int i)) [0..<Suc n] @ drop (Suc n) box"
    by simp
  have "[0..int (Suc n) - 1] = [0..int n - 1] @ [int n]"
    using upto_rec2 [of 0 "int n"] by simp
  with Suc upd show ?case by (simp add: rfold_append box_set_in del: upt_Suc)
qed

lemma rc4_sbox_rel:
  assumes "length a = 255" "length b = 255" "valid_mod md" "0 < keylen" "keylen \<le> length key"
  shows "\<exists>a' b'. rc4_sbox md a key keylen = Inr a' \<and> rc4_sbox md b key keylen = Inr b'
           \<and> box_rel md a' b'"
proof -
  let ?n = "nat md"
  let ?f = "map (\<lambda>i. word_of_int (int i)) [0..<?n] :: byte list"
  have n: "?n \<le> 255" "int ?n = md" "md \<le> 255" using assms(3) by (auto simp: valid_mod_def)
  have fill: "rfold (\<lambda>i box. box_set box i (word_of_int i)) [0..md - 1] a = Inr (?f @ drop ?n a)"
    "rfold (\<lambda>i box. box_set box i (word_of_int i)) [0..md - 1] b = Inr (?f @ drop ?n b)"
    using fill_box [of ?n a] fill_box [of ?n b] n assms(1,2) by simp_all
  have start: "mix_rel md (0, ?f @ drop ?n a) (0, ?f @ drop ?n b)"
    using n assms(1,2) by (simp add: mix_rel_def box_rel_def)
  have "\<exists>s t. rfold (sbox_mix md key keylen) [0..md - 1] (0, ?f @ drop ?n a) = Inr s
      \<and> rfold (sbox_mix md key keylen) [0..md - 1] (0, ?f @ drop ?n b) = Inr t \<and> mix_rel md s t"
    by (rule rfold_rel [of "mix_rel md", OF start], rule sbox_mix_rel)
      (use assms(3-5) in \<open>simp_all only: set_upto atLeastAtMost_iff zle_diff1_eq\<close>)
  then obtain s t where st: "rfold (sbox_mix md key keylen) [0..md - 1] (0, ?f @ drop ?n a) = Inr s"
      "rfold (sbox_mix md key keylen) [0..md - 1] (0, ?f @ drop ?n b) = Inr t" "mix_rel md s t"
    by blast
  then show ?thesis
    using assms(4) by (cases s; cases t) (simp add: rc4_sbox_def fill mix_rel_def)
qed

section \<open>The key stream and the round trip\<close>

definition round_rel :: "int \<Rightarrow> int \<times> int \<times> byte list \<Rightarrow> int \<times> int \<times> byte list \<Rightarrow> bool" where
  "round_rel md = (\<lambda>(l, h, a) (l', h', b). l = l' \<and> h = h' \<and> 0 \<le> l \<and> 0 \<le> h \<and> box_rel md a b)"

lemma rc4_round_rel:
  assumes "round_rel md s t" "valid_mod md" "0 \<le> i"
  shows "\<exists>s' t' k. rc4_round md i s = Inr (s', k) \<and> rc4_round md i t = Inr (t', k) \<and> round_rel md s' t'"
proof -
  obtain l h a b where st: "s = (l, h, a)" "t = (l, h, b)" "0 \<le> l" "0 \<le> h" and ab: "box_rel md a b"
    using assms(1) by (auto simp: round_rel_def)
  have len: "length a = 255" "length b = 255" "md \<le> 255" "0 < md"
    using ab assms(2) by (auto simp: box_rel_def valid_mod_def)
  let ?l = "l mod md" and ?i = "i mod md"
  have li: "0 \<le> ?l" "?l < md" "0 \<le> ?i" "?i < md" using len by simp_all
  have ai: "a ! nat ?i = b ! nat ?i" using box_rel_nth [OF ab assms(2) li(3,4)] .
  let ?h = "(h + uint (a ! nat ?i)) mod md"
  have h: "0 \<le> ?h" "?h < md" using len by simp_all
  obtain a' b' where sw: "box_swap a ?l ?h = Inr a'" "box_swap b ?l ?h = Inr b'" and ab': "box_rel md a' b'"
    using box_swap_rel [OF ab assms(2) li(1,2) h] by blast
  have len': "length a' = 255" "length b' = 255" using ab' by (auto simp: box_rel_def)
  have al: "a' ! nat ?l = b' ! nat ?l" using box_rel_nth [OF ab' assms(2) li(1,2)] .
  have ah: "a' ! nat ?h = b' ! nat ?h" using box_rel_nth [OF ab' assms(2) h] .
  let ?m = "(uint (a' ! nat ?l) + uint (a' ! nat ?h)) mod md"
  have m: "0 \<le> ?m" "?m < md" using len by simp_all
  have am: "a' ! nat ?m = b' ! nat ?m" using box_rel_nth [OF ab' assms(2) m] .
  have lt: "?l < 255" "?i < 255" "?h < 255" "?m < 255" using li h m len by linarith+
  have c: "crem l md = Inr ?l" "crem i md = Inr ?i"
      "crem (h + uint (a ! nat ?i)) md = Inr ?h" "crem (uint (a' ! nat ?l) + uint (a' ! nat ?h)) md = Inr ?m"
    using st assms(3) len by (simp_all add: crem_nonneg)
  have g: "box_get a ?i = Inr (a ! nat ?i)" "box_get a' ?l = Inr (a' ! nat ?l)"
      "box_get a' ?h = Inr (a' ! nat ?h)" "box_get a' ?m = Inr (a' ! nat ?m)"
    using box_get_at [OF len(1) li(3) lt(2)] box_get_at [OF len'(1) li(1) lt(1)]
      box_get_at [OF len'(1) h(1) lt(3)] box_get_at [OF len'(1) m(1) lt(4)] by blast+
  have g': "box_get b ?i = Inr (a ! nat ?i)" "box_get b' ?l = Inr (a' ! nat ?l)"
      "box_get b' ?h = Inr (a' ! nat ?h)" "box_get b' ?m = Inr (a' ! nat ?m)"
    using box_get_at [OF len(2) li(3) lt(2), folded ai] box_get_at [OF len'(2) li(1) lt(1), folded al]
      box_get_at [OF len'(2) h(1) lt(3), folded ah] box_get_at [OF len'(2) m(1) lt(4), folded am]
    by blast+
  have "rc4_round md i s = Inr ((?l, ?h, a'), a' ! nat ?m)"
    by (simp only: rc4_round_def st prod.case c g sw(1) rbind_Inr)
  moreover have "rc4_round md i t = Inr ((?l, ?h, b'), a' ! nat ?m)"
    by (simp only: rc4_round_def st prod.case c g' sw(2) rbind_Inr)
  moreover have "round_rel md (?l, ?h, a') (?l, ?h, b')"
    unfolding round_rel_def prod.case using li(1) h(1) ab' by (intro conjI refl)
  ultimately show ?thesis by blast
qed

lemma rc4_loop_roundtrip:
  assumes "round_rel md s t" "valid_mod md" "0 \<le> i"
  shows "\<exists>c. rc4_loop md x True i s data = Inr c \<and> length c = length data
           \<and> rc4_loop md (- x) False i t c = Inr data"
  using assms
proof (induction data arbitrary: i s t)
  case Nil
  then show ?case by simp
next
  case (Cons d ds)
  obtain s' t' k where r: "rc4_round md i s = Inr (s', k)" "rc4_round md i t = Inr (t', k)"
      "round_rel md s' t'"
    using rc4_round_rel [OF Cons.prems] by blast
  obtain c where c: "rc4_loop md x True (i + 1) s' ds = Inr c" "length c = length ds"
      "rc4_loop md (- x) False (i + 1) t' c = Inr ds"
    using Cons.IH [OF r(3) Cons.prems(2), of "i + 1"] Cons.prems(3) by auto
  have "((d XOR k) - x - (- x)) XOR k = d"
    by (simp add: xor.assoc)
  with r c show ?case by simp
qed

section \<open>The cipher\<close>

lemma rc4_crypt_roundtrip:
  assumes "length box0 = 255" "length box1 = 255" "valid_mod md" "0 < keylen" "keylen \<le> int (length key)"
  shows "\<exists>c. rc4_crypt box0 md key keylen data subtract True = Inr c \<and> length c = length data
           \<and> rc4_crypt box1 md key keylen c subtract False = Inr data"
proof (cases "data = []")
  case True
  then show ?thesis by (simp add: rc4_crypt_def)
next
  case False
  have "0 < nat keylen" "nat keylen \<le> length key" using assms(4,5) by auto
  with rc4_sbox_rel [OF assms(1-3)] obtain a b
    where ab: "rc4_sbox md box0 key (nat keylen) = Inr a" "rc4_sbox md box1 key (nat keylen) = Inr b"
      "box_rel md a b"
    by blast
  then have "round_rel md (0, 0, a) (0, 0, b)" by (simp add: round_rel_def)
  from rc4_loop_roundtrip [OF this assms(3) order_refl, of "word_of_int subtract" data]
  obtain c where c: "rc4_loop md (word_of_int subtract) True 0 (0, 0, a) data = Inr c"
      "length c = length data"
      "rc4_loop md (- word_of_int subtract) False 0 (0, 0, b) c = Inr data"
    by blast
  from c(2) False have "c \<noteq> []" by auto
  with False assms(4) ab c show ?thesis by (simp add: rc4_crypt_def)
qed

text \<open>The uninitialised box does not matter: every one gives the same bytes.\<close>

lemma rc4_loop_total:
  assumes "valid_mod md" "0 \<le> i" "round_rel md s t"
  shows "\<exists>c. rc4_loop md x E i s data = Inr c \<and> rc4_loop md x E i t data = Inr c \<and> length c = length data"
  using assms
proof (induction data arbitrary: i s t)
  case (Cons d ds)
  obtain s' t' k where r: "rc4_round md i s = Inr (s', k)" "rc4_round md i t = Inr (t', k)"
      "round_rel md s' t'"
    using rc4_round_rel [OF Cons.prems(3,1,2)] by blast
  then show ?case using Cons.IH [OF Cons.prems(1) _ r(3), of "i + 1"] Cons.prems(2) by auto
qed simp

lemma rc4_crypt_same:
  assumes "valid_mod md" "0 < keylen" "keylen \<le> int (length key)" "length a = 255" "length b = 255"
  shows "\<exists>c. rc4_crypt a md key keylen data subtract E = Inr c \<and> rc4_crypt b md key keylen data subtract E = Inr c
    \<and> length c = length data"
proof (cases "data = []")
  case False
  have "0 < nat keylen" "nat keylen \<le> length key" using assms(2,3) by auto
  with rc4_sbox_rel [OF assms(4,5,1)] obtain a' b'
    where ab: "rc4_sbox md a key (nat keylen) = Inr a'" "rc4_sbox md b key (nat keylen) = Inr b'" "box_rel md a' b'"
    by blast
  then have "round_rel md (0, 0, a') (0, 0, b')" by (simp add: round_rel_def)
  from rc4_loop_total [OF assms(1) order_refl this] show ?thesis
    using False assms(2) ab by (simp add: rc4_crypt_def)
qed (simp add: rc4_crypt_def)

lemma rc4_crypt_total:
  assumes "valid_mod md" "0 < keylen" "keylen \<le> int (length key)"
  obtains c where "length c = length data"
    "\<And>box. length box = 255 \<Longrightarrow> rc4_crypt box md key keylen data subtract E = Inr c"
proof -
  let ?box = "replicate 255 0 :: byte list"
  obtain c where c: "rc4_crypt ?box md key keylen data subtract E = Inr c" "length c = length data"
    using rc4_crypt_same [OF assms length_replicate length_replicate, where data = data and subtract = subtract and E = E] by blast
  have "rc4_crypt box md key keylen data subtract E = Inr c" if "length box = 255" for box
    using rc4_crypt_same [OF assms that, of ?box data subtract E] c(1) by auto
  with c(2) show ?thesis by (rule that)
qed

text \<open>
  The schedule only exchanges entries: the first \<open>md\<close> entries of the box are a permutation
  of \<open>0, ..., md - 1\<close>.
\<close>

definition perm_box :: "int \<Rightarrow> byte list \<Rightarrow> bool" where
  "perm_box md box \<longleftrightarrow> length box = 255 \<and>
     mset (take (nat md) box) = mset (map (\<lambda>i. word_of_int (int i)) [0..<nat md])"

lemma box_swap_perm:
  assumes "perm_box md box" "valid_mod md" "0 \<le> i" "i < md" "0 \<le> j" "j < md"
  shows "\<exists>box'. box_swap box i j = Inr box' \<and> perm_box md box'"
proof -
  let ?i = "nat i" and ?j = "nat j" and ?t = "take (nat md) box"
  have len: "length box = 255" "i < 255" "j < 255" and lt: "?i < nat md" "?j < nat md"
    and tl: "length ?t = nat md"
    using assms by (auto simp: perm_box_def valid_mod_def)
  have "take (nat md) (box[?i := box ! ?j, ?j := box ! ?i]) = ?t[?i := ?t ! ?j, ?j := ?t ! ?i]"
    using lt by (simp add: take_update_swap)
  moreover have "mset (?t[?i := ?t ! ?j, ?j := ?t ! ?i]) = mset ?t"
    by (rule mset_swap) (simp_all only: tl lt)
  ultimately show ?thesis using assms(1,3,5) len by (simp add: box_swap_in perm_box_def)
qed

lemma sbox_mix_perm:
  assumes "0 \<le> fst s \<and> perm_box md (snd s)" "valid_mod md" "0 \<le> i" "i < md"
    "0 < keylen" "keylen \<le> length key"
  shows "\<exists>s'. sbox_mix md key keylen i s = Inr s' \<and> 0 \<le> fst s' \<and> perm_box md (snd s')"
proof -
  obtain j box where s: "s = (j, box)" by (cases s)
  with assms(1,2) have len: "0 \<le> j" "perm_box md box" "length box = 255" "0 < md" "md \<le> 255"
    by (auto simp: perm_box_def valid_mod_def)
  have nk: "nat i mod keylen < length key"
    using assms(5,6) by (meson mod_less_divisor less_le_trans)
  let ?j = "(j + uint (box ! nat i) + uint (key ! (nat i mod keylen))) mod md"
  have j: "0 \<le> ?j" "?j < md" using len by simp_all
  obtain box' where "box_swap box i ?j = Inr box'" "perm_box md box'"
    using box_swap_perm [OF len(2) assms(2-4) j] by blast
  then show ?thesis
    using nk len assms(3,4) by (simp add: sbox_mix_def s box_get_in crem_nonneg)
qed

lemma rc4_sbox_perm:
  assumes "length box0 = 255" "valid_mod md" "0 < keylen" "keylen \<le> length key"
  shows "\<exists>box. rc4_sbox md box0 key keylen = Inr box \<and> perm_box md box"
proof -
  let ?f = "map (\<lambda>i. word_of_int (int i)) [0..<nat md] @ drop (nat md) box0 :: byte list"
  have n: "nat md \<le> 255" "int (nat md) = md" using assms(2) by (auto simp: valid_mod_def)
  have fill: "rfold (\<lambda>i box. box_set box i (word_of_int i)) [0..md - 1] box0 = Inr ?f"
    using fill_box [of "nat md" box0] n assms(1) by simp
  have start: "0 \<le> fst (0 :: int, ?f) \<and> perm_box md (snd (0 :: int, ?f))"
    using n assms(1) by (simp add: perm_box_def)
  have "\<exists>s. rfold (sbox_mix md key keylen) [0..md - 1] (0, ?f) = Inr s \<and> 0 \<le> fst s \<and> perm_box md (snd s)"
    by (rule rfold_inv [where P = "\<lambda>s. 0 \<le> fst s \<and> perm_box md (snd s)", OF _ start],
        rule sbox_mix_perm) (use assms(2-4) in \<open>simp_all only: set_upto atLeastAtMost_iff zle_diff1_eq\<close>)
  then show ?thesis using assms(3) by (auto simp: rc4_sbox_def fill)
qed

section \<open>Properties\<close>

text \<open>C22: what one side encrypts the other side decrypts to the same bytes, for every key and
  modulus the proxy draws, whatever the two uninitialised boxes on the stacks hold and
  without an access outside them.\<close>

theorem rc4_both_sides_agree:
  assumes "length box0 = 255" "length box1 = 255" "valid_mod md" "0 < keylen" "keylen \<le> int (length key)"
  shows "\<exists>c. rc4_crypt box0 md key keylen data subtract True = Inr c \<and> length c = length data
           \<and> rc4_crypt box1 md key keylen c subtract False = Inr data"
  using assms by (rule rc4_crypt_roundtrip)

lemma rc4_both_sides_agree_witness:
  "\<exists>c. rc4_crypt (replicate 255 0) 7 [1, 2, 3] 3 [10, 20, 30] 5 True = Inr c \<and> length c = 3
     \<and> rc4_crypt (replicate 255 9) 7 [1, 2, 3] 3 c 5 False = Inr [10, 20, 30]"
  using rc4_both_sides_agree [of "replicate 255 0" "replicate 255 9" 7 3 "[1, 2, 3]" "[10, 20, 30]" 5]
  by (simp add: valid_mod_def eval_nat_numeral)

text \<open>The key schedule never leaves the box and only exchanges its entries.\<close>

theorem rc4_sbox_is_permutation:
  assumes "length box0 = 255" "valid_mod md" "0 < keylen" "keylen \<le> length key"
  shows "\<exists>box. rc4_sbox md box0 key keylen = Inr box \<and> perm_box md box"
  using assms by (rule rc4_sbox_perm)

lemma rc4_sbox_is_permutation_witness:
  "\<exists>box. rc4_sbox 3 (replicate 255 0) [200, 7] 2 = Inr box \<and> perm_box 3 box"
  by (rule rc4_sbox_is_permutation) (simp_all add: valid_mod_def)

end
