(* ===== verification/Protocol.thy ===== *)
theory Protocol
  imports Byte_Order Proto_Mask
begin

text \<open>
  \<open>protocol.hpp\<close>: the packet header and the messages of the handshake. The header is a
  packed struct of 11 bytes that the code copies to the wire as it lies in memory, so on
  the little-endian hosts it is built for, its integers travel low byte first; the message
  bodies use the writers of \<open>NetUtils.hpp\<close>, high byte first. A function that fills a
  block is modelled by the bytes it stores from the start of the block on.
\<close>

section \<open>Commands and error codes\<close>

datatype protocol_cmd =
    Commands_LCriticalSI | Commands_AuthenticationAAA | Commands_Heartbeat
  | Commands_RoutingTransparent | Commands_BroadCast | Commands_ConnectionConfirm
  | Commands_Kick | Commands_RCriticalSI

fun cmd_code :: "protocol_cmd \<Rightarrow> u16" where
  "cmd_code Commands_LCriticalSI = 0x7e8d"
| "cmd_code Commands_AuthenticationAAA = 0x7e8e"
| "cmd_code Commands_Heartbeat = 0x7e8f"
| "cmd_code Commands_RoutingTransparent = 0x7e90"
| "cmd_code Commands_BroadCast = 0x7e91"
| "cmd_code Commands_ConnectionConfirm = 0x7e92"
| "cmd_code Commands_Kick = 0x7e93"
| "cmd_code Commands_RCriticalSI = 0xFFFF"

datatype TransferError = EC_Success | EC_ServerNotFound | EC_CodeEnd

fun error_code :: "TransferError \<Rightarrow> byte" where
  "error_code EC_Success = 0"
| "error_code EC_ServerNotFound = 1"
| "error_code EC_CodeEnd = 0xff"

section \<open>The header\<close>

record protocol_head =
  head_fk :: byte
  head_len :: u16
  head_mask :: u16
  head_flag :: u16     \<comment> \<open>\<open>cmd_compressed_flag\<close>\<close>
  head_seq :: u32

abbreviation PROTO_HEAD_SIZE :: nat where
  "PROTO_HEAD_SIZE \<equiv> 11"

abbreviation FRAME_KEY :: byte where
  "FRAME_KEY \<equiv> 0x2e"

definition le16 :: "u16 \<Rightarrow> byte list" where
  "le16 v = [ucast v, ucast (drop_bit 8 v)]"

definition le32 :: "u32 \<Rightarrow> byte list" where
  "le32 v = [ucast v, ucast (drop_bit 8 v), ucast (drop_bit 16 v), ucast (drop_bit 24 v)]"

definition of_le16 :: "byte \<Rightarrow> byte \<Rightarrow> u16" where
  "of_le16 a b = ucast a OR push_bit 8 (ucast b)"

definition of_le32 :: "byte \<Rightarrow> byte \<Rightarrow> byte \<Rightarrow> byte \<Rightarrow> u32" where
  "of_le32 a b c d =
     ucast a OR push_bit 8 (ucast b) OR push_bit 16 (ucast c) OR push_bit 24 (ucast d)"

text \<open>The struct as it lies in memory, and back.\<close>

definition head_bytes :: "protocol_head \<Rightarrow> byte list" where
  "head_bytes h =
     head_fk h # le16 (head_len h) @ le16 (head_mask h) @ le16 (head_flag h) @ le32 (head_seq h)"

definition head_of_bytes :: "byte list \<Rightarrow> protocol_head" where
  "head_of_bytes bs =
     \<lparr>head_fk = bs ! 0, head_len = of_le16 (bs ! 1) (bs ! 2), head_mask = of_le16 (bs ! 3) (bs ! 4),
      head_flag = of_le16 (bs ! 5) (bs ! 6), head_seq = of_le32 (bs ! 7) (bs ! 8) (bs ! 9) (bs ! 10)\<rparr>"

definition get_cmd :: "protocol_head \<Rightarrow> u16" where
  "get_cmd h = head_flag h AND 0x7FFF"

definition get_compressed :: "protocol_head \<Rightarrow> bool" where
  "get_compressed h \<longleftrightarrow> drop_bit 15 (head_flag h) \<noteq> 0"

definition get_a_head :: "byte \<Rightarrow> u16 \<Rightarrow> u16 \<Rightarrow> u16 \<Rightarrow> bool \<Rightarrow> u32 \<Rightarrow> protocol_head" where
  "get_a_head fk' len' mask' cmd' compressed' seq' =
     \<lparr>head_fk = fk', head_len = len', head_mask = mask',
      head_flag = (if compressed' then push_bit 15 1 else 0) OR (cmd' AND 0x7FFF),
      head_seq = seq'\<rparr>"

text \<open>
  The build that is not MSVC's declares the flag word as two bit-fields, a 15-bit \<open>cmd\<close> and
  a 1-bit \<open>compressed\<close>, which a little-endian ABI allocates from the low bit up.
\<close>

record head_bitfields =
  bf_cmd :: "15 word"
  bf_compressed :: "1 word"

definition get_a_head_bits :: "u16 \<Rightarrow> bool \<Rightarrow> head_bitfields" where
  "get_a_head_bits cmd' compressed' =
     \<lparr>bf_cmd = ucast cmd', bf_compressed = ucast (if compressed' then 1 else 0 :: byte)\<rparr>"

definition bits_get_cmd :: "head_bitfields \<Rightarrow> u16" where
  "bits_get_cmd f = ucast (bf_cmd f)"

definition bits_get_compressed :: "head_bitfields \<Rightarrow> bool" where
  "bits_get_compressed f \<longleftrightarrow> (ucast (bf_compressed f) :: byte) \<noteq> 0"

definition bits_word :: "head_bitfields \<Rightarrow> u16" where
  "bits_word f = push_bit 15 (ucast (bf_compressed f)) OR ucast (bf_cmd f)"

section \<open>Packing and unpacking packets\<close>

text \<open>\<open>pack\<close>: the bytes stored at \<open>ret_block\<close>, and \<open>ret_length\<close>.\<close>

definition pack_head :: "reader \<Rightarrow> u16 \<Rightarrow> u16 \<Rightarrow> u32 \<Rightarrow> (byte list \<times> u16) res" where
  "pack_head msg length' cmd' seq' =
     rbind (msg 0 (unat length')) (\<lambda>body.
     Inr (head_bytes (get_a_head 0x2e length' 0 cmd' False seq') @ body,
          length' + of_nat PROTO_HEAD_SIZE))"

text \<open>The overload that gathers several blocks; it asserts one length per block.\<close>

definition pack_heads :: "reader list \<Rightarrow> nat list \<Rightarrow> u16 \<Rightarrow> u32 \<Rightarrow> (byte list \<times> u16) res" where
  "pack_heads msgs lens cmd' seq' =
     (if length msgs \<noteq> length lens then Inl AssertFailed
      else rbind (rfold (\<lambda>(msg, n) acc. rbind (msg 0 n) (\<lambda>bs. Inr (acc @ bs))) (zip msgs lens) [])
        (\<lambda>body. let total_length = of_nat (sum_list lens) :: u64 in
          Inr (head_bytes (get_a_head 0x2e (ucast total_length) 0 cmd' False seq') @ body,
               ucast (total_length + of_nat PROTO_HEAD_SIZE))))"

text \<open>
  \<open>unpack\<close> subtracts the header size from a \<open>uint16_t\<close> length as a \<open>size_t\<close>: a shorter packet
  makes it copy almost the whole address space, which no object allows.
\<close>

definition unpack_packet :: "reader \<Rightarrow> u16 \<Rightarrow> (protocol_head \<times> byte list) res" where
  "unpack_packet origin length' =
     rbind (origin 0 PROTO_HEAD_SIZE) (\<lambda>hb.
     rbind (origin PROTO_HEAD_SIZE (unat (ucast length' - of_nat PROTO_HEAD_SIZE :: u64))) (\<lambda>body.
     Inr (head_of_bytes hb, body)))"

definition unpack_head :: "reader \<Rightarrow> protocol_head res" where
  "unpack_head head_block = rbind (head_block 0 PROTO_HEAD_SIZE) (\<lambda>hb. Inr (head_of_bytes hb))"

definition unpack_msg :: "reader \<Rightarrow> u16 \<Rightarrow> byte list res" where
  "unpack_msg msg_block length' = msg_block 0 (unat length')"

text \<open>
  The step every sender takes on its header: compute the checksum with the mask field
  zero, then store it there.
\<close>

definition seal_head :: "protocol_head \<Rightarrow> byte list \<Rightarrow> protocol_head" where
  "seal_head h data = h\<lparr>head_mask := get_mask (head_bytes h) data 0\<rparr>"

section \<open>Handshake messages\<close>

record authentication_aaa_request =
  req_area_id :: u16
  req_server_id :: u16
  req_link_type :: byte
  req_platform :: "byte list"
  req_platform_len :: u16

definition aaa_request_pack :: "u16 \<Rightarrow> u16 \<Rightarrow> byte \<Rightarrow> reader \<Rightarrow> u16 \<Rightarrow> (byte list \<times> u16) res" where
  "aaa_request_pack area_id' server_id' link_type' platform' platform_len' =
     rbind (platform' 0 (unat platform_len' + 1)) (\<lambda>p.
     Inr (write_uint16 area_id' @ write_uint16 server_id' @ [link_type'] @ p
            @ write_uint16 platform_len',
          2 + 2 + 1 + platform_len' + 1 + 2))"

definition aaa_request_unpack :: "reader \<Rightarrow> u16 \<Rightarrow> authentication_aaa_request res" where
  "aaa_request_unpack block length' =
     (let plen = length' - 8 in
      rbind (block 0 2) (\<lambda>area.
      rbind (block 2 2) (\<lambda>server.
      rbind (read_byte block 4) (\<lambda>link.
      rbind (block 5 (unat plen + 1)) (\<lambda>p.
      Inr \<lparr>req_area_id = read_uint16 area, req_server_id = read_uint16 server,
           req_link_type = link, req_platform = p, req_platform_len = plen\<rparr>)))))"

record authentication_aaa_response =
  res_ec :: byte
  res_subtract :: byte
  res_mod_vt :: byte
  res_key :: "byte list"
  res_key_len :: u16
  res_link_no :: u32

definition aaa_response_pack ::
  "byte \<Rightarrow> byte \<Rightarrow> byte \<Rightarrow> reader \<Rightarrow> u16 \<Rightarrow> u32 \<Rightarrow> byte \<Rightarrow> (byte list \<times> u16) res" where
  "aaa_response_pack ec' subtract' mod_vt' key' key_len' link_no' link_type' =
     rbind (key' 0 (unat key_len')) (\<lambda>k.
     Inr ([ec', subtract', mod_vt'] @ k @ write_uint32 link_no' @ [link_type'],
          1 + 1 + 1 + key_len' + 2 + 4 + 1))"

text \<open>\<open>unpack\<close> leaves the field \<open>link_type\<close> unset; the record has no such field.\<close>

definition aaa_response_unpack :: "reader \<Rightarrow> u16 \<Rightarrow> authentication_aaa_response res" where
  "aaa_response_unpack block length' =
     (let klen = length' - 11 in
      rbind (read_byte block 0) (\<lambda>ec.
      rbind (read_byte block 1) (\<lambda>sub.
      rbind (read_byte block 2) (\<lambda>md.
      rbind (block 3 (unat klen)) (\<lambda>k.
      rbind (block (unat klen + 1 + 3) 4) (\<lambda>l.
      Inr \<lparr>res_ec = ec, res_subtract = sub, res_mod_vt = md, res_key = k, res_key_len = klen,
           res_link_no = read_uint32 l\<rparr>))))))"

definition confirm_pack :: "u32 \<Rightarrow> byte list \<times> u16" where
  "confirm_pack ip = (write_uint32 ip, 4)"

definition confirm_unpack :: "reader \<Rightarrow> u32 res" where
  "confirm_unpack block = rbind (block 0 4) (\<lambda>bs. Inr (read_uint32 bs))"

section \<open>Header lemmas\<close>

lemma length_head_bytes [simp]: "length (head_bytes h) = PROTO_HEAD_SIZE"
  by (simp add: head_bytes_def le16_def le32_def)

lemma of_le16_le16 [simp]: "of_le16 (ucast v) (ucast (drop_bit 8 v)) = v"
  unfolding of_le16_def by (rule bit_word_eqI) (auto simp: bit_simps)

lemma of_le32_le32 [simp]:
  "of_le32 (ucast v) (ucast (drop_bit 8 v)) (ucast (drop_bit 16 v)) (ucast (drop_bit 24 v)) = v"
  unfolding of_le32_def
proof (rule bit_word_eqI, goal_cases)
  case (1 n)
  then consider "n < 8" | "8 \<le> n" "n < 16" | "16 \<le> n" "n < 24" | "24 \<le> n" "n < 32"
    by fastforce
  then show ?case by cases (simp_all add: bit_simps less_diff_conv2)
qed

lemma head_of_head_bytes [simp]: "head_of_bytes (head_bytes h) = h"
  by (simp add: head_of_bytes_def head_bytes_def le16_def le32_def)

lemma flag_mask_lit: "(0x7FFF :: 'a::len word) = mask 15"
  by (simp add: mask_eq_exp_minus_1)

lemma bit_flag_lit: "bit (32768 :: int) n \<longleftrightarrow> n = 15"
  using bit_exp_iff [of 15 n, where ?'a = int] by auto

lemma get_cmd_head: "get_cmd (get_a_head fk' len' mask' cmd' c s) = cmd' AND 0x7FFF"
  unfolding get_cmd_def get_a_head_def flag_mask_lit
  by (rule bit_word_eqI) (auto simp: bit_simps bit_flag_lit)

lemma get_compressed_head [simp]: "get_compressed (get_a_head fk' len' mask' cmd' c s) \<longleftrightarrow> c"
proof -
  let ?f = "(if c then push_bit 15 1 else 0) OR (cmd' AND 0x7FFF) :: u16"
  have "drop_bit 15 ?f = (if c then 1 else 0)"
    unfolding flag_mask_lit by (rule bit_word_eqI) (auto simp: bit_simps bit_flag_lit)
  then show ?thesis by (simp add: get_compressed_def get_a_head_def)
qed

lemma get_cmd_of_code: "c \<noteq> Commands_RCriticalSI \<Longrightarrow> get_cmd (get_a_head fk' len' mask' (cmd_code c) b s) = cmd_code c"
  by (cases c) (simp_all add: get_cmd_head)

lemma bits_word_eq: "bits_word (get_a_head_bits cmd' c) = head_flag (get_a_head fk' len' mask' cmd' c s)"
  unfolding bits_word_def get_a_head_bits_def get_a_head_def flag_mask_lit
  by (rule bit_word_eqI) (auto simp: bit_simps bit_flag_lit)

lemma bits_get_eq:
  "bits_get_cmd (get_a_head_bits cmd' c) = get_cmd (get_a_head fk' len' mask' cmd' c s)"
  "bits_get_compressed (get_a_head_bits cmd' c) \<longleftrightarrow> get_compressed (get_a_head fk' len' mask' cmd' c s)"
   unfolding bits_get_cmd_def get_a_head_bits_def get_cmd_head flag_mask_lit
   by (rule bit_word_eqI; auto simp: bit_simps bit_flag_lit)
    (simp add: bits_get_compressed_def get_a_head_bits_def)

lemma head_fields [simp]:
  "head_fk (get_a_head f l m c b s) = f" "head_len (get_a_head f l m c b s) = l"
  "head_mask (get_a_head f l m c b s) = m" "head_seq (get_a_head f l m c b s) = s"
  by (simp_all add: get_a_head_def)

lemma pair_sum_head_mask:
  "pair_sum (head_bytes (h\<lparr>head_mask := m\<rparr>)) = pair_sum (head_bytes (h\<lparr>head_mask := 0\<rparr>)) + unat m"
proof -
  have "unat (ucast m :: byte) + 256 * unat (ucast (drop_bit 8 m) :: byte) = unat m"
  proof -
    have "unat m < 65536" using unsigned_less [of m, where ?'a = nat] by simp
    then have "unat (ucast (drop_bit 8 m) :: byte) = unat m div 256"
      by (simp add: unsigned_ucast_eq take_bit_eq_mod drop_bit_eq_div unat_div
          less_mult_imp_div_less)
    moreover have "unat (ucast m :: byte) = unat m mod 256"
      by (simp add: unsigned_ucast_eq take_bit_eq_mod)
    ultimately show ?thesis by simp
  qed
  then show ?thesis by (simp add: head_bytes_def le16_def le32_def)
qed

lemma pair_sum_head_le: "pair_sum (head_bytes h) \<le> 393210"
  using pair_sum_le [of "head_bytes h"] by simp

text \<open>Payloads up to this length keep the 32-bit accumulator from wrapping.\<close>

lemma pair_sum_data_le: "length data \<le> 130000 \<Longrightarrow> pair_sum data \<le> 4259807767"
  using pair_sum_le [of data] by simp

text \<open>A sealed packet passes the receiver's check.\<close>

lemma seal_head_accepted:
  assumes "head_mask h = 0" "length data \<le> 130000"
  shows "get_mask (head_bytes (seal_head h data)) data 0 = 0"
proof (rule mask_accepted)
  have h: "h\<lparr>head_mask := 0\<rparr> = h" using assms(1) by simp
  show "pair_sum (head_bytes (seal_head h data))
      = pair_sum (head_bytes h) + unat (get_mask (head_bytes h) data 0)"
    unfolding seal_head_def by (subst pair_sum_head_mask) (simp only: h)
  show "pair_sum (head_bytes h) + pair_sum data + 2 * 65535 < 2 ^ 32"
    using pair_sum_head_le [of h] pair_sum_data_le [OF assms(2)] by simp
qed

lemma seal_head_fields [simp]:
  "head_fk (seal_head h d) = head_fk h" "head_len (seal_head h d) = head_len h"
  "head_flag (seal_head h d) = head_flag h" "head_seq (seal_head h d) = head_seq h"
  "get_cmd (seal_head h d) = get_cmd h" "get_compressed (seal_head h d) \<longleftrightarrow> get_compressed h"
  by (simp_all add: seal_head_def get_cmd_def get_compressed_def)

section \<open>Round trips of the packers\<close>

lemma pack_head_unpack:
  assumes "unat len \<le> length msg" "unat len + PROTO_HEAD_SIZE < 65536"
  shows "\<exists>bs n. pack_head (list_reader msg) len cmd seq = Inr (bs, n)
    \<and> length bs = unat n
    \<and> unpack_packet (list_reader bs) n = Inr (get_a_head FRAME_KEY len 0 cmd False seq, take (unat len) msg)"
proof -
  let ?h = "get_a_head FRAME_KEY len 0 cmd False seq"
  let ?bs = "head_bytes ?h @ take (unat len) msg" and ?n = "len + of_nat PROTO_HEAD_SIZE :: u16"
  have n: "unat ?n = unat len + PROTO_HEAD_SIZE"
    using assms(2) by (subst unat_add_small) simp_all
  have "unat (ucast ?n :: u64) = unat len + PROTO_HEAD_SIZE"
    using n by (subst unat_ucast_up) simp_all
  then have "unat (ucast ?n - of_nat PROTO_HEAD_SIZE :: u64) = unat len"
    by (subst unat_sub_small) simp_all
  moreover have "pack_head (list_reader msg) len cmd seq = Inr (?bs, ?n)"
    using assms(1) by (simp add: pack_head_def list_reader_def)
  moreover have "length ?bs = unat ?n" using n assms(1) by simp
  ultimately show ?thesis using assms(1)
    by (auto simp: unpack_packet_def list_reader_def)
qed

lemma aaa_request_roundtrip:
  assumes "holds rd (bs @ rest)" "unat plen + 8 < 65536" "unat plen + 1 \<le> length platform"
    and "aaa_request_pack area server link (list_reader platform) plen = Inr (bs, n)"
  shows "unat n = length bs"
    and "aaa_request_unpack rd n = Inr \<lparr>req_area_id = area, req_server_id = server,
      req_link_type = link, req_platform = take (unat plen + 1) platform, req_platform_len = plen\<rparr>"
proof -
  let ?p = "take (unat plen + 1) platform"
  have bs: "bs = write_uint16 area @ write_uint16 server @ [link] @ ?p @ write_uint16 plen"
    and n: "n = plen + 8"
    using assms(3,4) by (auto simp: aaa_request_pack_def list_reader_def add.commute)
  have lp: "length ?p = unat plen + 1" using assms(3) by simp
  have un: "unat n = unat plen + 8"
    unfolding n using assms(2) by (subst unat_add_small) simp_all
  then show "unat n = length bs" using lp by (simp add: bs)
  have len: "length (bs @ rest) \<ge> unat plen + 8" using lp by (simp add: bs)
  have "rd 0 2 = Inr (write_uint16 area)" "rd 2 2 = Inr (write_uint16 server)"
    "read_byte rd 4 = Inr link" "rd 5 (unat plen + 1) = Inr ?p"
    using assms(1) len lp
    by (simp_all add: holds_read holds_read_byte bs nth_append numeral_eq_Suc)
  moreover have "n - 8 = plen" by (simp add: n)
  ultimately show "aaa_request_unpack rd n = Inr \<lparr>req_area_id = area, req_server_id = server,
      req_link_type = link, req_platform = ?p, req_platform_len = plen\<rparr>"
    by (simp add: aaa_request_unpack_def)
qed

text \<open>
  The response survives with a key one byte short: \<open>pack\<close> counts two length bytes it does
  not write, \<open>unpack\<close> takes off one more, and the two offsets of \<open>link_no\<close> agree again.
\<close>

lemma aaa_response_roundtrip:
  assumes "holds rd (bs @ rest)" "0 < unat klen" "unat klen + 10 < 65536" "unat klen \<le> length key"
    and "aaa_response_pack ec sub md (list_reader key) klen link_no link_type = Inr (bs, n)"
  shows "unat n = length bs + 2"
    and "aaa_response_unpack rd n = Inr \<lparr>res_ec = ec, res_subtract = sub, res_mod_vt = md,
      res_key = take (unat klen - 1) key, res_key_len = klen - 1, res_link_no = link_no\<rparr>"
proof -
  let ?k = "take (unat klen) key"
  have bs: "bs = [ec, sub, md] @ ?k @ write_uint32 link_no @ [link_type]" and n: "n = klen + 10"
    using assms(4,5) by (auto simp: aaa_response_pack_def list_reader_def add.commute)
  have lk: "length ?k = unat klen" using assms(4) by simp
  have un: "unat n = unat klen + 10"
    unfolding n using assms(3) by (subst unat_add_small) simp_all
  then show "unat n = length bs + 2" using lk by (simp add: bs)
  have kl: "n - 11 = klen - 1" by (simp add: n)
  have uk: "unat (klen - 1) = unat klen - 1" using assms(2) by (subst unat_sub_small) simp_all
  have "read_byte rd 0 = Inr ec" "read_byte rd 1 = Inr sub" "read_byte rd 2 = Inr md"
    using assms(1) by (simp_all add: holds_read_byte bs)
  moreover have "rd 3 (unat klen - 1) = Inr (take (unat klen - 1) key)"
    using assms(1,2) lk by (simp add: holds_read bs)
  moreover have "rd (unat klen - 1 + 1 + 3) 4 = Inr (write_uint32 link_no)"
  proof -
    have e: "unat klen - 1 + 1 + 3 = Suc (Suc (Suc (unat klen)))" using assms(2) by simp
    show ?thesis unfolding e using assms(1) lk
      by (subst holds_read [OF assms(1)]) (simp_all add: bs)
  qed
  ultimately show "aaa_response_unpack rd n = Inr \<lparr>res_ec = ec, res_subtract = sub, res_mod_vt = md,
      res_key = take (unat klen - 1) key, res_key_len = klen - 1, res_link_no = link_no\<rparr>"
    by (simp add: aaa_response_unpack_def kl uk)
qed

section \<open>Properties\<close>

text \<open>C23: a header built by any sender and sealed with the checksum of its payload survives the wire,
  keeps its fields, and passes the receiver's checksum test.\<close>

theorem sealed_packet_accepted:
  assumes "length data \<le> 130000"
  shows "head_of_bytes (head_bytes (seal_head (get_a_head f l 0 cmd c s) data)) = seal_head (get_a_head f l 0 cmd c s) data
    \<and> get_mask (head_bytes (seal_head (get_a_head f l 0 cmd c s) data)) data 0 = 0
    \<and> head_len (seal_head (get_a_head f l 0 cmd c s) data) = l
    \<and> head_seq (seal_head (get_a_head f l 0 cmd c s) data) = s
    \<and> get_cmd (seal_head (get_a_head f l 0 cmd c s) data) = cmd AND 0x7FFF
    \<and> (get_compressed (seal_head (get_a_head f l 0 cmd c s) data) \<longleftrightarrow> c)"
  using seal_head_accepted [of "get_a_head f l 0 cmd c s" data] assms by (simp add: get_cmd_head)

lemma sealed_packet_accepted_witness:
  "get_mask (head_bytes (seal_head (get_a_head FRAME_KEY 2 0 (cmd_code Commands_BroadCast) True 7) [10, 20])) [10, 20] 0 = 0"
  using sealed_packet_accepted [of "[10, 20]" FRAME_KEY 2 "cmd_code Commands_BroadCast" True 7] by simp

text \<open>The request of the handshake comes out of \<open>unpack\<close> as it went into \<open>pack\<close>, whatever bytes
  follow it in the buffer.\<close>

theorem request_roundtrip:
  assumes "holds rd (bs @ rest)" "unat plen + 8 < 65536" "unat plen + 1 \<le> length platform"
    and "aaa_request_pack area server link (list_reader platform) plen = Inr (bs, n)"
  shows "unat n = length bs \<and> aaa_request_unpack rd n = Inr \<lparr>req_area_id = area, req_server_id = server,
      req_link_type = link, req_platform = take (unat plen + 1) platform, req_platform_len = plen\<rparr>"
  using aaa_request_roundtrip [OF assms] by simp

lemma request_roundtrip_witness:
  "\<exists>bs n. aaa_request_pack 1 2 9 (list_reader [97, 0]) 1 = Inr (bs, n)
     \<and> aaa_request_unpack (list_reader bs) n = Inr \<lparr>req_area_id = 1, req_server_id = 2,
         req_link_type = 9, req_platform = [97, 0], req_platform_len = 1\<rparr>"
proof -
  have p: "aaa_request_pack 1 2 9 (list_reader [97, 0]) 1 =
      Inr (write_uint16 1 @ write_uint16 2 @ [9] @ [97, 0] @ write_uint16 1, 9)"
    by (simp add: aaa_request_pack_def list_reader_def)
  from request_roundtrip [OF _ _ _ this, of "list_reader (write_uint16 1 @ write_uint16 2 @ [9] @ [97, 0] @ write_uint16 1)" "[]"]
  show ?thesis using p by simp
qed

text \<open>The answer of the handshake keeps its codes and the link number, but the receiver's key is
  one byte shorter than the sender's.\<close>

theorem response_loses_a_key_byte:
  assumes "holds rd (bs @ rest)" "0 < unat klen" "unat klen + 10 < 65536" "unat klen \<le> length key"
    and "aaa_response_pack ec sub md (list_reader key) klen link_no link_type = Inr (bs, n)"
  shows "unat n = length bs + 2 \<and> aaa_response_unpack rd n = Inr \<lparr>res_ec = ec, res_subtract = sub, res_mod_vt = md,
      res_key = take (unat klen - 1) key, res_key_len = klen - 1, res_link_no = link_no\<rparr>"
  using aaa_response_roundtrip [OF assms] by simp

lemma response_loses_a_key_byte_witness:
  "\<exists>bs n. aaa_response_pack 0 1 2 (list_reader [7, 8]) 2 77 9 = Inr (bs, n)
     \<and> aaa_response_unpack (list_reader bs) n = Inr \<lparr>res_ec = 0, res_subtract = 1, res_mod_vt = 2,
         res_key = [7], res_key_len = 1, res_link_no = 77\<rparr>"
proof -
  have p: "aaa_response_pack 0 1 2 (list_reader [7, 8]) 2 77 9 =
      Inr ([0, 1, 2] @ [7, 8] @ write_uint32 77 @ [9], 12)"
    by (simp add: aaa_response_pack_def list_reader_def)
  from response_loses_a_key_byte [OF _ _ _ _ this, of "list_reader ([0, 1, 2] @ [7, 8] @ write_uint32 77 @ [9])" "[]"]
  show ?thesis using p by simp
qed

end
