(* ===== verification/Ring_Buffer.thy ===== *)
theory Ring_Buffer
  imports Prelude
begin

text \<open>
  \<open>parallel_core/RingBuffer.h\<close>, as compiled with \<open>ALLOW_BLOCK_COPY\<close>: a circular buffer for
  one producer and one consumer. One slot is always left free, so equal indices mean
  empty. The indices are \<open>size_t\<close>; \<open>empty(del)\<close> compares an unsigned difference with
  zero, as the source does. The two pointer-returning variants are not compiled.

  The theory also states what its clients rely on as a locale, a bounded queue, and
  proves once what a client that stores frames (a header that gives the length of the
  body after it) gets from any such queue.
\<close>

record 'a ring =
  rb_buffer :: "nat \<Rightarrow> 'a"
  rb_readIndex :: u64
  rb_writeIndex :: u64
  rb_capacity :: u64

abbreviation TOTAL_CACHE_SIZE :: u64 where
  "TOTAL_CACHE_SIZE \<equiv> 1024 * 1024 * 10"

text \<open>The constructor; \<open>malloc\<close> leaves the contents \<open>junk\<close> arbitrary.\<close>

definition ring_new :: "(nat \<Rightarrow> 'a) \<Rightarrow> u64 \<Rightarrow> 'a ring" where
  "ring_new junk capacity =
     \<lparr>rb_buffer = junk, rb_readIndex = 0, rb_writeIndex = 0, rb_capacity = capacity\<rparr>"

definition ring_count :: "'a ring \<Rightarrow> u64" where
  "ring_count r = (rb_writeIndex r - rb_readIndex r + rb_capacity r) mod rb_capacity r"

definition ring_full :: "'a ring \<Rightarrow> u64 \<Rightarrow> bool" where
  "ring_full r add \<longleftrightarrow> ring_count r + add \<ge> rb_capacity r"

definition ring_empty :: "'a ring \<Rightarrow> u64 \<Rightarrow> bool" where
  "ring_empty r del \<longleftrightarrow> ring_count r - del \<le> 0"

definition ring_slot :: "'a ring \<Rightarrow> u64 \<Rightarrow> nat \<Rightarrow> nat" where
  "ring_slot r index i = unat ((index + of_nat i) mod rb_capacity r)"

definition tryRead :: "'a ring \<Rightarrow> u64 \<Rightarrow> bool \<Rightarrow> bool \<times> 'a list \<times> 'a ring" where
  "tryRead r length' withoutShift =
     (if ring_empty r 0 then (False, [], r)
      else (True,
            map (\<lambda>i. rb_buffer r (ring_slot r (rb_readIndex r) i)) [0..<unat length'],
            if \<not> withoutShift
            then r\<lparr>rb_readIndex := (rb_readIndex r + length') mod rb_capacity r\<rparr> else r))"

definition ring_store :: "'a ring \<Rightarrow> 'a list \<Rightarrow> nat \<Rightarrow> nat \<Rightarrow> 'a" where
  "ring_store r data n =
     fold (\<lambda>i b. b(ring_slot r (rb_writeIndex r) i := data ! i)) [0..<n] (rb_buffer r)"

definition tryWrite :: "'a ring \<Rightarrow> 'a list \<Rightarrow> u64 \<Rightarrow> bool \<times> 'a ring" where
  "tryWrite r data length' =
     (if ring_full r 0 then (False, r)
      else if length' + ring_count r \<ge> rb_capacity r then (False, r)
      else (True, r\<lparr>rb_buffer := ring_store r data (unat length'),
                    rb_writeIndex := (rb_writeIndex r + length') mod rb_capacity r\<rparr>))"

definition tryReadShift :: "'a ring \<Rightarrow> u64 \<Rightarrow> bool \<times> 'a ring" where
  "tryReadShift r length' =
     (if ring_empty r length' then (False, r)
      else (True, r\<lparr>rb_readIndex := (rb_readIndex r + length') mod rb_capacity r\<rparr>))"

definition tryWriteShit :: "'a ring \<Rightarrow> u64 \<Rightarrow> bool \<times> 'a ring" where
  "tryWriteShit r length' =
     (if ring_full r length' then (False, r)
      else (True, r\<lparr>rb_writeIndex := (rb_writeIndex r + length') mod rb_capacity r\<rparr>))"

definition ring_clear :: "'a ring \<Rightarrow> 'a ring" where
  "ring_clear r = r\<lparr>rb_readIndex := 0, rb_writeIndex := 0\<rparr>"

section \<open>Invariant and contents\<close>

text \<open>
  The loops count with an \<open>int\<close>, so the model speaks of capacities below \<open>2 ^ 31\<close>; the
  only one the program asks for is \<open>TOTAL_CACHE_SIZE\<close>.
\<close>

definition ring_inv :: "'a ring \<Rightarrow> bool" where
  "ring_inv r \<longleftrightarrow> 0 < unat (rb_capacity r) \<and> unat (rb_capacity r) < 2 ^ 31
     \<and> unat (rb_readIndex r) < unat (rb_capacity r) \<and> unat (rb_writeIndex r) < unat (rb_capacity r)"

definition ring_size :: "'a ring \<Rightarrow> nat" where
  "ring_size r =
     (unat (rb_writeIndex r) + unat (rb_capacity r) - unat (rb_readIndex r)) mod unat (rb_capacity r)"

definition ring_list :: "'a ring \<Rightarrow> 'a list" where
  "ring_list r =
     map (\<lambda>i. rb_buffer r ((unat (rb_readIndex r) + i) mod unat (rb_capacity r))) [0..<ring_size r]"

definition ring_room :: "'a ring \<Rightarrow> nat" where
  "ring_room r = unat (rb_capacity r) - 1"

lemma ring_inv_new: "0 < unat c \<Longrightarrow> unat c < 2 ^ 31 \<Longrightarrow> ring_inv (ring_new junk c)"
  by (simp add: ring_inv_def ring_new_def)

lemma ring_list_new [simp]: "ring_list (ring_new junk c) = []"
  by (simp add: ring_list_def ring_size_def ring_new_def)

lemma ring_list_clear [simp]: "ring_list (ring_clear r) = []"
  by (simp add: ring_list_def ring_size_def ring_clear_def)

lemma length_ring_list [simp]: "length (ring_list r) = ring_size r"
  by (simp add: ring_list_def)

lemma ring_size_less: "ring_inv r \<Longrightarrow> ring_size r < unat (rb_capacity r)"
  by (simp add: ring_size_def ring_inv_def)

lemma unat_ring_count:
  assumes "ring_inv r"
  shows "unat (ring_count r) = ring_size r"
proof -
  let ?c = "unat (rb_capacity r)" and ?r = "unat (rb_readIndex r)" and ?w = "unat (rb_writeIndex r)"
  have b: "?r < ?c" "?w < ?c" "?c < 2 ^ 31" using assms by (auto simp: ring_inv_def)
  have e: "rb_writeIndex r - rb_readIndex r + rb_capacity r
      = rb_writeIndex r + (rb_capacity r - rb_readIndex r)" by simp
  have "unat (rb_capacity r - rb_readIndex r) = ?c - ?r"
    using b by (intro unat_sub_small) simp
  then have "unat (rb_writeIndex r + (rb_capacity r - rb_readIndex r)) = ?w + (?c - ?r)"
    using b by (subst unat_add_small) simp_all
  then show ?thesis using b unfolding ring_count_def ring_size_def e unat_mod by simp
qed

lemma unat_ring_advance:
  assumes "ring_inv r" "unat index < unat (rb_capacity r)" "unat n \<le> 2 ^ 62"
  shows "unat ((index + n) mod rb_capacity r) = (unat index + unat n) mod unat (rb_capacity r)"
proof -
  have "unat (index + n) = unat index + unat n"
    using assms by (intro unat_add_small) (auto simp: ring_inv_def)
  then show ?thesis by (simp add: unat_mod)
qed

lemma ring_slot_eq:
  assumes "ring_inv r" "unat index < unat (rb_capacity r)" "i \<le> 2 ^ 62"
  shows "ring_slot r index i = (unat index + i) mod unat (rb_capacity r)"
proof -
  have "unat (of_nat i :: u64) = i" using assms(3) by (intro unat_of_nat_small) simp
  with unat_ring_advance [OF assms(1,2), of "of_nat i"] assms(3) show ?thesis
    by (simp add: ring_slot_def)
qed

lemma ring_empty_0: "ring_inv r \<Longrightarrow> ring_empty r 0 \<longleftrightarrow> ring_list r = []"
proof -
  assume "ring_inv r"
  then have "ring_empty r 0 \<longleftrightarrow> ring_size r = 0"
    by (simp add: ring_empty_def unat_eq_0 flip: unat_ring_count)
  then show ?thesis by (metis length_0_conv length_ring_list)
qed

text \<open>\<open>empty(del)\<close> holds exactly when \<open>del\<close> elements are stored, not when at most \<open>del\<close> are.\<close>

lemma ring_empty_iff:
  assumes "ring_inv r" "unat del < 2 ^ 31"
  shows "ring_empty r del \<longleftrightarrow> length (ring_list r) = unat del"
proof -
  have "ring_empty r del \<longleftrightarrow> ring_count r = del" by (simp add: ring_empty_def)
  also have "\<dots> \<longleftrightarrow> ring_size r = unat del"
    using unat_ring_count [OF assms(1)] by (metis word_unat_eq_iff)
  finally show ?thesis by simp
qed

lemma ring_full_iff:
  assumes "ring_inv r" "unat add \<le> 2 ^ 62"
  shows "ring_full r add \<longleftrightarrow> ring_room r < length (ring_list r) + unat add"
proof -
  have "unat (ring_count r) \<le> 2 ^ 31"
    using unat_ring_count [OF assms(1)] ring_size_less [OF assms(1)] assms(1)
    by (simp add: ring_inv_def)
  then have "unat (ring_count r + add) = ring_size r + unat add"
    using assms(2) unat_ring_count [OF assms(1)] by (subst unat_add_small) simp_all
  moreover have "0 < unat (rb_capacity r)" using assms(1) by (simp add: ring_inv_def)
  ultimately show ?thesis
    by (auto simp: ring_full_def word_le_nat_alt ring_room_def)
qed

section \<open>Writing appends, reading takes from the front\<close>

lemma mod_shift_inj:
  assumes "(a + i) mod c = (a + j) mod c" "i < c" "j < (c :: nat)"
  shows "i = j"
proof -
  have "(a mod c + i) mod c = (a mod c + j) mod c" using assms(1) by (simp add: mod_add_left_eq)
  moreover have "(a mod c + k) mod c = (if a mod c + k < c then a mod c + k else a mod c + k - c)"
    if "k < c" for k
  proof -
    have "a mod c < c" using that by simp
    with that have "a mod c + k - c < c" by linarith
    then show ?thesis by (simp add: not_less le_mod_geq)
  qed
  ultimately show ?thesis using assms(2,3) by (simp split: if_splits)
qed

lemma ring_write_pos:
  assumes "ring_inv r"
  shows "unat (rb_writeIndex r) = (unat (rb_readIndex r) + ring_size r) mod unat (rb_capacity r)"
proof -
  let ?c = "unat (rb_capacity r)" and ?r = "unat (rb_readIndex r)" and ?w = "unat (rb_writeIndex r)"
  have b: "?r < ?c" "?w < ?c" using assms by (auto simp: ring_inv_def)
  have "(?r + ring_size r) mod ?c = (?r + (?w + ?c - ?r)) mod ?c"
    by (simp add: ring_size_def mod_add_right_eq)
  also have "?r + (?w + ?c - ?r) = ?w + ?c" using b by simp
  also have "(?w + ?c) mod ?c = ?w" using b by simp
  finally show ?thesis by simp
qed

lemma ring_write_slot:
  assumes "ring_inv r" "k \<le> 2 ^ 62"
  shows "ring_slot r (rb_writeIndex r) k
    = (unat (rb_readIndex r) + (ring_size r + k)) mod unat (rb_capacity r)"
proof -
  have "ring_slot r (rb_writeIndex r) k = (unat (rb_writeIndex r) + k) mod unat (rb_capacity r)"
    using assms by (intro ring_slot_eq) (auto simp: ring_inv_def)
  then show ?thesis by (simp add: ring_write_pos [OF assms(1)] mod_add_left_eq add.assoc)
qed

lemma ring_store_Suc:
  "ring_store r data (Suc n) = (ring_store r data n)(ring_slot r (rb_writeIndex r) n := data ! n)"
  by (simp add: ring_store_def)

lemma ring_store_at:
  assumes "ring_inv r" "ring_size r + n < unat (rb_capacity r)" "i < ring_size r + n"
  shows "ring_store r data n ((unat (rb_readIndex r) + i) mod unat (rb_capacity r))
    = (if i < ring_size r then rb_buffer r ((unat (rb_readIndex r) + i) mod unat (rb_capacity r))
       else data ! (i - ring_size r))"
  using assms(2,3)
proof (induction n)
  case 0
  then show ?case by (simp add: ring_store_def)
next
  case (Suc n)
  let ?c = "unat (rb_capacity r)" and ?s = "unat (rb_readIndex r)"
  have "n < ?c" using Suc.prems by simp
  then have "n \<le> 2 ^ 62" using assms(1) by (simp add: ring_inv_def)
  then have slot: "ring_slot r (rb_writeIndex r) n = (?s + (ring_size r + n)) mod ?c"
    by (rule ring_write_slot [OF assms(1)])
  show ?case
  proof (cases "i = ring_size r + n")
    case True
    then show ?thesis by (simp add: ring_store_Suc slot)
  next
    case False
    then have "(?s + i) mod ?c \<noteq> (?s + (ring_size r + n)) mod ?c"
      using Suc.prems by (auto dest: mod_shift_inj)
    with False Suc show ?thesis by (simp add: ring_store_Suc slot)
  qed
qed

lemma ring_size_moved:
  assumes "ring_inv r" "ring_size r + n < unat (rb_capacity r)"
    and "unat w = (unat (rb_writeIndex r) + n) mod unat (rb_capacity r)"
  shows "ring_size (r\<lparr>rb_buffer := b, rb_writeIndex := w\<rparr>) = ring_size r + n"
proof -
  let ?c = "unat (rb_capacity r)" and ?r = "unat (rb_readIndex r)"
  have r: "?r < ?c" using assms(1) by (simp add: ring_inv_def)
  have "unat w = (?r + (ring_size r + n)) mod ?c"
    by (simp add: assms(3) ring_write_pos [OF assms(1)] mod_add_left_eq add.assoc)
  then have "(unat w + ?c - ?r) mod ?c = ((?r + (ring_size r + n)) mod ?c + (?c - ?r)) mod ?c"
    using r by simp
  also have "\<dots> = (?r + (ring_size r + n) + (?c - ?r)) mod ?c" by (rule mod_add_left_eq)
  also have "?r + (ring_size r + n) + (?c - ?r) = ring_size r + n + ?c" using r by simp
  also have "(ring_size r + n + ?c) mod ?c = ring_size r + n" using assms(2) by simp
  finally show ?thesis by (simp add: ring_size_def)
qed

lemma tryWrite_fits:
  assumes inv: "ring_inv r" and fits: "length (ring_list r) + unat n \<le> ring_room r"
    and n: "unat n \<le> length data"
  shows "\<exists>r'. tryWrite r data n = (True, r') \<and> ring_inv r'
    \<and> ring_list r' = ring_list r @ take (unat n) data \<and> ring_room r' = ring_room r"
proof -
  let ?c = "unat (rb_capacity r)" and ?s = "unat (rb_readIndex r)"
  let ?w = "(rb_writeIndex r + n) mod rb_capacity r"
  let ?r = "r\<lparr>rb_buffer := ring_store r data (unat n), rb_writeIndex := ?w\<rparr>"
  have c: "0 < ?c" "?c < 2 ^ 31" using inv by (auto simp: ring_inv_def)
  have small: "ring_size r + unat n < ?c" using fits c by (simp add: ring_room_def)
  then have n62: "unat n \<le> 2 ^ 62" using c by simp
  have "\<not> ring_full r 0" "\<not> ring_full r n"
    using ring_full_iff [OF inv, of 0] ring_full_iff [OF inv n62] fits by simp_all
  then have run: "tryWrite r data n = (True, ?r)"
    by (simp add: tryWrite_def ring_full_def add.commute)
  have w: "unat ?w = (unat (rb_writeIndex r) + unat n) mod ?c"
    using inv n62 by (intro unat_ring_advance) (auto simp: ring_inv_def)
  have inv': "ring_inv ?r" using inv w by (simp add: ring_inv_def)
  have size: "ring_size ?r = ring_size r + unat n"
    using inv small w by (rule ring_size_moved)
  have "ring_list ?r = ring_list r @ take (unat n) data"
  proof (rule nth_equalityI)
    show "length (ring_list ?r) = length (ring_list r @ take (unat n) data)"
      using n by (simp add: size)
    fix i assume "i < length (ring_list ?r)"
    then have i: "i < ring_size r + unat n" by (simp add: size)
    have "ring_list ?r ! i = ring_store r data (unat n) ((?s + i) mod ?c)"
      using i by (simp add: ring_list_def size)
    then show "ring_list ?r ! i = (ring_list r @ take (unat n) data) ! i"
      using i ring_store_at [OF inv small i, of data]
      by (simp add: nth_append) (simp add: ring_list_def)
  qed
  with run inv' show ?thesis by (simp add: ring_room_def)
qed

lemma tryWrite_full:
  assumes "ring_inv r" "ring_room r < length (ring_list r) + unat n" "unat n \<le> 2 ^ 62"
  shows "tryWrite r data n = (False, r)"
  using ring_full_iff [OF assms(1,3)] assms(2) by (simp add: tryWrite_def ring_full_def add.commute)

lemma tryRead_stored:
  assumes inv: "ring_inv r" and n: "unat n \<le> length (ring_list r)" and ne: "ring_list r \<noteq> []"
  shows "\<exists>r'. tryRead r n False = (True, take (unat n) (ring_list r), r') \<and> ring_inv r'
    \<and> ring_list r' = drop (unat n) (ring_list r) \<and> ring_room r' = ring_room r"
proof -
  let ?c = "unat (rb_capacity r)" and ?s = "unat (rb_readIndex r)"
  let ?i = "(rb_readIndex r + n) mod rb_capacity r"
  let ?r = "r\<lparr>rb_readIndex := ?i\<rparr>"
  have b: "?s < ?c" "?c < 2 ^ 31" "unat (rb_writeIndex r) < ?c" using inv by (auto simp: ring_inv_def)
  have size: "unat n \<le> ring_size r" "ring_size r < ?c" using n ring_size_less [OF inv] by simp_all
  then have n62: "unat n \<le> 2 ^ 62" using b by simp
  have i: "unat ?i = (?s + unat n) mod ?c" using inv b(1) n62 by (rule unat_ring_advance)
  have inv': "ring_inv ?r" using inv b i by (simp add: ring_inv_def)
  have "(unat (rb_writeIndex r) + ?c - unat ?i) mod ?c = ring_size r - unat n"
  proof -
    let ?x = "unat (rb_writeIndex r) + ?c - unat ?i"
    have "unat ?i < ?c" using i b by simp
    then have "(?x + unat ?i) mod ?c = unat (rb_writeIndex r)" using b by simp
    also have "\<dots> = (?s + ring_size r) mod ?c" by (rule ring_write_pos [OF inv])
    also have "\<dots> = ((?s + unat n) + (ring_size r - unat n)) mod ?c" using size by simp
    also have "\<dots> = (unat ?i + (ring_size r - unat n)) mod ?c" by (simp only: i mod_add_left_eq)
    finally have "(unat ?i + ?x mod ?c) mod ?c = (unat ?i + (ring_size r - unat n)) mod ?c"
      by (simp add: mod_add_right_eq add.commute)
    then show ?thesis by (rule mod_shift_inj) (use size b in simp_all)
  qed
  then have size': "ring_size ?r = ring_size r - unat n" by (simp add: ring_size_def)
  have "ring_list ?r = drop (unat n) (ring_list r)"
  proof (rule nth_equalityI)
    show "length (ring_list ?r) = length (drop (unat n) (ring_list r))" by (simp add: size')
    fix k assume "k < length (ring_list ?r)"
    then have k: "k < ring_size r - unat n" by (simp add: size')
    then have k': "unat n + k < ring_size r" by simp
    have "(unat ?i + k) mod ?c = (?s + (unat n + k)) mod ?c"
      by (simp add: i mod_add_left_eq add.assoc)
    then show "ring_list ?r ! k = drop (unat n) (ring_list r) ! k"
      using k k' by (simp add: ring_list_def size')
  qed
  moreover have "map (\<lambda>k. rb_buffer r (ring_slot r (rb_readIndex r) k)) [0..<unat n]
      = take (unat n) (ring_list r)"
  proof (rule nth_equalityI)
    fix k assume "k < length (map (\<lambda>k. rb_buffer r (ring_slot r (rb_readIndex r) k)) [0..<unat n])"
    then have k: "k < unat n" by simp
    with n62 have "ring_slot r (rb_readIndex r) k = (?s + k) mod ?c"
      by (intro ring_slot_eq [OF inv b(1)]) simp
    with k size show "map (\<lambda>k. rb_buffer r (ring_slot r (rb_readIndex r) k)) [0..<unat n] ! k
        = take (unat n) (ring_list r) ! k" by (simp add: ring_list_def)
  qed (use size in simp)
  moreover have "\<not> ring_empty r 0" using ring_empty_0 [OF inv] ne by simp
  ultimately show ?thesis using inv' by (simp add: tryRead_def ring_room_def)
qed

lemma tryRead_empty: "ring_inv r \<Longrightarrow> ring_list r = [] \<Longrightarrow> tryRead r n w = (False, [], r)"
  by (simp add: tryRead_def ring_empty_0)

section \<open>The interface: a bounded queue\<close>

text \<open>
  What the clients of the ring rely on: a queue with a list of elements and a fixed
  room; a write of \<open>n\<close> elements that fit appends them, one that does not changes nothing, and a
  read of at most what is stored takes it from the front. Lengths are \<open>u64\<close> words.
\<close>

locale bounded_queue =
  fixes inv :: "'q \<Rightarrow> bool"
    and elems :: "'q \<Rightarrow> 'a list"
    and room :: "'q \<Rightarrow> nat"
    and full :: "'q \<Rightarrow> u64 \<Rightarrow> bool"
    and put :: "'q \<Rightarrow> 'a list \<Rightarrow> u64 \<Rightarrow> bool \<times> 'q"
    and get :: "'q \<Rightarrow> u64 \<Rightarrow> bool \<times> 'a list \<times> 'q"
  assumes room_bound: "inv q \<Longrightarrow> room q < 2 ^ 31"
    and within: "inv q \<Longrightarrow> length (elems q) \<le> room q"
    and full_iff: "inv q \<Longrightarrow> unat n \<le> 2 ^ 62 \<Longrightarrow> full q n \<longleftrightarrow> room q < length (elems q) + unat n"
    and write_fits: "inv q \<Longrightarrow> length (elems q) + unat n \<le> room q \<Longrightarrow> unat n \<le> length xs \<Longrightarrow>
      \<exists>q'. put q xs n = (True, q') \<and> inv q' \<and> elems q' = elems q @ take (unat n) xs
        \<and> room q' = room q"
    and write_full: "inv q \<Longrightarrow> room q < length (elems q) + unat n \<Longrightarrow> unat n \<le> 2 ^ 62 \<Longrightarrow>
      put q xs n = (False, q)"
    and read_stored: "inv q \<Longrightarrow> unat n \<le> length (elems q) \<Longrightarrow> elems q \<noteq> [] \<Longrightarrow>
      \<exists>q'. get q n = (True, take (unat n) (elems q), q') \<and> inv q'
        \<and> elems q' = drop (unat n) (elems q) \<and> room q' = room q"
    and read_empty: "inv q \<Longrightarrow> elems q = [] \<Longrightarrow> get q n = (False, [], q)"
begin

text \<open>Writing all of a list whose length fits a word.\<close>

lemma write_list:
  assumes "inv q" "length (elems q) + length xs \<le> room q"
  shows "\<exists>q'. put q xs (of_nat (length xs)) = (True, q') \<and> inv q' \<and> elems q' = elems q @ xs
    \<and> room q' = room q"
proof -
  have "unat (of_nat (length xs) :: u64) = length xs"
    using assms room_bound [OF assms(1)] by (intro unat_of_nat_small) simp
  with write_fits [OF assms(1), of "of_nat (length xs)" xs] assms(2) show ?thesis by simp
qed

text \<open>Reading back a prefix that was stored as one list.\<close>

lemma read_list:
  assumes "inv q" "elems q = xs @ ys" "elems q \<noteq> []"
  shows "\<exists>q'. get q (of_nat (length xs)) = (True, xs, q') \<and> inv q' \<and> elems q' = ys
    \<and> room q' = room q"
proof -
  have "length xs < 2 ^ 31" using assms within [OF assms(1)] room_bound [OF assms(1)] by simp
  then have u: "unat (of_nat (length xs) :: u64) = length xs" by (intro unat_of_nat_small) simp
  with read_stored [OF assms(1), of "of_nat (length xs)"] assms(2,3) show ?thesis by simp
qed

text \<open>A frame: its parts written one after the other, all or none of them when room is asked first.\<close>

fun write_all :: "'q \<Rightarrow> 'a list list \<Rightarrow> 'q" where
  "write_all q [] = q"
| "write_all q (xs # xss) = write_all (snd (put q xs (of_nat (length xs)))) xss"

lemma write_all_fits:
  assumes "inv q" "length (elems q) + length (concat xss) \<le> room q"
  shows "inv (write_all q xss) \<and> elems (write_all q xss) = elems q @ concat xss
    \<and> room (write_all q xss) = room q"
  using assms
proof (induction xss arbitrary: q)
  case Nil
  then show ?case by simp
next
  case (Cons xs xss)
  from Cons.prems obtain q' where "put q xs (of_nat (length xs)) = (True, q')" "inv q'"
      "elems q' = elems q @ xs" "room q' = room q"
    using write_list [of q xs] by auto
  with Cons.IH [of q'] Cons.prems(2) show ?case by simp
qed

end

interpretation rbq: bounded_queue ring_inv ring_list ring_room ring_full tryWrite
    "\<lambda>r n. tryRead r n False"
proof (unfold_locales, goal_cases)
  case (1 r)
  then show ?case by (auto simp: ring_inv_def ring_room_def)
next
  case (2 r)
  then show ?case using ring_size_less [of r] by (simp add: ring_room_def)
next
  case (3 r n)
  then show ?case by (rule ring_full_iff)
next
  case (4 r n xs)
  then show ?case by (rule tryWrite_fits)
next
  case (5 r n xs)
  then show ?case by (rule tryWrite_full)
next
  case (6 r n)
  then show ?case by (rule tryRead_stored)
next
  case (7 r n)
  then show ?case by (rule tryRead_empty)
qed

section \<open>Properties\<close>



text \<open>The test \<open>empty(del)\<close>, which readers use to ask whether \<open>del\<close> elements are missing, is true
  exactly when \<open>del\<close> elements are stored.\<close>

theorem ring_empty_means_exactly:
  assumes "ring_inv r" "unat del < 2 ^ 31"
  shows "ring_empty r del \<longleftrightarrow> length (ring_list r) = unat del"
  using assms by (rule ring_empty_iff)

lemma ring_empty_means_exactly_witness:
  "\<not> ring_empty (ring_new (\<lambda>_. 0 :: byte) 8) 3"
  using ring_empty_means_exactly [of "ring_new (\<lambda>_. 0 :: byte) 8" 3] by (simp add: ring_inv_new)

end
