(* ===== verification/Spin_Lock.thy ===== *)
theory Spin_Lock
  imports Prelude
begin

text \<open>
  \<open>parallel_core/Spinlock.hpp\<close>: any number of threads and one lock, as a step relation whose
  steps are the atomic operations of the source: the compare-and-exchange of \<open>lock\<close> and the
  separate store of the owner after it; the load of the flag, the load of the owner and
  the final store of \<open>unlock\<close>. Threads use the lock as \<open>SpinlockHolder\<close> does: \<open>unlock\<close> is
  called by the destructor of an object whose constructor returned from \<open>lock\<close>.
\<close>

datatype pc =
    Outside
  | Spinning          \<comment> \<open>in \<open>lock\<close>, before a successful exchange\<close>
  | Exchanged         \<comment> \<open>the exchange succeeded, the owner is not stored yet\<close>
  | Holding           \<comment> \<open>\<open>lock\<close> has returned\<close>
  | Unlocking         \<comment> \<open>in \<open>unlock\<close>, before the load of the flag\<close>
  | Flag_seen         \<comment> \<open>the flag was true\<close>
  | Owner_seen        \<comment> \<open>the owner was this thread\<close>
  | Unlocked bool     \<comment> \<open>\<open>unlock\<close> returned this value\<close>

record spin_state =
  lock_variable :: bool
  lock_owner :: nat
  thread_pc :: "nat \<Rightarrow> pc"

definition spin_init :: "nat \<Rightarrow> spin_state" where
  "spin_init junk = \<lparr>lock_variable = False, lock_owner = junk, thread_pc = (\<lambda>_. Outside)\<rparr>"

definition goto :: "spin_state \<Rightarrow> nat \<Rightarrow> pc \<Rightarrow> spin_state" where
  "goto s i p = s\<lparr>thread_pc := (thread_pc s)(i := p)\<rparr>"

inductive spin_step :: "spin_state \<Rightarrow> spin_state \<Rightarrow> bool" where
  lock_call: "thread_pc s i = Outside \<Longrightarrow> spin_step s (goto s i Spinning)"
| exchange_fails: "thread_pc s i = Spinning \<Longrightarrow> lock_variable s \<Longrightarrow> spin_step s s"
| exchange_wins: "thread_pc s i = Spinning \<Longrightarrow> \<not> lock_variable s \<Longrightarrow>
    spin_step s (goto (s\<lparr>lock_variable := True\<rparr>) i Exchanged)"
| store_owner: "thread_pc s i = Exchanged \<Longrightarrow>
    spin_step s (goto (s\<lparr>lock_owner := i\<rparr>) i Holding)"
| unlock_call: "thread_pc s i = Holding \<Longrightarrow> spin_step s (goto s i Unlocking)"
| load_flag: "thread_pc s i = Unlocking \<Longrightarrow>
    spin_step s (goto s i (if lock_variable s then Flag_seen else Unlocked False))"
| load_owner: "thread_pc s i = Flag_seen \<Longrightarrow>
    spin_step s (goto s i (if lock_owner s = i then Owner_seen else Unlocked False))"
| store_free: "thread_pc s i = Owner_seen \<Longrightarrow>
    spin_step s (goto (s\<lparr>lock_variable := False\<rparr>) i (Unlocked True))"
| unlock_return: "thread_pc s i = Unlocked b \<Longrightarrow> spin_step s (goto s i Outside)"

inductive spin_reachable :: "spin_state \<Rightarrow> bool" where
  start: "spin_reachable (spin_init junk)"
| step: "spin_reachable s \<Longrightarrow> spin_step s t \<Longrightarrow> spin_reachable t"

inductive_cases spin_step_elim: "spin_step s t"

section \<open>The invariant\<close>

definition inside :: "pc \<Rightarrow> bool" where
  "inside p \<longleftrightarrow> p \<in> {Exchanged, Holding, Unlocking, Flag_seen, Owner_seen}"

definition spin_inv :: "spin_state \<Rightarrow> bool" where
  "spin_inv s \<longleftrightarrow>
     (\<forall>i j. inside (thread_pc s i) \<longrightarrow> inside (thread_pc s j) \<longrightarrow> i = j)
   \<and> (\<forall>i. inside (thread_pc s i) \<longrightarrow> lock_variable s)
   \<and> (lock_variable s \<longrightarrow> (\<exists>i. inside (thread_pc s i)))
   \<and> (\<forall>i. inside (thread_pc s i) \<longrightarrow> thread_pc s i \<noteq> Exchanged \<longrightarrow> lock_owner s = i)
   \<and> (\<forall>i. thread_pc s i \<noteq> Unlocked False)"

lemma inside_simps [simp]:
  "\<not> inside Outside" "\<not> inside Spinning" "inside Exchanged" "inside Holding" "inside Unlocking"
  "inside Flag_seen" "inside Owner_seen" "\<not> inside (Unlocked b)"
  by (simp_all add: inside_def)

lemma goto_simps [simp]:
  "lock_variable (goto s i p) = lock_variable s" "lock_owner (goto s i p) = lock_owner s"
  "thread_pc (goto s i p) = (thread_pc s)(i := p)"
  by (simp_all add: goto_def)

lemma spin_inv_init: "spin_inv (spin_init junk)"
  by (simp add: spin_inv_def spin_init_def)

lemma spin_invI:
  assumes "\<And>i j. inside (thread_pc s i) \<Longrightarrow> inside (thread_pc s j) \<Longrightarrow> i = j"
    and "\<And>i. inside (thread_pc s i) \<Longrightarrow> lock_variable s"
    and "lock_variable s \<Longrightarrow> \<exists>i. inside (thread_pc s i)"
    and "\<And>i. inside (thread_pc s i) \<Longrightarrow> thread_pc s i \<noteq> Exchanged \<Longrightarrow> lock_owner s = i"
    and "\<And>i. thread_pc s i \<noteq> Unlocked False"
  shows "spin_inv s"
  using assms unfolding spin_inv_def by blast

lemma spin_invD:
  assumes "spin_inv s"
  shows "inside (thread_pc s i) \<Longrightarrow> inside (thread_pc s j) \<Longrightarrow> i = j"
    and "inside (thread_pc s i) \<Longrightarrow> lock_variable s"
    and "lock_variable s \<Longrightarrow> \<exists>i. inside (thread_pc s i)"
    and "inside (thread_pc s i) \<Longrightarrow> thread_pc s i \<noteq> Exchanged \<Longrightarrow> lock_owner s = i"
    and "thread_pc s i \<noteq> Unlocked False"
  using assms unfolding spin_inv_def by blast+

text \<open>
  Steps of a thread that stays on its side of the critical section keep the invariant,
  whatever they do to its position there.
\<close>

lemma spin_inv_goto_outside:
  assumes "spin_inv s" "\<not> inside (thread_pc s i)" "\<not> inside p" "p \<noteq> Unlocked False"
  shows "spin_inv (goto s i p)"
proof (rule spin_invI, goal_cases)
  case 3
  then obtain k where "inside (thread_pc s k)" using spin_invD(3) [OF assms(1)] by auto
  then show ?case using assms(2) by (intro exI [of _ k]) auto
qed (use spin_invD [OF assms(1)] assms(3,4) in \<open>auto split: if_splits\<close>)

lemma spin_inv_goto_inside:
  assumes "spin_inv s" "inside (thread_pc s i)" "inside p" "lock_owner s = i"
  shows "spin_inv (goto s i p)"
proof (rule spin_invI, goal_cases)
  case 3
  then show ?case using assms(3) by (intro exI [of _ i]) simp
qed (use spin_invD [OF assms(1)] assms(2-4) in \<open>auto split: if_splits\<close>)

lemma spin_step_inv: "spin_step s t \<Longrightarrow> spin_inv s \<Longrightarrow> spin_inv t"
proof (induction rule: spin_step.induct)
  case (exchange_wins s i)
  then have none: "\<not> inside (thread_pc s k)" for k using spin_invD(2) by blast
  show ?case
    by (rule spin_invI) (use none spin_invD(5) [OF exchange_wins(3)] in \<open>auto split: if_splits\<close>)
next
  case (store_owner s i)
  then have i: "inside (thread_pc s i)" by simp
  note D = spin_invD [OF store_owner(2)]
  have only: "inside (thread_pc s k) \<Longrightarrow> k = i" for k using D(1) i by blast
  show ?case
    by (rule spin_invI) (use only D(2) [OF i] D(5) in \<open>auto split: if_splits\<close>)
next
  case (store_free s i)
  then have i: "inside (thread_pc s i)" by simp
  note D = spin_invD [OF store_free(2)]
  have only: "inside (thread_pc s k) \<Longrightarrow> k = i" for k using D(1) i by blast
  show ?case
    by (rule spin_invI) (use only D(5) in \<open>auto split: if_splits\<close>)
next
  case (load_flag s i)
  then have "lock_variable s" "lock_owner s = i"
    using spin_invD(2,4) [OF load_flag(2), of i] by simp_all
  with load_flag show ?case by (simp add: spin_inv_goto_inside)
next
  case (load_owner s i)
  then have "lock_owner s = i" using spin_invD(4) [OF load_owner(2), of i] by simp
  with load_owner show ?case by (simp add: spin_inv_goto_inside)
next
  case (unlock_call s i)
  then have "lock_owner s = i" using spin_invD(4) [OF unlock_call(2), of i] by simp
  with unlock_call show ?case by (simp add: spin_inv_goto_inside)
qed (simp_all add: spin_inv_goto_outside)

lemma spin_reachable_inv: "spin_reachable s \<Longrightarrow> spin_inv s"
  by (induction rule: spin_reachable.induct) (auto intro: spin_inv_init spin_step_inv)

section \<open>Properties\<close>

text \<open>C26: mutual exclusion: of any number of threads at most one has left \<open>lock\<close> and not yet
  given the flag back, and its \<open>unlock\<close> is never refused.\<close>

theorem spin_lock_excludes:
  assumes "spin_reachable s"
  shows "(thread_pc s i = Holding \<and> thread_pc s j = Holding \<longrightarrow> i = j)
    \<and> (thread_pc s i = Holding \<longrightarrow> lock_variable s \<and> lock_owner s = i)
    \<and> thread_pc s i \<noteq> Unlocked False"
  using spin_invD [OF spin_reachable_inv [OF assms]] by (metis inside_simps(4) pc.distinct(27))

lemma spin_lock_excludes_witness:
  "thread_pc (goto (goto (spin_init 0) 4 Spinning \<lparr>lock_variable := True\<rparr>) 4 Exchanged) 4 \<noteq> Unlocked False"
proof (rule spin_lock_excludes [THEN conjunct2, THEN conjunct2])
  have "spin_reachable (goto (spin_init 0) 4 Spinning)"
    by (rule spin_reachable.step [OF spin_reachable.start lock_call]) (simp add: spin_init_def)
  then show "spin_reachable (goto (goto (spin_init 0) 4 Spinning \<lparr>lock_variable := True\<rparr>) 4 Exchanged)"
    by (rule spin_reachable.step) (rule exchange_wins, simp_all add: spin_init_def)
qed

end
