(* ===== verification/Safe_Random.thy ===== *)
theory Safe_Random
  imports Prelude
begin

text \<open>
  \<open>parallel_core/SafeRandom.hpp\<close>: the process-wide generator behind \<open>SAFE_RAND\<close>, a 64-bit
  xorshift seeded with the time. \<open>next\<close> runs under the spin lock, so calls are steps of
  one state; the state it leaves is the number it returns.
\<close>

type_synonym rand_state = u64

definition xorshift64 :: "rand_state \<Rightarrow> u64" where
  "xorshift64 a =
     (let x = a;
          x = x XOR push_bit 13 x;
          x = x XOR drop_bit 7 x;
          x = x XOR push_bit 17 x
      in x)"

definition rand_seed :: "u64 \<Rightarrow> rand_state" where
  "rand_seed origin = origin"

definition rand_next :: "rand_state \<Rightarrow> u64 \<times> rand_state" where
  "rand_next st = (let x = xorshift64 st in (x, x))"

section \<open>Each shift step loses nothing\<close>

lemma xor_push_inj:
  assumes "x XOR push_bit k x = y XOR push_bit k y" "0 < k"
  shows "x = (y :: 'a::len word)"
proof -
  have "bit x n = bit y n" if "n < LENGTH('a)" for n
    using that
  proof (induction n rule: less_induct)
    case (less n)
    from assms(1) have "bit (x XOR push_bit k x) n = bit (y XOR push_bit k y) n" by simp
    moreover have "k \<le> n \<Longrightarrow> bit x (n - k) = bit y (n - k)" using less assms(2) by simp
    ultimately show ?case using less.prems by (auto simp: bit_simps)
  qed
  then show ?thesis by (rule bit_word_eqI)
qed

lemma xor_drop_inj:
  assumes "x XOR drop_bit k x = y XOR drop_bit k y" "0 < k"
  shows "x = (y :: 'a::len word)"
proof -
  have "bit x (LENGTH('a) - n) = bit y (LENGTH('a) - n)" if "0 < n" "n \<le> LENGTH('a)" for n
    using that
  proof (induction n rule: less_induct)
    case (less n)
    let ?m = "LENGTH('a) - n"
    from assms(1) have "bit (x XOR drop_bit k x) ?m = bit (y XOR drop_bit k y) ?m" by simp
    moreover have "bit x (?m + k) = bit y (?m + k)"
    proof (cases "k < n")
      case True
      with less.IH [of "n - k"] less.prems assms(2) show ?thesis by simp
    next
      case False
      then have "LENGTH('a) \<le> ?m + k" using less.prems by simp
      then show ?thesis using bit_imp_le_length [of x] bit_imp_le_length [of y] by fastforce
    qed
    ultimately show ?case by (auto simp: bit_simps add.commute)
  qed
  from this [of "LENGTH('a) - _"] have "bit x n = bit y n" if "n < LENGTH('a)" for n
    using that by (metis diff_diff_cancel diff_le_self less_imp_le_nat zero_less_diff)
  then show ?thesis by (rule bit_word_eqI)
qed

lemma xorshift64_inj: "xorshift64 a = xorshift64 b \<Longrightarrow> a = b"
  unfolding xorshift64_def Let_def
  by (drule xor_push_inj, simp, drule xor_drop_inj, simp, drule xor_push_inj, simp, simp)

lemma xorshift64_0 [simp]: "xorshift64 0 = 0"
  by (simp add: xorshift64_def)

lemma xorshift64_nonzero: "a \<noteq> 0 \<Longrightarrow> xorshift64 a \<noteq> 0"
  using xorshift64_inj [of a 0] by auto

text \<open>The generator run \<open>n\<close> times.\<close>

fun rand_run :: "nat \<Rightarrow> rand_state \<Rightarrow> u64 list \<times> rand_state" where
  "rand_run 0 st = ([], st)"
| "rand_run (Suc n) st =
     (let (x, st) = rand_next st; (xs, st) = rand_run n st in (x # xs, st))"

lemma rand_run_nonzero:
  "st \<noteq> 0 \<Longrightarrow> 0 \<notin> set (fst (rand_run n st)) \<and> snd (rand_run n st) \<noteq> 0"
proof (induction n arbitrary: st)
  case 0
  then show ?case by simp
next
  case (Suc n)
  have "xorshift64 st \<noteq> 0" using Suc.prems by (rule xorshift64_nonzero)
  with Suc.IH [of "xorshift64 st"] show ?case
    by (auto simp: rand_next_def Let_def split: prod.splits)
qed

section \<open>Properties\<close>

text \<open>The generator never returns zero and never gets stuck unless it was seeded with zero, however
  often it is called.\<close>

theorem random_never_zero:
  assumes "seed \<noteq> 0"
  shows "0 \<notin> set (fst (rand_run n (rand_seed seed))) \<and> snd (rand_run n (rand_seed seed)) \<noteq> 0"
  using rand_run_nonzero [of "rand_seed seed" n] assms by (simp add: rand_seed_def)

lemma random_never_zero_witness: "snd (rand_run 100 (rand_seed 1)) \<noteq> 0"
  using random_never_zero [of 1 100] by simp

text \<open>One step of the generator loses no state: it is a bijection of the 64-bit words.\<close>

theorem random_step_bijective: "bij xorshift64"
proof (rule bijI)
  show inj: "inj xorshift64" by (rule injI) (rule xorshift64_inj)
  show "surj xorshift64" using finite_UNIV_inj_surj [OF _ inj] by simp
qed

end
