(* ===== verification/Safe_Hash_Map.thy ===== *)
theory Safe_Hash_Map
  imports Prelude "HOL-Library.AList"
begin

text \<open>
  \<open>parallel_core/SafeHashMap.hpp\<close>: the locked hash map of the session tables. The container
  is a list of pairs with distinct keys, in the container's iteration order. An operation
  that checks before it locks is modelled by its two atomic parts and by their
  composition without interference.

  Two operations are modelled as they are written, not as they are named: \<open>erase\<close> looks for
  the key, and removes it when it is \<^emph>\<open>not\<close> there; and \<open>complex_operation\<close> does not name its
  parameter, so that its statement \<open>container_handler(_container)\<close> declares a local variable
  of the type \<open>container_handler\<close> and calls nothing.
\<close>

type_synonym ('k, 'v) hash_map = "('k \<times> 'v) list"

definition hm_contains_key :: "('k, 'v) hash_map \<Rightarrow> 'k \<Rightarrow> bool" where
  "hm_contains_key m k \<longleftrightarrow> map_of m k \<noteq> None"

definition hm_size :: "('k, 'v) hash_map \<Rightarrow> nat" where
  "hm_size m = length m"

definition hm_is_empty :: "('k, 'v) hash_map \<Rightarrow> bool" where
  "hm_is_empty m \<longleftrightarrow> m = []"

text \<open>\<open>unordered_map::insert\<close> (and \<open>emplace\<close>): nothing happens to a key that is there.\<close>

definition um_insert :: "('k, 'v) hash_map \<Rightarrow> 'k \<Rightarrow> 'v \<Rightarrow> bool \<times> ('k, 'v) hash_map" where
  "um_insert m k v = (if map_of m k \<noteq> None then (False, m) else (True, (k, v) # m))"

text \<open>\<open>unordered_map::erase\<close>: the number of elements removed.\<close>

definition um_erase :: "('k, 'v) hash_map \<Rightarrow> 'k \<Rightarrow> nat \<times> ('k, 'v) hash_map" where
  "um_erase m k = (if map_of m k \<noteq> None then 1 else 0, AList.delete k m)"

definition hm_clear :: "('k, 'v) hash_map \<Rightarrow> ('k, 'v) hash_map" where
  "hm_clear m = []"

text \<open>\<open>insert\<close>: the check outside the lock sees \<open>seen\<close>, the insertion under it works on \<open>m\<close>.\<close>

definition hm_insert_locked ::
  "('k, 'v) hash_map \<Rightarrow> ('k, 'v) hash_map \<Rightarrow> 'k \<Rightarrow> 'v \<Rightarrow> bool \<times> ('k, 'v) hash_map" where
  "hm_insert_locked seen m k v = (if \<not> hm_contains_key seen k then um_insert m k v else (False, m))"

definition hm_insert :: "('k, 'v) hash_map \<Rightarrow> 'k \<Rightarrow> 'v \<Rightarrow> bool \<times> ('k, 'v) hash_map" where
  "hm_insert m k v = hm_insert_locked m m k v"

fun hm_insert_list :: "('k, 'v) hash_map \<Rightarrow> ('k \<times> 'v) list \<Rightarrow> ('k, 'v) hash_map" where
  "hm_insert_list m [] = m"
| "hm_insert_list m ((k, v) # l) = hm_insert_list (snd (um_insert m k v)) l"

definition hm_emplace :: "('k, 'v) hash_map \<Rightarrow> 'k \<Rightarrow> 'v \<Rightarrow> bool \<times> ('k, 'v) hash_map" where
  "hm_emplace m k v = um_insert m k v"

definition hm_erase_locked ::
  "('k, 'v) hash_map \<Rightarrow> ('k, 'v) hash_map \<Rightarrow> 'k \<Rightarrow> bool \<times> ('k, 'v) hash_map" where
  "hm_erase_locked seen m k =
     (if \<not> hm_contains_key seen k
      then (let (ret, m) = um_erase m k in (ret > 0, m))
      else (False, m))"

definition hm_erase :: "('k, 'v) hash_map \<Rightarrow> 'k \<Rightarrow> bool \<times> ('k, 'v) hash_map" where
  "hm_erase m k = hm_erase_locked m m k"

text \<open>\<open>try_get\<close>: the value is stored through the reference only when the key is found.\<close>

definition hm_try_get_locked ::
  "('k, 'v) hash_map \<Rightarrow> ('k, 'v) hash_map \<Rightarrow> 'k \<Rightarrow> 'v option" where
  "hm_try_get_locked seen m k = (if hm_contains_key seen k then map_of m k else None)"

definition hm_try_get :: "('k, 'v) hash_map \<Rightarrow> 'k \<Rightarrow> 'v option" where
  "hm_try_get m k = hm_try_get_locked m m k"

text \<open>
  \<open>complex_operation\<close>: the argument is the handler the caller passes, a function on a copy of
  the container with effects on the rest of the program's state \<open>'s\<close>.
\<close>

definition hm_complex_operation ::
  "('k, 'v) hash_map \<Rightarrow> (('k, 'v) hash_map \<Rightarrow> 's \<Rightarrow> 's) \<Rightarrow> 's \<Rightarrow> ('k, 'v) hash_map \<times> 's" where
  "hm_complex_operation m handler s = (m, s)"

section \<open>Laws\<close>

definition hm_inv :: "('k, 'v) hash_map \<Rightarrow> bool" where
  "hm_inv m \<longleftrightarrow> distinct (map fst m)"

lemma hm_inv_Nil [simp]: "hm_inv []"
  by (simp add: hm_inv_def)

lemma hm_inv_insert: "hm_inv m \<Longrightarrow> hm_inv (snd (hm_insert m k v))"
  by (auto simp: hm_inv_def hm_insert_def hm_insert_locked_def um_insert_def map_of_eq_None_iff)

lemma hm_insert_new:
  "hm_try_get m k = None \<Longrightarrow> hm_insert m k v = (True, (k, v) # m)"
  by (simp add: hm_insert_def hm_insert_locked_def hm_try_get_def hm_try_get_locked_def
      hm_contains_key_def um_insert_def split: if_splits)

lemma hm_insert_dup:
  "hm_try_get m k \<noteq> None \<Longrightarrow> hm_insert m k v = (False, m)"
  by (simp add: hm_insert_def hm_insert_locked_def hm_try_get_def hm_try_get_locked_def
      hm_contains_key_def split: if_splits)

lemma hm_try_get_map_of [simp]: "hm_try_get m k = map_of m k"
  by (simp add: hm_try_get_def hm_try_get_locked_def hm_contains_key_def)

lemma hm_contains_iff: "hm_contains_key m k \<longleftrightarrow> hm_try_get m k \<noteq> None"
  by (simp add: hm_contains_key_def)

text \<open>\<open>erase\<close> never removes anything and never reports success.\<close>

lemma hm_erase_noop: "hm_erase m k = (False, m)"
  by (auto simp: hm_erase_def hm_erase_locked_def hm_contains_key_def um_erase_def
      map_of_eq_None_iff delete_id)

text \<open>
  The double check: whatever the check saw, a key is inserted under the lock at most once.
\<close>

lemma hm_insert_locked_inv: "hm_inv m \<Longrightarrow> hm_inv (snd (hm_insert_locked seen m k v))"
  by (auto simp: hm_inv_def hm_insert_locked_def um_insert_def map_of_eq_None_iff)

lemma hm_insert_locked_keeps:
  "map_of m k = Some v \<Longrightarrow> hm_insert_locked seen m k w = (False, m)"
  by (simp add: hm_insert_locked_def um_insert_def)

section \<open>The interface: a store that only grows\<close>

locale insert_store =
  fixes ok :: "'m \<Rightarrow> bool"
    and lookup :: "'m \<Rightarrow> 'k \<Rightarrow> 'v option"
    and insert_new :: "'m \<Rightarrow> 'k \<Rightarrow> 'v \<Rightarrow> bool \<times> 'm"
  assumes insert_ok: "ok m \<Longrightarrow> ok (snd (insert_new m k v))"
    and insert_absent: "ok m \<Longrightarrow> lookup m k = None \<Longrightarrow>
      fst (insert_new m k v) \<and> lookup (snd (insert_new m k v)) = (lookup m)(k \<mapsto> v)"
    and insert_present: "ok m \<Longrightarrow> lookup m k \<noteq> None \<Longrightarrow> insert_new m k v = (False, m)"
begin

lemma lookup_insert:
  "ok m \<Longrightarrow> lookup (snd (insert_new m k v)) j =
     (if j = k then (case lookup m k of None \<Rightarrow> Some v | Some w \<Rightarrow> Some w) else lookup m j)"
  by (cases "lookup m k") (simp_all add: insert_absent insert_present)

lemma inserted_found: "ok m \<Longrightarrow> lookup (snd (insert_new m k v)) k \<noteq> None"
  by (simp add: lookup_insert split: option.splits)

lemma keys_grow: "ok m \<Longrightarrow> dom (lookup (snd (insert_new m k v))) = insert k (dom (lookup m))"
  by (auto simp: lookup_insert split: if_splits option.splits)

text \<open>A value once stored is there after any further insertions.\<close>

fun insert_run :: "'m \<Rightarrow> ('k \<times> 'v) list \<Rightarrow> 'm" where
  "insert_run m [] = m"
| "insert_run m ((k, v) # l) = insert_run (snd (insert_new m k v)) l"

lemma insert_run_keeps:
  "ok m \<Longrightarrow> lookup m k = Some v \<Longrightarrow> ok (insert_run m l) \<and> lookup (insert_run m l) k = Some v"
proof (induction m l rule: insert_run.induct)
  case (1 m)
  then show ?case by simp
next
  case (2 m j w l)
  have "lookup (snd (insert_new m j w)) k = Some v"
    using 2(2,3) by (cases "k = j") (simp_all add: lookup_insert)
  with 2 show ?case by (simp add: insert_ok)
qed

end

interpretation hms: insert_store hm_inv hm_try_get hm_insert
proof (unfold_locales, goal_cases)
  case (1 m k v)
  then show ?case by (rule hm_inv_insert)
next
  case (2 m k v)
  then show ?case by (simp add: hm_insert_new fun_eq_iff)
next
  case (3 m k v)
  show ?case by (rule hm_insert_dup) (rule 3(2))
qed

text \<open>The list overload of \<open>insert\<close> is the run of single insertions.\<close>

lemma um_insert_eq: "um_insert m k v = hm_insert m k v"
  by (simp add: hm_insert_def hm_insert_locked_def hm_contains_key_def um_insert_def)

lemma hm_insert_list_run: "hm_insert_list m l = hms.insert_run m l"
proof (induction m l rule: hm_insert_list.induct)
  case (1 m)
  show ?case by (simp only: hm_insert_list.simps hms.insert_run.simps)
next
  case (2 m k v l)
  then show ?case by (simp only: hm_insert_list.simps hms.insert_run.simps um_insert_eq)
qed

section \<open>Properties\<close>

text \<open>\<open>erase\<close> never erases: whatever the map and the key, it reports failure and leaves the map as
  it was (its check for the key is inverted).\<close>

theorem erase_never_erases: "hm_erase m k = (False, m)"
  by (rule hm_erase_noop)

text \<open>What is stored under a key stays there whatever list is inserted afterwards.\<close>

theorem insert_list_keeps:
  assumes "hm_inv m" "hm_try_get m k = Some v"
  shows "hm_inv (hm_insert_list m l) \<and> hm_try_get (hm_insert_list m l) k = Some v"
  unfolding hm_insert_list_run using assms by (rule hms.insert_run_keeps)

lemma insert_list_keeps_witness:
  "hm_try_get (hm_insert_list [(5 :: nat, True)] [(5, False), (6, False)]) 5 = Some True"
  using insert_list_keeps [of "[(5 :: nat, True)]" 5 True "[(5, False), (6, False)]"] by (simp add: hm_inv_def)

end
