(* ===== verification/Object_Pool.thy ===== *)
theory Object_Pool
  imports Prelude
begin

text \<open>
  \<open>parallel_core/ObjectPool.h\<close>: recycled objects. An object is its address \<open>'a\<close> and a pointer
  an \<open>'a option\<close>, \<open>None\<close> the null pointer. The heap is the set of the addresses in use by
  \<open>new\<close>; the address \<open>new(std::nothrow)\<close> returns is an argument, \<open>None\<close> when there is no memory.
\<close>

section \<open>The pool\<close>

record 'a object_pool =
  pool_count :: int
  pool_stack :: "'a list"

definition pool_new :: "'a object_pool" where
  "pool_new = \<lparr>pool_count = 0, pool_stack = []\<rparr>"

definition countAll :: "'a object_pool \<Rightarrow> int" where
  "countAll p = pool_count p"

definition countInactive :: "'a object_pool \<Rightarrow> int" where
  "countInactive p = int (length (pool_stack p))"

definition countActive :: "'a object_pool \<Rightarrow> int" where
  "countActive p = pool_count p - countInactive p"

text \<open>
  \<open>get\<close> looks at the size without the lock and pops under it. \<open>pool_pop\<close> is the locked part:
  \<open>top\<close> of an empty stack is undefined. An object that could not be allocated is counted too.
\<close>

definition pool_pop :: "'a object_pool \<Rightarrow> ('a \<times> 'a object_pool) res" where
  "pool_pop p = (case pool_stack p of [] \<Rightarrow> Inl OutOfBounds
     | x # xs \<Rightarrow> Inr (x, p\<lparr>pool_stack := xs\<rparr>))"

definition pool_alloc ::
  "'a object_pool \<Rightarrow> 'a option \<Rightarrow> 'a set \<Rightarrow> 'a option \<times> 'a object_pool \<times> 'a set" where
  "pool_alloc p fresh live =
     (fresh, p\<lparr>pool_count := pool_count p + 1\<rparr>, live \<union> set_option fresh)"

definition pool_get ::
  "'a object_pool \<Rightarrow> 'a option \<Rightarrow> 'a set \<Rightarrow> ('a option \<times> 'a object_pool \<times> 'a set) res" where
  "pool_get p fresh live =
     (if length (pool_stack p) = 0 then Inr (pool_alloc p fresh live)
      else rbind (pool_pop p) (\<lambda>(x, p). Inr (Some x, p, live)))"

definition pool_release :: "'a object_pool \<Rightarrow> 'a option \<Rightarrow> 'a object_pool res" where
  "pool_release p element = (case element of None \<Rightarrow> Inl AssertFailed
     | Some x \<Rightarrow> Inr (p\<lparr>pool_stack := x # pool_stack p\<rparr>))"

text \<open>
  \<open>clear\<close> counts down before it looks, so once more than there are objects to delete. The
  destructor of a pool is \<open>clear\<close>.
\<close>

definition delete_object :: "'a \<Rightarrow> 'a set \<Rightarrow> 'a set res" where
  "delete_object x live = (if x \<in> live then Inr (live - {x}) else Inl BadFree)"

fun pool_clear_loop :: "int \<Rightarrow> 'a list \<Rightarrow> 'a set \<Rightarrow> (int \<times> 'a set) res" where
  "pool_clear_loop c [] live = Inr (c - 1, live)"
| "pool_clear_loop c (x # xs) live =
     rbind (delete_object x live) (\<lambda>live. pool_clear_loop (c - 1) xs live)"

definition pool_clear :: "'a object_pool \<Rightarrow> 'a set \<Rightarrow> ('a object_pool \<times> 'a set) res" where
  "pool_clear p live =
     rbind (pool_clear_loop (pool_count p) (pool_stack p) live) (\<lambda>(c, live).
     Inr (\<lparr>pool_count = c, pool_stack = []\<rparr>, live))"

definition pool_destroy :: "'a object_pool \<Rightarrow> 'a set \<Rightarrow> 'a set res" where
  "pool_destroy p live = rbind (pool_clear p live) (\<lambda>(p, live). Inr live)"

section \<open>Its books\<close>

text \<open>The pool against the objects in use: no object is free twice, or free and in use.\<close>

definition pool_inv :: "'a object_pool \<Rightarrow> 'a set \<Rightarrow> 'a set \<Rightarrow> bool" where
  "pool_inv p used live \<longleftrightarrow> distinct (pool_stack p) \<and> set (pool_stack p) \<inter> used = {} \<and> finite used
     \<and> pool_count p = int (length (pool_stack p) + card used)
     \<and> set (pool_stack p) \<union> used \<subseteq> live"

lemma pool_inv_new: "pool_inv pool_new {} live"
  by (simp add: pool_inv_def pool_new_def)

text \<open>What \<open>get\<close> does to the stack and the heap, whatever the counter says.\<close>

lemma pool_get_cases:
  "pool_get p fresh live = (case pool_stack p of
     [] \<Rightarrow> Inr (fresh, p\<lparr>pool_count := pool_count p + 1\<rparr>, live \<union> set_option fresh)
   | x # xs \<Rightarrow> Inr (Some x, p\<lparr>pool_stack := xs\<rparr>, live))"
  by (simp add: pool_get_def pool_alloc_def pool_pop_def split: list.split)

lemma pool_get_inv:
  assumes "pool_inv p used live" "fresh \<notin> live"
  shows "\<exists>x p' live'. pool_get p (Some fresh) live = Inr (Some x, p', live') \<and> x \<notin> used
    \<and> pool_inv p' (insert x used) live'"
proof -
  have "fresh \<notin> used" using assms by (auto simp: pool_inv_def)
  with assms show ?thesis by (auto simp: pool_get_cases pool_inv_def split: list.split)
qed

lemma pool_release_inv:
  assumes "pool_inv p used live" "x \<in> used"
  shows "\<exists>p'. pool_release p (Some x) = Inr p' \<and> pool_inv p' (used - {x}) live"
proof -
  have "0 < card used" using assms by (auto simp: pool_inv_def card_gt_0_iff)
  with assms show ?thesis by (auto simp: pool_inv_def pool_release_def)
qed

lemma countActive_used: "pool_inv p used live \<Longrightarrow> countActive p = int (card used)"
  by (simp add: countActive_def countInactive_def pool_inv_def)

lemma pool_clear_loop_eq:
  "distinct xs \<Longrightarrow> set xs \<subseteq> live \<Longrightarrow> pool_clear_loop c xs live = Inr (c - int (length xs) - 1, live - set xs)"
proof (induction c xs live rule: pool_clear_loop.induct)
  case (2 c x xs live)
  then have "x \<in> live" "distinct xs" "set xs \<subseteq> live - {x}" by auto
  moreover have "live - {x} - set xs = live - set (x # xs)" by auto
  ultimately show ?case using 2 by (simp add: delete_object_def)
qed simp

lemma pool_clear_eq:
  assumes "distinct (pool_stack p)" "set (pool_stack p) \<subseteq> live"
  shows "pool_clear p live
    = Inr (\<lparr>pool_count = countActive p - 1, pool_stack = []\<rparr>, live - set (pool_stack p))"
    and "pool_destroy p live = Inr (live - set (pool_stack p))"
  using assms
  by (simp_all add: pool_destroy_def pool_clear_def pool_clear_loop_eq countActive_def countInactive_def)

text \<open>
  Two threads that share a pool and both see its last object before either pops: the
  second pop reads the top of an empty stack.
\<close>

lemma pool_get_race:
  assumes "pool_stack p = [x]"
  shows "\<exists>p'. pool_get p fresh live = Inr (Some x, p', live)"
    and "\<exists>p'. pool_pop p = Inr (x, p') \<and> pool_pop p' = Inl OutOfBounds"
  using assms by (simp_all add: pool_get_def pool_pop_def)

section \<open>Properties\<close>

text \<open>A pool never hands out an object that is in use, as long as the allocator does not, and keeps
  its books: what is free, what is in use and the counter agree.\<close>

theorem pool_hands_out_unused:
  assumes "pool_inv p used live" "fresh \<notin> live"
  shows "\<exists>x p' live'. pool_get p (Some fresh) live = Inr (Some x, p', live') \<and> x \<notin> used
    \<and> pool_inv p' (insert x used) live' \<and> countActive p' = countActive p + 1
    \<and> (\<exists>p''. pool_release p' (Some x) = Inr p'' \<and> pool_inv p'' used live')"
proof -
  obtain x p' live' where g: "pool_get p (Some fresh) live = Inr (Some x, p', live')" "x \<notin> used"
      "pool_inv p' (insert x used) live'"
    using pool_get_inv [OF assms] by blast
  have "countActive p' = countActive p + 1"
    using g(2) assms(1) countActive_used [OF g(3)] countActive_used [OF assms(1)] by (simp add: pool_inv_def)
  moreover have "insert x used - {x} = used" using g(2) by auto
  ultimately show ?thesis using g pool_release_inv [OF g(3), of x] by auto
qed

lemma pool_hands_out_unused_witness:
  "\<exists>x p' live'. pool_get pool_new (Some (3 :: nat)) {5} = Inr (Some x, p', live') \<and> pool_inv p' {x} live'"
  using pool_hands_out_unused [OF pool_inv_new, of "3 :: nat" "{5}"] by auto

text \<open>\<open>clear\<close> deletes every free object, once, and leaves the counter one below the number of
  objects in use.\<close>

theorem pool_clear_miscounts:
  assumes "pool_inv p used live"
  shows "\<exists>p'. pool_clear p live = Inr (p', live - set (pool_stack p)) \<and> countAll p' = int (card used) - 1"
  using assms countActive_used [OF assms] by (simp add: pool_clear_eq countAll_def pool_inv_def)

lemma pool_clear_miscounts_witness:
  "\<exists>p'. pool_clear (pool_new :: nat object_pool) {7} = Inr (p', {7}) \<and> countAll p' = - 1"
  using pool_clear_miscounts [OF pool_inv_new, of "{7}"] by (simp add: pool_new_def)

end
