(* ===== verification/Thread_Cache.thy ===== *)
theory Thread_Cache
  imports Object_Pool "HOL-Library.AList"
begin

text \<open>
  \<open>parallel_core/ThreadCacheContainer.h\<close>, \<open>ThreadLifecircleListener.cpp\<close>, \<open>ThreadWrapper.cpp\<close> and
  \<open>ThreadSafeObjectPool.h\<close>: containers that keep one pool per thread id, and the wrapper that
  tells them when a thread ends. A container is a number; \<open>pw_cache\<close> holds its \<open>_threadIdMap\<close> in
  the order of its iteration, \<open>pw_listeners\<close> the wrapper's \<open>_pidListenerMap\<close>, and \<open>pw_live\<close> the heap.
  Arguments of the operations are what the platform returns: the id of the calling thread,
  \<open>clock()\<close>, and whether and where \<open>new\<close> finds memory.
\<close>

section \<open>Listeners\<close>

record listener =
  lst_agent :: "nat option"
  lst_id :: u64

record 'a pool_world =
  pw_cache :: "nat \<Rightarrow> (i32 \<times> 'a object_pool) list"
  pw_listeners :: "u64 \<rightharpoonup> listener list"
  pw_live :: "'a set"

definition world_new :: "'a set \<Rightarrow> 'a pool_world" where
  "world_new live = \<lparr>pw_cache = (\<lambda>_. []), pw_listeners = Map.empty, pw_live = live\<rparr>"

definition generateId :: "u64 \<Rightarrow> u64" where
  "generateId clock = clock"

definition listener_new :: "u64 \<Rightarrow> nat option \<Rightarrow> listener" where
  "listener_new clock agent = \<lparr>lst_agent = agent, lst_id = generateId clock\<rparr>"

definition listener_id :: "listener \<Rightarrow> u64" where
  "listener_id l = lst_id l"

text \<open>A container does nothing when a thread starts, and drops its pool when it ends.\<close>

definition container_onThreadCreated :: "nat \<Rightarrow> i32 \<Rightarrow> 'a pool_world \<Rightarrow> 'a pool_world" where
  "container_onThreadCreated c pid w = w"

definition container_onThreadClear :: "nat \<Rightarrow> i32 \<Rightarrow> 'a pool_world \<Rightarrow> 'a pool_world res" where
  "container_onThreadClear c pid w =
     (case map_of (pw_cache w c) pid of
        None \<Rightarrow> Inl AssertFailed
      | Some one \<Rightarrow>
          rbind (pool_destroy one (pw_live w)) (\<lambda>live.
          Inr (w\<lparr>pw_cache := (pw_cache w)(c := AList.delete pid (pw_cache w c)), pw_live := live\<rparr>)))"

definition onThreadCreated :: "listener \<Rightarrow> i32 \<Rightarrow> 'a pool_world \<Rightarrow> bool \<times> 'a pool_world" where
  "onThreadCreated l threadId w =
     (case lst_agent l of None \<Rightarrow> (False, w) | Some c \<Rightarrow> (True, container_onThreadCreated c threadId w))"

definition onThreadClear :: "listener \<Rightarrow> i32 \<Rightarrow> 'a pool_world \<Rightarrow> (bool \<times> 'a pool_world) res" where
  "onThreadClear l threadId w =
     (case lst_agent l of
        None \<Rightarrow> Inr (False, w)
      | Some c \<Rightarrow> rbind (container_onThreadClear c threadId w) (\<lambda>w. Inr (True, w)))"

section \<open>The wrapper\<close>

text \<open>The wrapper's map has keys of type \<open>unsigned long\<close>; a thread id is converted to one.\<close>

definition pid_key :: "i32 \<Rightarrow> u64" where
  "pid_key pid = scast pid"

definition registerListener :: "i32 \<Rightarrow> listener \<Rightarrow> 'a pool_world \<Rightarrow> 'a pool_world" where
  "registerListener pid l w =
     (case pw_listeners w (pid_key pid) of
        Some list_ \<Rightarrow> w\<lparr>pw_listeners := (pw_listeners w)(pid_key pid \<mapsto> list_ @ [l])\<rparr>
      | None \<Rightarrow> w\<lparr>pw_listeners := (pw_listeners w)(pid_key pid \<mapsto> [l])\<rparr>)"

definition afterCreateThread :: "i32 \<Rightarrow> 'a pool_world \<Rightarrow> 'a pool_world" where
  "afterCreateThread pid w = w"

definition beforeDestroyThread :: "i32 \<Rightarrow> 'a pool_world \<Rightarrow> 'a pool_world res" where
  "beforeDestroyThread pid w =
     (case pw_listeners w (pid_key pid) of
        None \<Rightarrow> Inr w
      | Some ls \<Rightarrow>
          rbind (rfold (\<lambda>l w. rbind (onThreadClear l pid w) (\<lambda>(ok, w). Inr w)) ls w) (\<lambda>w.
          Inr (w\<lparr>pw_listeners := (pw_listeners w)(pid_key pid := None)\<rparr>)))"

text \<open>What a thread made by \<open>createThread\<close> runs around its function.\<close>

definition createThread ::
  "i32 \<Rightarrow> ('a pool_world \<Rightarrow> 'a pool_world res) \<Rightarrow> 'a pool_world \<Rightarrow> 'a pool_world res" where
  "createThread pid func w = rbind (func (afterCreateThread pid w)) (beforeDestroyThread pid)"

section \<open>The pool of a thread\<close>

text \<open>
  \<open>getThreadCache\<close> returns the id whose pool it found or made, or \<open>None\<close> for the null pointer.
  The test for the key is made without the lock; \<open>cache_insert\<close> is the part under the lock, and
  it may find that another thread has entered the same id in between.
\<close>

definition cache_insert :: "nat \<Rightarrow> u64 \<Rightarrow> bool \<Rightarrow> i32 \<Rightarrow> 'a pool_world \<Rightarrow> i32 option \<times> 'a pool_world" where
  "cache_insert c clock memory threadId w =
     (if \<not> memory then (None, w)
      else let inserted = (map_of (pw_cache w c) threadId = None);
             w = (if inserted
                  then w\<lparr>pw_cache := (pw_cache w)(c := (threadId, pool_new) # pw_cache w c)\<rparr> else w)
           in (Some threadId, registerListener threadId (listener_new clock (Some c)) w))"

definition getThreadCache ::
  "nat \<Rightarrow> i32 \<Rightarrow> u64 \<Rightarrow> bool \<Rightarrow> i32 \<Rightarrow> 'a pool_world \<Rightarrow> i32 option \<times> 'a pool_world" where
  "getThreadCache c self clock memory pid w =
     (let threadId = (if pid = - 1 then self else pid) in
      if map_of (pw_cache w c) threadId = None then cache_insert c clock memory threadId w
      else (Some threadId, w))"

definition clearUnusedThreadCache :: "nat \<Rightarrow> 'a pool_world \<Rightarrow> 'a pool_world res" where
  "clearUnusedThreadCache c w =
     rbind (rfold (\<lambda>(pid, one) live. pool_destroy one live) (pw_cache w c) (pw_live w)) (\<lambda>live.
     Inr (w\<lparr>pw_cache := (pw_cache w)(c := []), pw_live := live\<rparr>))"

text \<open>A method called on the pointer \<open>getThreadCache\<close> returned.\<close>

definition on_cache ::
  "nat \<Rightarrow> i32 option \<Rightarrow> ('a object_pool \<Rightarrow> 'a set \<Rightarrow> ('r \<times> 'a object_pool \<times> 'a set) res)
     \<Rightarrow> 'a pool_world \<Rightarrow> ('r \<times> 'a pool_world) res" where
  "on_cache c ref call w =
     (case ref of None \<Rightarrow> Inl NullDeref
      | Some tid \<Rightarrow> (case map_of (pw_cache w c) tid of None \<Rightarrow> Inl NullDeref
          | Some p \<Rightarrow> rbind (call p (pw_live w)) (\<lambda>(r, p, live).
              Inr (r, w\<lparr>pw_cache := (pw_cache w)(c := AList.update tid p (pw_cache w c)),
                pw_live := live\<rparr>))))"

section \<open>\<open>ThreadSafeObjectPool\<close>\<close>

definition ts_get ::
  "nat \<Rightarrow> i32 \<Rightarrow> u64 \<Rightarrow> bool \<Rightarrow> 'a option \<Rightarrow> 'a pool_world
     \<Rightarrow> ((i32 \<times> 'a option) \<times> 'a pool_world) res" where
  "ts_get c self clock memory fresh w =
     (let (ref, w) = getThreadCache c self clock memory (- 1) w in
      rbind (on_cache c ref (\<lambda>p live. pool_get p fresh live) w) (\<lambda>(x, w).
      Inr ((self, x), w)))"

definition ts_release ::
  "nat \<Rightarrow> i32 \<Rightarrow> u64 \<Rightarrow> bool \<Rightarrow> 'a option \<Rightarrow> i32 \<Rightarrow> 'a pool_world \<Rightarrow> 'a pool_world res" where
  "ts_release c self clock memory element threadId w =
     (if element = None then Inl AssertFailed
      else let (ref, w) = getThreadCache c self clock memory threadId w in
        rbind (on_cache c ref (\<lambda>p live. rbind (pool_release p element) (\<lambda>p. Inr ((), p, live))) w)
          (\<lambda>(u, w). Inr w))"

text \<open>
  \<open>get_shared\<close>: the deleter of the returned pointer puts the object back into the pool of the
  thread that took it, and is called for a null pointer as well; the pair is the object and
  that thread.
\<close>

definition ts_get_shared ::
  "nat \<Rightarrow> i32 \<Rightarrow> u64 \<Rightarrow> bool \<Rightarrow> 'a option \<Rightarrow> 'a pool_world
     \<Rightarrow> (('a option \<times> i32) \<times> 'a pool_world) res" where
  "ts_get_shared c self clock memory fresh w =
     (let (ref, w) = getThreadCache c self clock memory (- 1) w in
      rbind (on_cache c ref (\<lambda>p live. pool_get p fresh live) w) (\<lambda>(x, w).
      Inr ((x, self), w)))"

definition ts_shared_deleter ::
  "nat \<Rightarrow> i32 \<Rightarrow> u64 \<Rightarrow> bool \<Rightarrow> 'a option \<times> i32 \<Rightarrow> 'a pool_world \<Rightarrow> 'a pool_world res" where
  "ts_shared_deleter c self clock memory = (\<lambda>(x, pid) w.
     let (ref, w) = getThreadCache c self clock memory pid w in
     rbind (on_cache c ref (\<lambda>p live. rbind (pool_release p x) (\<lambda>p. Inr ((), p, live))) w)
       (\<lambda>(u, w). Inr w))"

definition ts_clearCache :: "nat \<Rightarrow> 'a pool_world \<Rightarrow> 'a pool_world res" where
  "ts_clearCache c w = clearUnusedThreadCache c w"

section \<open>What the containers hold\<close>

definition pool_of :: "'a pool_world \<Rightarrow> nat \<Rightarrow> i32 \<Rightarrow> 'a object_pool option" where
  "pool_of w c t = map_of (pw_cache w c) t"

definition free_in :: "'a pool_world \<Rightarrow> nat \<Rightarrow> i32 \<Rightarrow> 'a list" where
  "free_in w c t = (case pool_of w c t of None \<Rightarrow> [] | Some p \<Rightarrow> pool_stack p)"

definition listeners_of :: "'a pool_world \<Rightarrow> i32 \<Rightarrow> listener list" where
  "listeners_of w t = (case pw_listeners w (pid_key t) of None \<Rightarrow> [] | Some ls \<Rightarrow> ls)"

definition agents_of :: "'a pool_world \<Rightarrow> i32 \<Rightarrow> nat option list" where
  "agents_of w t = map lst_agent (listeners_of w t)"

text \<open>
  \<open>used\<close> says of each object in use which container it is from and which thread took it. Every
  object is in one place: in use, or free in one pool, and allocated in either case.
\<close>

type_synonym 'a used = "'a \<rightharpoonup> nat \<times> i32"

definition heap_inv :: "'a pool_world \<Rightarrow> 'a used \<Rightarrow> bool" where
  "heap_inv w used \<longleftrightarrow> (\<forall>c. distinct (map fst (pw_cache w c)))
     \<and> (\<forall>c t. distinct (free_in w c t))
     \<and> (\<forall>c t x. x \<in> set (free_in w c t) \<longrightarrow> x \<in> pw_live w \<and> used x = None)
     \<and> (\<forall>c t c' t' x. x \<in> set (free_in w c t) \<longrightarrow> x \<in> set (free_in w c' t') \<longrightarrow> c = c' \<and> t = t')
     \<and> (\<forall>x. used x \<noteq> None \<longrightarrow> x \<in> pw_live w)"

text \<open>A thread id has one listener for each container that keeps a pool for it, and no other.\<close>

definition listeners_inv :: "'a pool_world \<Rightarrow> bool" where
  "listeners_inv w \<longleftrightarrow> (\<forall>t. distinct (agents_of w t)
     \<and> set (agents_of w t) = Some ` {c. pool_of w c t \<noteq> None})"

definition caches_inv :: "'a pool_world \<Rightarrow> 'a used \<Rightarrow> bool" where
  "caches_inv w used \<longleftrightarrow> heap_inv w used \<and> listeners_inv w"

lemma caches_inv_new: "caches_inv (world_new live) Map.empty"
  by (simp add: caches_inv_def heap_inv_def listeners_inv_def world_new_def free_in_def pool_of_def
      listeners_of_def agents_of_def)

lemma pid_key_eq [simp]: "pid_key s = pid_key t \<longleftrightarrow> s = t"
proof
  assume "pid_key s = pid_key t"
  then have "sint (scast s :: u64) = sint (scast t :: u64)" by (simp add: pid_key_def)
  then have "sint s = sint t" by (simp add: sint_up_scast is_up)
  then show "s = t" by (rule signed_word_eqI)
qed simp

lemma pool_of_simps [simp]:
  "pool_of (w\<lparr>pw_cache := f\<rparr>) c t = map_of (f c) t"
  "pool_of (w\<lparr>pw_listeners := l\<rparr>) c t = pool_of w c t"
  "pool_of (w\<lparr>pw_live := h\<rparr>) c t = pool_of w c t"
  by (simp_all add: pool_of_def)

lemma free_in_cong: "pool_of w' = pool_of w \<Longrightarrow> free_in w' = free_in w"
  by (simp add: free_in_def fun_eq_iff)

lemma pool_of_registerListener [simp]: "pool_of (registerListener t l w) = pool_of w"
  by (auto simp: registerListener_def fun_eq_iff split: option.split)

lemma registerListener_simps [simp]:
  "pw_cache (registerListener t l w) = pw_cache w"
  "pw_live (registerListener t l w) = pw_live w"
  "listeners_of (registerListener t l w) u = (if u = t then listeners_of w t @ [l] else listeners_of w u)"
  by (auto simp: registerListener_def listeners_of_def split: option.split)

lemma heap_inv_cong:
  "heap_inv w used \<Longrightarrow> (\<And>c. distinct (map fst (pw_cache w' c))) \<Longrightarrow> free_in w' = free_in w \<Longrightarrow>
   pw_live w' = pw_live w \<Longrightarrow> heap_inv w' used"
  by (simp add: heap_inv_def)

subsection \<open>Finding or making a pool\<close>

lemma cache_insert_new:
  assumes "caches_inv w used" "pool_of w c t = None" "cache_insert c clock True t w = (r, w')"
  shows "r = Some t" "caches_inv w' used" "pool_of w' = (pool_of w)(c := (pool_of w c)(t \<mapsto> pool_new))"
    "free_in w' = free_in w" "pw_live w' = pw_live w"
proof -
  let ?l = "listener_new clock (Some c)"
  let ?v = "w\<lparr>pw_cache := (pw_cache w)(c := (t, pool_new) # pw_cache w c)\<rparr>"
  have w': "r = Some t" "w' = registerListener t ?l ?v"
    using assms(2,3) by (auto simp: cache_insert_def pool_of_def)
  show "r = Some t" by fact
  show p: "pool_of w' = (pool_of w)(c := (pool_of w c)(t \<mapsto> pool_new))"
    by (auto simp: w' fun_eq_iff pool_of_def)
  show f: "free_in w' = free_in w"
    using assms(2) by (auto simp: fun_eq_iff free_in_def p pool_new_def)
  show l: "pw_live w' = pw_live w" by (simp add: w')
  have "heap_inv w' used"
  proof (rule heap_inv_cong [OF _ _ f l])
    show "heap_inv w used" using assms(1) by (simp add: caches_inv_def)
    then show "distinct (map fst (pw_cache w' d))" for d
      using assms(2) by (auto simp: w' heap_inv_def pool_of_def map_of_eq_None_iff)
  qed
  moreover have "listeners_inv w'"
    unfolding listeners_inv_def
  proof
    fix u
    have old: "distinct (agents_of w u)" "set (agents_of w u) = Some ` {c. pool_of w c u \<noteq> None}"
      using assms(1) by (auto simp: caches_inv_def listeners_inv_def)
    have "listeners_of ?v = listeners_of w" by (simp add: listeners_of_def fun_eq_iff)
    then have "agents_of w' u = (if u = t then agents_of w t @ [Some c] else agents_of w u)"
      by (simp add: w' agents_of_def listener_new_def)
    moreover have "{d. pool_of w' d u \<noteq> None} = {d. pool_of w d u \<noteq> None} \<union> (if u = t then {c} else {})"
      by (auto simp: p)
    ultimately show "distinct (agents_of w' u)
        \<and> set (agents_of w' u) = Some ` {d. pool_of w' d u \<noteq> None}"
      using old assms(2) by auto
  qed
  ultimately show "caches_inv w' used" by (simp add: caches_inv_def)
qed

lemma getThreadCache_inv:
  assumes "caches_inv w used" "getThreadCache c self clock True pid w = (r, w')"
    and "t = (if pid = - 1 then self else pid)"
  shows "r = Some t" "caches_inv w' used" "pool_of w' c t \<noteq> None"
    "free_in w' = free_in w" "pw_live w' = pw_live w"
proof -
  have "r = Some t \<and> caches_inv w' used \<and> pool_of w' c t \<noteq> None \<and> free_in w' = free_in w
    \<and> pw_live w' = pw_live w"
  proof (cases "pool_of w c t = None")
    case True
    then have "cache_insert c clock True t w = (r, w')"
      using assms(2,3) by (simp add: getThreadCache_def pool_of_def Let_def)
    from cache_insert_new [OF assms(1) True this] show ?thesis by simp
  next
    case False
    then have "r = Some t" "w' = w" using assms(2,3) by (auto simp: getThreadCache_def pool_of_def Let_def)
    with False assms(1) show ?thesis by simp
  qed
  then show "r = Some t" "caches_inv w' used" "pool_of w' c t \<noteq> None"
    "free_in w' = free_in w" "pw_live w' = pw_live w" by simp_all
qed

subsection \<open>Taking and giving back\<close>

lemma on_cache_eq:
  assumes "pool_of w c t = Some p" "call p (pw_live w) = Inr (r, p', live)"
  shows "\<exists>w'. on_cache c (Some t) call w = Inr (r, w') \<and> pw_live w' = live
    \<and> pool_of w' = (pool_of w)(c := (pool_of w c)(t \<mapsto> p')) \<and> agents_of w' = agents_of w
    \<and> ((\<forall>c. distinct (map fst (pw_cache w c))) \<longrightarrow> (\<forall>c. distinct (map fst (pw_cache w' c))))"
  using assms
  by (auto simp: on_cache_def pool_of_def AList.update_conv' AList.distinct_update fun_eq_iff
      agents_of_def listeners_of_def)

lemma listeners_inv_cong:
  "listeners_inv w \<Longrightarrow> agents_of w' = agents_of w \<Longrightarrow>
   (\<And>c t. pool_of w' c t = None \<longleftrightarrow> pool_of w c t = None) \<Longrightarrow> listeners_inv w'"
  by (simp add: listeners_inv_def)

lemma heap_take:
  assumes "heap_inv w used" "free_in w c t = y # ys" "\<And>c. distinct (map fst (pw_cache w' c))"
    "free_in w' = (free_in w)(c := (free_in w c)(t := ys))" "pw_live w' = pw_live w"
  shows "heap_inv w' (used(y \<mapsto> own))" "used y = None"
proof -
  have "distinct (free_in w c t)" using assms(1) by (simp add: heap_inv_def)
  then have y: "y \<in> set (free_in w c t)" "set ys \<subseteq> set (free_in w c t)" "distinct (y # ys)"
    by (auto simp: assms(2))
  then show "used y = None" using assms(1) by (simp add: heap_inv_def)
  have sub: "x \<in> set (free_in w d u) \<and> x \<noteq> y" if "x \<in> set (free_in w' d u)" for d u x
  proof (cases "d = c \<and> u = t")
    case True
    then show ?thesis using that y by (auto simp: assms(4))
  next
    case False
    then have "x \<in> set (free_in w d u)" using that by (auto simp: assms(4) split: if_splits)
    with y(1) False assms(1) show ?thesis unfolding heap_inv_def by metis
  qed
  have dist: "distinct (free_in w' d u)" for d u
    using assms(1) y(3) by (auto simp: assms(4) heap_inv_def)
  show "heap_inv w' (used(y \<mapsto> own))"
    unfolding heap_inv_def
  proof (intro conjI allI impI)
    show "distinct (map fst (pw_cache w' d))" "distinct (free_in w' d u)" for d u
      by (fact assms(3), fact dist)
    show "x \<in> pw_live w'" "(used(y \<mapsto> own)) x = None" if "x \<in> set (free_in w' d u)" for d u x
      using sub [OF that] assms(1,5) by (auto simp: heap_inv_def)
    show "d = d'" "u = u'" if "x \<in> set (free_in w' d u)" "x \<in> set (free_in w' d' u')" for d u d' u' x
      using sub [OF that(1)] sub [OF that(2)] assms(1) unfolding heap_inv_def by metis+
    show "x \<in> pw_live w'" if "(used(y \<mapsto> own)) x \<noteq> None" for x
      using that y(1) assms(1,5) by (auto simp: heap_inv_def split: if_splits)
  qed
qed

lemma heap_put:
  assumes "heap_inv w used" "used x \<noteq> None" "\<And>c. distinct (map fst (pw_cache w' c))"
    "free_in w' = (free_in w)(c := (free_in w c)(t := x # free_in w c t))" "pw_live w' = pw_live w"
  shows "heap_inv w' (used(x := None))"
proof -
  have x: "x \<in> pw_live w" using assms(1,2) by (simp add: heap_inv_def)
  have x2: "x \<notin> set (free_in w c t)" for c t using assms(1,2) unfolding heap_inv_def by metis
  have sub: "z \<in> set (free_in w d u) \<and> z \<noteq> x \<or> z = x \<and> d = c \<and> u = t" if "z \<in> set (free_in w' d u)" for d u z
    using that x2 by (auto simp: assms(4) split: if_splits)
  show ?thesis
    unfolding heap_inv_def
  proof (intro conjI allI impI)
    show "distinct (map fst (pw_cache w' d))" for d by (fact assms(3))
    show "distinct (free_in w' d u)" for d u
      using assms(1) x2 by (auto simp: assms(4) heap_inv_def)
    show "z \<in> pw_live w'" "(used(x := None)) z = None" if "z \<in> set (free_in w' d u)" for d u z
      using sub [OF that] x assms(1,5) by (auto simp: heap_inv_def)
    show "d = d'" "u = u'" if "z \<in> set (free_in w' d u)" "z \<in> set (free_in w' d' u')" for d u d' u' z
      using sub [OF that(1)] sub [OF that(2)] assms(1) unfolding heap_inv_def by metis+
    show "z \<in> pw_live w'" if "(used(x := None)) z \<noteq> None" for z
      using that assms(1,5) by (auto simp: heap_inv_def split: if_splits)
  qed
qed

lemma heap_new:
  assumes "heap_inv w used" "x \<notin> pw_live w" "\<And>c. distinct (map fst (pw_cache w' c))"
    "free_in w' = free_in w" "pw_live w' = insert x (pw_live w)"
  shows "heap_inv w' (used(x \<mapsto> own))" "used x = None"
proof -
  have x: "used x = None" "\<And>c t. x \<notin> set (free_in w c t)"
    using assms(1,2) unfolding heap_inv_def by blast+
  then show "used x = None" by simp
  show "heap_inv w' (used(x \<mapsto> own))"
    unfolding heap_inv_def assms(4,5)
  proof (intro conjI allI impI)
    show "distinct (map fst (pw_cache w' d))" for d by (fact assms(3))
    show "distinct (free_in w d u)" for d u using assms(1) by (simp add: heap_inv_def)
    show "z \<in> insert x (pw_live w)" "(used(x \<mapsto> own)) z = None" if "z \<in> set (free_in w d u)" for d u z
      using that x(2) assms(1) by (auto simp: heap_inv_def)
    show "d = d'" "u = u'" if "z \<in> set (free_in w d u)" "z \<in> set (free_in w d' u')" for d u d' u' z
      using that assms(1) unfolding heap_inv_def by metis+
    show "z \<in> insert x (pw_live w)" if "(used(x \<mapsto> own)) z \<noteq> None" for z
      using that assms(1) by (auto simp: heap_inv_def split: if_splits)
  qed
qed

definition taken :: "'a pool_world \<Rightarrow> nat \<Rightarrow> i32 \<Rightarrow> 'a \<Rightarrow> 'a \<Rightarrow> 'a pool_world \<Rightarrow> bool" where
  "taken w c t fresh x w' \<longleftrightarrow> (case free_in w c t of
     [] \<Rightarrow> x = fresh \<and> free_in w' = free_in w \<and> pw_live w' = insert fresh (pw_live w)
   | y # ys \<Rightarrow> x = y \<and> free_in w' = (free_in w)(c := (free_in w c)(t := ys)) \<and> pw_live w' = pw_live w)"

lemma pool_get_caches:
  assumes "caches_inv w used" "fresh \<notin> pw_live w" "pool_of w c t = Some p"
  shows "\<exists>x w'. on_cache c (Some t) (\<lambda>p live. pool_get p (Some fresh) live) w = Inr (Some x, w')
    \<and> used x = None \<and> caches_inv w' (used(x \<mapsto> own)) \<and> taken w c t fresh x w'"
proof (cases "pool_stack p")
  case Nil
  then have g: "pool_get p (Some fresh) (pw_live w)
      = Inr (Some fresh, p\<lparr>pool_count := pool_count p + 1\<rparr>, insert fresh (pw_live w))"
    by (simp add: pool_get_cases)
  from on_cache_eq [where call = "\<lambda>p live. pool_get p (Some fresh) live", OF assms(3) g]
  obtain w' where w': "on_cache c (Some t) (\<lambda>p live. pool_get p (Some fresh) live) w = Inr (Some fresh, w')"
      "pw_live w' = insert fresh (pw_live w)" "agents_of w' = agents_of w"
      "pool_of w' = (pool_of w)(c := (pool_of w c)(t \<mapsto> p\<lparr>pool_count := pool_count p + 1\<rparr>))"
      "\<And>c. distinct (map fst (pw_cache w' c))"
    using assms(1) unfolding caches_inv_def heap_inv_def by blast
  have "free_in w' = free_in w" using Nil assms(3) by (auto simp: fun_eq_iff free_in_def w'(4))
  moreover have "listeners_inv w'"
    by (rule listeners_inv_cong [of w]) (use assms(1,3) w'(3,4) in \<open>auto simp: caches_inv_def\<close>)
  moreover have "free_in w c t = []" using Nil assms(3) by (simp add: free_in_def)
  ultimately show ?thesis
    using heap_new [OF _ assms(2) w'(5) _ w'(2)] assms(1) w'(1,2) by (auto simp: caches_inv_def taken_def)
next
  case (Cons y ys)
  then have g: "pool_get p (Some fresh) (pw_live w) = Inr (Some y, p\<lparr>pool_stack := ys\<rparr>, pw_live w)"
    by (simp add: pool_get_cases)
  from on_cache_eq [where call = "\<lambda>p live. pool_get p (Some fresh) live", OF assms(3) g]
  obtain w' where w': "on_cache c (Some t) (\<lambda>p live. pool_get p (Some fresh) live) w = Inr (Some y, w')"
      "pw_live w' = pw_live w" "agents_of w' = agents_of w"
      "pool_of w' = (pool_of w)(c := (pool_of w c)(t \<mapsto> p\<lparr>pool_stack := ys\<rparr>))"
      "\<And>c. distinct (map fst (pw_cache w' c))"
    using assms(1) unfolding caches_inv_def heap_inv_def by blast
  have f: "free_in w c t = y # ys" "free_in w' = (free_in w)(c := (free_in w c)(t := ys))"
    using Cons assms(3) by (auto simp: fun_eq_iff free_in_def w'(4))
  moreover have "listeners_inv w'"
    by (rule listeners_inv_cong [of w]) (use assms(1,3) w'(3,4) in \<open>auto simp: caches_inv_def\<close>)
  ultimately show ?thesis
    using heap_take [OF _ f(1) w'(5) f(2) w'(2)] assms(1) w'(1,2) by (auto simp: caches_inv_def taken_def)
qed

lemma pool_release_caches:
  assumes "caches_inv w used" "used x \<noteq> None" "pool_of w c t = Some p"
  shows "\<exists>w'. on_cache c (Some t) (\<lambda>p live. rbind (pool_release p (Some x)) (\<lambda>p. Inr ((), p, live))) w
      = Inr ((), w') \<and> caches_inv w' (used(x := None)) \<and> pw_live w' = pw_live w
      \<and> free_in w' = (free_in w)(c := (free_in w c)(t := x # free_in w c t))"
proof -
  let ?m = "\<lambda>p live. rbind (pool_release p (Some x)) (\<lambda>p. Inr ((), p, live))"
  have g: "?m p (pw_live w) = Inr ((), p\<lparr>pool_stack := x # pool_stack p\<rparr>, pw_live w)"
    by (simp add: pool_release_def)
  from on_cache_eq [where call = ?m, OF assms(3) g]
  obtain w' where w': "on_cache c (Some t) ?m w = Inr ((), w')"
      "pw_live w' = pw_live w" "agents_of w' = agents_of w"
      "pool_of w' = (pool_of w)(c := (pool_of w c)(t \<mapsto> p\<lparr>pool_stack := x # pool_stack p\<rparr>))"
      "\<And>c. distinct (map fst (pw_cache w' c))"
    using assms(1) unfolding caches_inv_def heap_inv_def by blast
  have f: "free_in w' = (free_in w)(c := (free_in w c)(t := x # free_in w c t))"
    using assms(3) by (auto simp: fun_eq_iff free_in_def w'(4))
  moreover have "listeners_inv w'"
    by (rule listeners_inv_cong [of w]) (use assms(1,3) w'(3,4) in \<open>auto simp: caches_inv_def\<close>)
  ultimately show ?thesis
    using heap_put [where used = used, OF _ assms(2) w'(5) f w'(2)] assms(1) w'(1,2) f by (simp add: caches_inv_def)
qed

lemma taken_cong: "free_in w' = free_in w \<Longrightarrow> pw_live w' = pw_live w \<Longrightarrow>
   taken w' c t fresh x v = taken w c t fresh x v"
  by (simp add: taken_def split: list.split)

lemma ts_get_inv:
  assumes "caches_inv w used" "fresh \<notin> pw_live w"
  shows "\<exists>x w'. ts_get c self clock True (Some fresh) w = Inr ((self, Some x), w') \<and> used x = None
    \<and> caches_inv w' (used(x \<mapsto> (c, self))) \<and> taken w c self fresh x w'"
    and "\<exists>x w'. ts_get_shared c self clock True (Some fresh) w = Inr ((Some x, self), w') \<and> used x = None
    \<and> caches_inv w' (used(x \<mapsto> (c, self))) \<and> taken w c self fresh x w'"
proof -
  obtain r v where g: "getThreadCache c self clock True (- 1) w = (r, v)"
    by (cases "getThreadCache c self clock True (- 1) w")
  note v = getThreadCache_inv [OF assms(1) g refl, simplified]
  from v(3) obtain p where "pool_of v c self = Some p" by auto
  from pool_get_caches [OF v(2) _ this, of fresh "(c, self)"] assms(2) v(1,5)
  obtain x w' where x: "on_cache c r (\<lambda>p live. pool_get p (Some fresh) live) v = Inr (Some x, w')"
      "used x = None" "caches_inv w' (used(x \<mapsto> (c, self)))" "taken v c self fresh x w'" by auto
  from x(4) have "taken w c self fresh x w'" by (simp only: taken_cong [OF v(4,5)])
  with x show "\<exists>x w'. ts_get c self clock True (Some fresh) w = Inr ((self, Some x), w') \<and> used x = None
      \<and> caches_inv w' (used(x \<mapsto> (c, self))) \<and> taken w c self fresh x w'"
    and "\<exists>x w'. ts_get_shared c self clock True (Some fresh) w = Inr ((Some x, self), w') \<and> used x = None
      \<and> caches_inv w' (used(x \<mapsto> (c, self))) \<and> taken w c self fresh x w'"
    by (simp_all add: ts_get_def ts_get_shared_def g)
qed

lemma ts_release_inv:
  assumes "caches_inv w used" "used x \<noteq> None" and t: "t = (if pid = - 1 then self else pid)"
  shows "\<exists>w'. ts_release c self clock True (Some x) pid w = Inr w' \<and> caches_inv w' (used(x := None))
    \<and> pw_live w' = pw_live w \<and> free_in w' = (free_in w)(c := (free_in w c)(t := x # free_in w c t))"
    and "\<exists>w'. ts_shared_deleter c self clock True (Some x, pid) w = Inr w' \<and> caches_inv w' (used(x := None))
    \<and> pw_live w' = pw_live w \<and> free_in w' = (free_in w)(c := (free_in w c)(t := x # free_in w c t))"
proof -
  obtain r v where g: "getThreadCache c self clock True pid w = (r, v)"
    by (cases "getThreadCache c self clock True pid w")
  note v = getThreadCache_inv [OF assms(1) g t]
  from v(3) obtain p where "pool_of v c t = Some p" by auto
  from pool_release_caches [OF v(2) assms(2) this] v(1,4,5)
  show "\<exists>w'. ts_release c self clock True (Some x) pid w = Inr w' \<and> caches_inv w' (used(x := None))
      \<and> pw_live w' = pw_live w \<and> free_in w' = (free_in w)(c := (free_in w c)(t := x # free_in w c t))"
    and "\<exists>w'. ts_shared_deleter c self clock True (Some x, pid) w = Inr w' \<and> caches_inv w' (used(x := None))
      \<and> pw_live w' = pw_live w \<and> free_in w' = (free_in w)(c := (free_in w c)(t := x # free_in w c t))"
    by (auto simp: ts_release_def ts_shared_deleter_def g)
qed

subsection \<open>The end of a thread\<close>

lemma heap_drop:
  assumes "heap_inv w used" "\<And>c. distinct (map fst (pw_cache w' c))"
    "free_in w' = (free_in w)(c := (free_in w c)(t := []))" "pw_live w' = pw_live w - set (free_in w c t)"
  shows "heap_inv w' used"
proof -
  have sub: "x \<in> set (free_in w d u) \<and> x \<in> pw_live w'" if "x \<in> set (free_in w' d u)" for d u x
  proof -
    from that have x: "x \<in> set (free_in w d u)" "\<not> (d = c \<and> u = t)" by (auto simp: assms(3) split: if_splits)
    with assms(1) have "x \<notin> set (free_in w c t)" "x \<in> pw_live w" unfolding heap_inv_def by metis+
    with x(1) show ?thesis by (simp add: assms(4))
  qed
  show ?thesis
    unfolding heap_inv_def
  proof (intro conjI allI impI)
    show "distinct (map fst (pw_cache w' d))" for d by (fact assms(2))
    show "distinct (free_in w' d u)" for d u
      using assms(1) by (auto simp: assms(3) heap_inv_def)
    show "x \<in> pw_live w'" "used x = None" if "x \<in> set (free_in w' d u)" for d u x
      using sub [OF that] assms(1) by (auto simp: heap_inv_def)
    show "d = d'" "u = u'" if "x \<in> set (free_in w' d u)" "x \<in> set (free_in w' d' u')" for d u d' u' x
      using sub [OF that(1)] sub [OF that(2)] assms(1) unfolding heap_inv_def by metis+
    show "x \<in> pw_live w'" if "used x \<noteq> None" for x
      using that assms(1) unfolding assms(4) heap_inv_def by (metis DiffI)
  qed
qed

lemma container_onThreadClear_inv:
  assumes "heap_inv w used" "pool_of w c t \<noteq> None"
  shows "\<exists>w'. container_onThreadClear c t w = Inr w' \<and> heap_inv w' used
    \<and> pool_of w' = (pool_of w)(c := (pool_of w c)(t := None))
    \<and> pw_live w' = pw_live w - set (free_in w c t) \<and> pw_listeners w' = pw_listeners w"
proof -
  obtain p where p: "map_of (pw_cache w c) t = Some p" "pool_of w c t = Some p"
    using assms(2) by (auto simp: pool_of_def)
  then have f: "free_in w c t = pool_stack p" by (simp add: free_in_def)
  with assms(1) have "distinct (pool_stack p)" "set (pool_stack p) \<subseteq> pw_live w"
    unfolding heap_inv_def by (metis, metis subsetI)
  note d = pool_clear_eq(2) [OF this]
  let ?w = "w\<lparr>pw_cache := (pw_cache w)(c := AList.delete t (pw_cache w c)), pw_live := pw_live w - set (pool_stack p)\<rparr>"
  have e: "container_onThreadClear c t w = Inr ?w" by (simp add: container_onThreadClear_def p(1) d)
  have po: "pool_of ?w = (pool_of w)(c := (pool_of w c)(t := None))"
    by (auto simp: fun_eq_iff pool_of_def AList.delete_conv')
  then have "free_in ?w = (free_in w)(c := (free_in w c)(t := []))" by (auto simp: fun_eq_iff free_in_def)
  note fr = this
  have di: "distinct (map fst (pw_cache ?w d))" for d
    using assms(1) by (simp add: heap_inv_def AList.distinct_delete)
  have "pw_live ?w = pw_live w - set (free_in w c t)" by (simp add: f)
  from heap_drop [OF assms(1) di fr this] have "heap_inv ?w used" .
  with e po show ?thesis by (simp add: f)
qed

lemma thread_end_loop:
  assumes "heap_inv w used" "distinct (map lst_agent ls)"
    and "\<forall>a \<in> set (map lst_agent ls). \<exists>c. a = Some c \<and> pool_of w c pid \<noteq> None"
  shows "\<exists>w'. rfold (\<lambda>l w. rbind (onThreadClear l pid w) (\<lambda>(ok, w). Inr w)) ls w = Inr w'
    \<and> heap_inv w' used \<and> pw_listeners w' = pw_listeners w
    \<and> pool_of w' = (\<lambda>c t. if t = pid \<and> Some c \<in> set (map lst_agent ls) then None else pool_of w c t)
    \<and> pw_live w' = pw_live w - (\<Union>c \<in> {c. Some c \<in> set (map lst_agent ls)}. set (free_in w c pid))"
  using assms
proof (induction ls arbitrary: w)
  case Nil
  then show ?case by (auto simp: fun_eq_iff)
next
  case (Cons l ls)
  from Cons.prems obtain c where c: "lst_agent l = Some c" "pool_of w c pid \<noteq> None" by auto
  from container_onThreadClear_inv [OF Cons.prems(1) c(2)] obtain v where
    v: "container_onThreadClear c pid w = Inr v" "heap_inv v used"
      "pool_of v = (pool_of w)(c := (pool_of w c)(pid := None))"
      "pw_live v = pw_live w - set (free_in w c pid)" "pw_listeners v = pw_listeners w" by blast
  have other: "d \<noteq> c" if "Some d \<in> set (map lst_agent ls)" for d
    using Cons.prems(2) c(1) that by auto
  have "\<exists>d. a = Some d \<and> pool_of v d pid \<noteq> None" if "a \<in> set (map lst_agent ls)" for a
  proof -
    from that Cons.prems(3) obtain d where "a = Some d" "pool_of w d pid \<noteq> None" by auto
    with other that show ?thesis by (auto simp: v(3))
  qed
  then have "\<forall>a \<in> set (map lst_agent ls). \<exists>d. a = Some d \<and> pool_of v d pid \<noteq> None" by blast
  from Cons.IH [OF v(2) _ this] Cons.prems(2) obtain w' where
    w': "rfold (\<lambda>l w. rbind (onThreadClear l pid w) (\<lambda>(ok, w). Inr w)) ls v = Inr w'"
      "heap_inv w' used" "pw_listeners w' = pw_listeners v"
      "pool_of w' = (\<lambda>c t. if t = pid \<and> Some c \<in> set (map lst_agent ls) then None else pool_of v c t)"
      "pw_live w' = pw_live v - (\<Union>c \<in> {c. Some c \<in> set (map lst_agent ls)}. set (free_in v c pid))" by auto
  have "free_in v d pid = free_in w d pid" if "Some d \<in> set (map lst_agent ls)" for d
    using other [OF that] by (simp add: free_in_def v(3))
  then have "pw_live w' = pw_live w - (\<Union>c \<in> {c. Some c \<in> set (map lst_agent (l # ls))}. set (free_in w c pid))"
    by (auto simp: w'(5) v(4) c(1))
  moreover have "pool_of w' = (\<lambda>d t. if t = pid \<and> Some d \<in> set (map lst_agent (l # ls)) then None else pool_of w d t)"
    by (auto simp: w'(4) v(3) c(1) fun_eq_iff)
  ultimately show ?case using v(1,5) w'(1-3) by (simp add: onThreadClear_def c(1))
qed

lemma beforeDestroyThread_inv:
  assumes "caches_inv w used"
  shows "\<exists>w'. beforeDestroyThread pid w = Inr w' \<and> caches_inv w' used
    \<and> pool_of w' = (\<lambda>c t. if t = pid then None else pool_of w c t)
    \<and> pw_live w' = pw_live w - (\<Union>c. set (free_in w c pid))"
proof -
  have li: "distinct (agents_of w pid)" "set (agents_of w pid) = Some ` {c. pool_of w c pid \<noteq> None}"
    using assms by (auto simp: caches_inv_def listeners_inv_def)
  show ?thesis
  proof (cases "pw_listeners w (pid_key pid)")
    case None
    with li(2) have n: "pool_of w c pid = None" for c by (auto simp: agents_of_def listeners_of_def)
    then have "pool_of w = (\<lambda>c t. if t = pid then None else pool_of w c t)" by (auto simp: fun_eq_iff)
    with None n assms show ?thesis by (auto simp: beforeDestroyThread_def free_in_def)
  next
    case (Some ls)
    then have ag: "agents_of w pid = map lst_agent ls" by (simp add: agents_of_def listeners_of_def)
    have all: "\<forall>a \<in> set (map lst_agent ls). \<exists>c. a = Some c \<and> pool_of w c pid \<noteq> None"
      using li(2) unfolding ag by auto
    have mem: "Some c \<in> set (map lst_agent ls) \<longleftrightarrow> pool_of w c pid \<noteq> None" for c
      using li(2) unfolding ag by auto
    have "heap_inv w used" using assms by (simp add: caches_inv_def)
    from thread_end_loop [OF this _ all] li(1) obtain v where
      v: "rfold (\<lambda>l w. rbind (onThreadClear l pid w) (\<lambda>(ok, w). Inr w)) ls w = Inr v"
        "heap_inv v used" "pw_listeners v = pw_listeners w"
        "pool_of v = (\<lambda>c t. if t = pid \<and> Some c \<in> set (map lst_agent ls) then None else pool_of w c t)"
        "pw_live v = pw_live w - (\<Union>c \<in> {c. Some c \<in> set (map lst_agent ls)}. set (free_in w c pid))"
      unfolding ag by blast
    have union: "(\<Union>c \<in> {c. Some c \<in> set (map lst_agent ls)}. set (free_in w c pid)) = (\<Union>c. set (free_in w c pid))"
    proof -
      have "pool_of w c pid \<noteq> None" if "x \<in> set (free_in w c pid)" for x c
        using that by (cases "pool_of w c pid") (simp_all add: free_in_def)
      then show ?thesis unfolding mem by blast
    qed
    let ?w = "v\<lparr>pw_listeners := (pw_listeners v)(pid_key pid := None)\<rparr>"
    have po: "pool_of ?w = (\<lambda>c t. if t = pid then None else pool_of w c t)"
      using mem by (auto simp: v(4) fun_eq_iff)
    have "pw_live ?w = pw_live w - (\<Union>c. set (free_in w c pid))"
      using union by (simp add: v(5))
    moreover have "heap_inv ?w used"
      by (rule heap_inv_cong [OF v(2)]) (use v(2) in \<open>auto simp: heap_inv_def fun_eq_iff free_in_def\<close>)
    moreover have "agents_of ?w t = (if t = pid then [] else agents_of w t)" for t
      by (simp add: agents_of_def listeners_of_def v(3))
    then have "listeners_inv ?w"
      using assms unfolding caches_inv_def listeners_inv_def po by simp
    ultimately show ?thesis using po v(1) by (simp add: beforeDestroyThread_def Some caches_inv_def)
  qed
qed

subsection \<open>Where it goes wrong\<close>

text \<open>A listener whose container has no pool for the thread stops the loop with the assertion.\<close>

lemma thread_end_fails:
  assumes "heap_inv w used" "pw_listeners w (pid_key t) = Some (as @ l # bs)" "lst_agent l = Some c"
    and "distinct (map lst_agent as)"
    and "\<forall>a \<in> set (map lst_agent as). \<exists>d. a = Some d \<and> pool_of w d t \<noteq> None"
    and "pool_of w c t = None \<or> Some c \<in> set (map lst_agent as)"
  shows "beforeDestroyThread t w = Inl AssertFailed"
proof -
  from thread_end_loop [OF assms(1,4,5)] obtain v where
    v: "rfold (\<lambda>l w. rbind (onThreadClear l t w) (\<lambda>(ok, w). Inr w)) as w = Inr v"
      "pool_of v = (\<lambda>c u. if u = t \<and> Some c \<in> set (map lst_agent as) then None else pool_of w c u)" by blast
  then have "pool_of v c t = None" using assms(6) by auto
  then have "onThreadClear l t v = Inl AssertFailed"
    using assms(3) by (simp add: onThreadClear_def container_onThreadClear_def pool_of_def)
  with v(1) show ?thesis by (simp add: beforeDestroyThread_def assms(2) rfold_append)
qed

lemma listeners_of_Some:
  "listeners_of w t = ls \<Longrightarrow> ls \<noteq> [] \<Longrightarrow> pw_listeners w (pid_key t) = Some ls"
  by (auto simp: listeners_of_def split: option.splits)

text \<open>Two threads with the same id that both find no pool for it: the second one under the lock
  finds the pool of the first, but has registered a second listener.\<close>

lemma insert_race:
  assumes "caches_inv w used" "pool_of w c t = None"
    and "cache_insert c clock True t w = (r, w1)" "cache_insert c clock' True t w1 = (r', w2)"
  shows "r' = r \<and> pool_of w2 = pool_of w1 \<and> beforeDestroyThread t w2 = Inl AssertFailed"
proof -
  note w1 = cache_insert_new [OF assms(1-3)]
  have some: "pool_of w1 c t = Some pool_new" by (simp add: w1(3))
  then have w2: "r' = Some t" "w2 = registerListener t (listener_new clock' (Some c)) w1"
    using assms(4) by (auto simp: cache_insert_def pool_of_def)
  have li: "distinct (agents_of w1 t)" "set (agents_of w1 t) = Some ` {d. pool_of w1 d t \<noteq> None}"
    using w1(2) by (auto simp: caches_inv_def listeners_inv_def)
  have "heap_inv w2 used"
    by (rule heap_inv_cong [of w1]) (use w1(2) in \<open>auto simp: caches_inv_def heap_inv_def w2 free_in_def fun_eq_iff\<close>)
  moreover have "pw_listeners w2 (pid_key t) = Some (listeners_of w1 t @ listener_new clock' (Some c) # [])"
    by (rule listeners_of_Some) (simp_all add: w2(2))
  moreover have "pool_of w2 = pool_of w1" by (simp add: w2(2))
  moreover have "\<exists>d. a = Some d \<and> pool_of w1 d t \<noteq> None" if "a \<in> set (agents_of w1 t)" for a
    using that li(2) by auto
  moreover have "Some c \<in> set (agents_of w1 t)" using li(2) some by auto
  ultimately have "beforeDestroyThread t w2 = Inl AssertFailed"
    using li(1) unfolding agents_of_def
    by (intro thread_end_fails [of w2 used t "listeners_of w1 t" "listener_new clock' (Some c)" "[]" c])
      (simp_all add: listener_new_def)
  with w1(1) w2 show ?thesis by simp
qed

text \<open>\<open>clearUnusedThreadCache\<close> deletes the pools of a container but leaves the listeners.\<close>

lemma destroy_loop:
  assumes "distinct (map fst ps)"
    and "\<And>t p. (t, p) \<in> set ps \<Longrightarrow> distinct (pool_stack p) \<and> set (pool_stack p) \<subseteq> live"
    and "\<And>t p u q x. (t, p) \<in> set ps \<Longrightarrow> (u, q) \<in> set ps \<Longrightarrow> x \<in> set (pool_stack p) \<Longrightarrow>
          x \<in> set (pool_stack q) \<Longrightarrow> t = u"
  shows "rfold (\<lambda>(pid, one) live. pool_destroy one live) ps live
    = Inr (live - (\<Union>(t, p) \<in> set ps. set (pool_stack p)))"
  using assms
proof (induction ps arbitrary: live)
  case (Cons tp ps)
  obtain t p where tp: "tp = (t, p)" by (cases tp)
  have p: "distinct (pool_stack p)" "set (pool_stack p) \<subseteq> live" using Cons.prems(2) [of t p] tp by auto
  have sub: "distinct (pool_stack q) \<and> set (pool_stack q) \<subseteq> live - set (pool_stack p)" if "(u, q) \<in> set ps" for u q
  proof -
    have "u \<noteq> t" using that Cons.prems(1) tp by force
    then have "x \<notin> set (pool_stack p)" if "x \<in> set (pool_stack q)" for x
      using Cons.prems(3) [of u q t p x] \<open>(u, q) \<in> set ps\<close> that tp by auto
    moreover have "distinct (pool_stack q)" "set (pool_stack q) \<subseteq> live" using Cons.prems(2) [of u q] that by auto
    ultimately show ?thesis by auto
  qed
  have "rfold (\<lambda>(pid, one) live. pool_destroy one live) ps (live - set (pool_stack p))
      = Inr (live - set (pool_stack p) - (\<Union>(t, p) \<in> set ps. set (pool_stack p)))"
  proof (rule Cons.IH)
    show "distinct (map fst ps)" using Cons.prems(1) by simp
    show "t = u" if "(t, p) \<in> set ps" "(u, q) \<in> set ps" "x \<in> set (pool_stack p)" "x \<in> set (pool_stack q)" for t p u q x
      using Cons.prems(3) [of t p u q x] that by simp
  qed (fact sub)
  moreover have "live - set (pool_stack p) - (\<Union>(t, p) \<in> set ps. set (pool_stack p))
      = live - (\<Union>(t, p) \<in> set (tp # ps). set (pool_stack p))" by (auto simp: tp)
  ultimately show ?case by (simp add: tp pool_clear_eq(2) [OF p])
qed simp

text \<open>What lies free in the pools of a container, seen from the container and from its threads.\<close>

lemma free_in_pool:
  assumes "heap_inv w used" "(t, p) \<in> set (pw_cache w c)"
  shows "free_in w c t = pool_stack p"
  using assms by (simp add: heap_inv_def free_in_def pool_of_def)

lemma free_in_union:
  assumes "heap_inv w used"
  shows "(\<Union>(t, p) \<in> set (pw_cache w c). set (pool_stack p)) = (\<Union>t. set (free_in w c t))"
proof (intro equalityI subsetI)
  fix x assume "x \<in> (\<Union>t. set (free_in w c t))"
  then obtain t where t: "x \<in> set (free_in w c t)" by blast
  then obtain p where p: "map_of (pw_cache w c) t = Some p"
    by (cases "map_of (pw_cache w c) t") (simp_all add: free_in_def pool_of_def)
  then have "(t, p) \<in> set (pw_cache w c)" "x \<in> set (pool_stack p)"
    using t by (simp_all add: map_of_SomeD free_in_def pool_of_def)
  then show "x \<in> (\<Union>(t, p) \<in> set (pw_cache w c). set (pool_stack p))" by blast
next
  fix x assume "x \<in> (\<Union>(t, p) \<in> set (pw_cache w c). set (pool_stack p))"
  then obtain t p where "(t, p) \<in> set (pw_cache w c)" "x \<in> set (pool_stack p)" by blast
  then have "x \<in> set (free_in w c t)" using free_in_pool [OF assms, of t p c] by simp
  then show "x \<in> (\<Union>t. set (free_in w c t))" by blast
qed

lemma clear_heap:
  assumes "heap_inv w used"
  shows "\<exists>w'. clearUnusedThreadCache c w = Inr w' \<and> heap_inv w' used
    \<and> pool_of w' = (pool_of w)(c := Map.empty) \<and> pw_listeners w' = pw_listeners w
    \<and> pw_live w' = pw_live w - (\<Union>t. set (free_in w c t))"
proof -
  let ?ps = "pw_cache w c"
  have d: "distinct (map fst ?ps)" using assms by (simp add: heap_inv_def)
  note fr = free_in_pool [OF assms] and un = free_in_union [OF assms]
  have ps: "distinct (pool_stack p) \<and> set (pool_stack p) \<subseteq> pw_live w" if "(t, p) \<in> set ?ps" for t p
    using assms fr [OF that] unfolding heap_inv_def by (metis subsetI)
  have un1: "t = u" if "(t, p) \<in> set ?ps" "(u, q) \<in> set ?ps" "x \<in> set (pool_stack p)" "x \<in> set (pool_stack q)" for t p u q x
    using that fr assms unfolding heap_inv_def by metis
  let ?w = "w\<lparr>pw_cache := (pw_cache w)(c := []), pw_live := pw_live w - (\<Union>t. set (free_in w c t))\<rparr>"
  have e: "clearUnusedThreadCache c w = Inr ?w"
    using destroy_loop [OF d ps un1] by (simp add: clearUnusedThreadCache_def un)
  have po: "pool_of ?w = (pool_of w)(c := Map.empty)" by (auto simp: fun_eq_iff pool_of_def)
  have f: "free_in ?w e u = (if e = c then [] else free_in w e u)" for e u by (simp add: free_in_def pool_of_def)
  have "heap_inv ?w used"
    unfolding heap_inv_def
  proof (intro conjI allI impI)
    show "distinct (map fst (pw_cache ?w e))" "distinct (free_in ?w e u)" for e u
      using assms by (simp_all add: heap_inv_def f)
    show "x \<in> pw_live ?w" "used x = None" if "x \<in> set (free_in ?w e u)" for e u x
    proof -
      from that have x: "x \<in> set (free_in w e u)" "e \<noteq> c" by (auto simp: f split: if_splits)
      then have "x \<notin> set (free_in w c t)" for t using assms unfolding heap_inv_def by metis
      with x assms show "x \<in> pw_live ?w" "used x = None" by (auto simp: heap_inv_def)
    qed
    show "e = e'" "u = u'" if "x \<in> set (free_in ?w e u)" "x \<in> set (free_in ?w e' u')" for e u e' u' x
    proof -
      from that have "x \<in> set (free_in w e u)" "x \<in> set (free_in w e' u')" by (auto simp: f split: if_splits)
      with assms show "e = e'" "u = u'" unfolding heap_inv_def by metis+
    qed
    show "x \<in> pw_live ?w" if "used x \<noteq> None" for x
    proof -
      have "x \<notin> set (free_in w c t)" for t using that assms unfolding heap_inv_def by metis
      with that assms show ?thesis by (simp add: heap_inv_def)
    qed
  qed
  with e po show ?thesis by simp
qed

lemma clear_then_end:
  assumes "caches_inv w used" "pool_of w c t \<noteq> None" "clearUnusedThreadCache c w = Inr w'"
  shows "beforeDestroyThread t w' = Inl AssertFailed"
proof -
  have "heap_inv w used" using assms(1) by (simp add: caches_inv_def)
  from clear_heap [OF this, of c] assms(3) have w': "heap_inv w' used"
      "pool_of w' = (pool_of w)(c := Map.empty)" "pw_listeners w' = pw_listeners w" by auto
  have li: "distinct (agents_of w t)" "set (agents_of w t) = Some ` {d. pool_of w d t \<noteq> None}"
    using assms(1) by (auto simp: caches_inv_def listeners_inv_def)
  with assms(2) have "Some c \<in> set (agents_of w t)" by auto
  then obtain l where "l \<in> set (listeners_of w t)" "lst_agent l = Some c" by (auto simp: agents_of_def)
  then obtain as bs where ls: "listeners_of w t = as @ l # bs" "lst_agent l = Some c" by (metis split_list)
  have ag: "agents_of w t = map lst_agent as @ Some c # map lst_agent bs" using ls by (simp add: agents_of_def)
  show ?thesis
  proof (rule thread_end_fails [OF w'(1) _ ls(2)])
    show "pw_listeners w' (pid_key t) = Some (as @ l # bs)" unfolding w'(3) by (rule listeners_of_Some) (simp_all add: ls)
    show "distinct (map lst_agent as)" using li(1) by (simp add: ag)
    show "\<forall>a \<in> set (map lst_agent as). \<exists>d. a = Some d \<and> pool_of w' d t \<noteq> None"
    proof
      fix a assume a: "a \<in> set (map lst_agent as)"
      then have "a \<in> set (agents_of w t)" unfolding ag by (metis UnI1 set_append)
      then have "a \<in> Some ` {d. pool_of w d t \<noteq> None}" by (simp only: li(2))
      moreover have "Some c \<notin> set (map lst_agent as)" using li(1) unfolding ag distinct_append by auto
      with a have "a \<noteq> Some c" by blast
      ultimately show "\<exists>d. a = Some d \<and> pool_of w' d t \<noteq> None" by (auto simp: w'(2))
    qed
    show "pool_of w' c t = None \<or> Some c \<in> set (map lst_agent as)" by (simp add: w'(2))
  qed
qed

text \<open>An object given back after its thread has ended goes into a new pool that never counted it.\<close>

lemma late_release:
  assumes "caches_inv w used" "used x \<noteq> None" "pool_of w c t = None" "t \<noteq> - 1"
  shows "\<exists>w' p. ts_shared_deleter c self clock True (Some x, t) w = Inr w' \<and> caches_inv w' (used(x := None))
    \<and> pool_of w' c t = Some p \<and> countActive p = - 1 \<and> x \<in> pw_live w'"
proof -
  obtain r v where g: "getThreadCache c self clock True t w = (r, v)" "cache_insert c clock True t w = (r, v)"
    using assms(3,4) by (cases "cache_insert c clock True t w") (simp add: getThreadCache_def pool_of_def)
  note v = cache_insert_new [OF assms(1,3) g(2)]
  have some: "pool_of v c t = Some pool_new" by (simp add: v(3))
  let ?m = "\<lambda>p live. rbind (pool_release p (Some x)) (\<lambda>p. Inr ((), p, live))"
  have m: "?m pool_new (pw_live v) = Inr ((), \<lparr>pool_count = 0, pool_stack = [x]\<rparr>, pw_live v)"
    by (simp add: pool_release_def pool_new_def)
  from on_cache_eq [where call = ?m, OF some m] obtain w' where
    w': "on_cache c (Some t) ?m v = Inr ((), w')"
      "pool_of w' = (pool_of v)(c := (pool_of v c)(t \<mapsto> \<lparr>pool_count = 0, pool_stack = [x]\<rparr>))" by blast
  have d: "ts_shared_deleter c self clock True (Some x, t) w = Inr w'"
    by (simp add: ts_shared_deleter_def g(1) v(1) w'(1))
  with ts_release_inv(2) [OF assms(1,2) refl, of c self clock t] have inv: "caches_inv w' (used(x := None))"
    by (metis sum.inject(2))
  have p: "pool_of w' c t = Some \<lparr>pool_count = 0, pool_stack = [x]\<rparr>" by (simp add: w'(2))
  then have "x \<in> set (free_in w' c t)" by (simp add: free_in_def)
  with inv have "x \<in> pw_live w'" unfolding caches_inv_def heap_inv_def by metis
  with d inv p show ?thesis by (auto simp: countActive_def countInactive_def)
qed

section \<open>Any number of calls\<close>

text \<open>
  The states any threads reach: they take objects, give each one back once, through the pointer
  they got it in, and end. The allocator returns no address that is in use.
\<close>

inductive pool_reach :: "'a pool_world \<Rightarrow> 'a used \<Rightarrow> bool" where
  start: "pool_reach (world_new live) Map.empty"
| take_one: "pool_reach w used \<Longrightarrow> fresh \<notin> pw_live w \<Longrightarrow>
    ts_get_shared c self clock True (Some fresh) w = Inr ((Some x, self), w') \<Longrightarrow>
    pool_reach w' (used(x \<mapsto> (c, self)))"
| give_back: "pool_reach w used \<Longrightarrow> used x = Some (c, t) \<Longrightarrow>
    ts_shared_deleter c self clock True (Some x, t) w = Inr w' \<Longrightarrow> pool_reach w' (used(x := None))"
| thread_ends: "pool_reach w used \<Longrightarrow> beforeDestroyThread t w = Inr w' \<Longrightarrow> pool_reach w' used"

lemma reach_caches_inv: "pool_reach w used \<Longrightarrow> caches_inv w used"
proof (induction rule: pool_reach.induct)
  case (start live)
  show ?case by (rule caches_inv_new)
next
  case (take_one w used fresh c self clock x w')
  from ts_get_inv(2) [OF take_one.IH take_one.hyps(2), of c self clock] take_one.hyps(3)
  show ?case by (metis option.inject prod.inject sum.inject(2))
next
  case (give_back w used x c t self clock w')
  then have "used x \<noteq> None" by simp
  from ts_release_inv(2) [OF give_back.IH this refl, of c self clock t] give_back.hyps(3)
  show ?case by (metis sum.inject(2))
next
  case (thread_ends w used t w')
  from beforeDestroyThread_inv [OF thread_ends.IH, of t] thread_ends.hyps(2) show ?case by auto
qed

section \<open>Properties\<close>



text \<open>A thread that ends drops its own pools and no other: exactly the objects free in them are
  deleted, and it passes the assertion on the way. After \<open>clearUnusedThreadCache\<close> has run for a
  container that kept a pool for it, it does not, because its listener is still registered.\<close>

theorem thread_end_drops_its_pool:
  assumes "caches_inv w used"
  shows "(\<exists>w'. beforeDestroyThread t w = Inr w' \<and> caches_inv w' used
      \<and> pool_of w' = (\<lambda>c u. if u = t then None else pool_of w c u)
      \<and> pw_live w' = pw_live w - (\<Union>c. set (free_in w c t)))
    \<and> (\<forall>c. pool_of w c t \<noteq> None \<longrightarrow> (\<exists>w'. clearUnusedThreadCache c w = Inr w'
        \<and> beforeDestroyThread t w' = Inl AssertFailed))"
  using beforeDestroyThread_inv [OF assms, of t] clear_heap [of w used] clear_then_end [OF assms] assms
  unfolding caches_inv_def by metis

lemma thread_end_drops_its_pool_witness:
  "\<exists>w'. beforeDestroyThread 5 (world_new {1 :: nat}) = Inr w' \<and> pw_live w' = {1}"
  using thread_end_drops_its_pool [OF caches_inv_new, of 5 "{1 :: nat}"]
  by (auto simp: world_new_def free_in_def pool_of_def)

text \<open>Two threads with one id (on Linux all of them: the id is the process id) that both find no pool for
  it register two listeners for the one pool, and the first of them to end fails the assertion.\<close>

theorem same_id_race_asserts:
  assumes "caches_inv w used" "pool_of w c t = None"
  shows "\<exists>w1 w2. cache_insert c clock True t w = (Some t, w1) \<and> cache_insert c clock' True t w1 = (Some t, w2)
    \<and> pool_of w2 = pool_of w1 \<and> beforeDestroyThread t w2 = Inl AssertFailed"
proof -
  obtain r w1 r' w2 where c: "cache_insert c clock True t w = (r, w1)" "cache_insert c clock' True t w1 = (r', w2)"
    by (metis surj_pair)
  from cache_insert_new(1) [OF assms c(1)] insert_race [OF assms c] c show ?thesis by auto
qed

lemma same_id_race_asserts_witness:
  "\<exists>w1 w2. cache_insert 0 1 True 9 (world_new {} :: nat pool_world) = (Some 9, w1)
    \<and> cache_insert 0 2 True 9 w1 = (Some 9, w2) \<and> beforeDestroyThread 9 w2 = Inl AssertFailed"
  using same_id_race_asserts [OF caches_inv_new, of "{}" 0 9 1 2] by (auto simp: world_new_def pool_of_def)

text \<open>An object given back after the thread that took it has ended revives the thread's pool, which then
  counts one object less than none, and with it the listener of a thread that is gone.\<close>

theorem late_release_miscounts:
  assumes "caches_inv w used" "used x \<noteq> None" "t \<noteq> - 1"
  shows "\<exists>w1 w2 p. beforeDestroyThread t w = Inr w1
    \<and> ts_shared_deleter c self clock True (Some x, t) w1 = Inr w2
    \<and> pool_of w2 c t = Some p \<and> countActive p = - 1 \<and> x \<in> pw_live w2 \<and> Some c \<in> set (agents_of w2 t)"
proof -
  from beforeDestroyThread_inv [OF assms(1), of t] obtain w1 where
    w1: "beforeDestroyThread t w = Inr w1" "caches_inv w1 used" "pool_of w1 c t = None" by auto
  from late_release [OF w1(2) assms(2) w1(3) assms(3), of self clock] obtain w2 p where
    w2: "ts_shared_deleter c self clock True (Some x, t) w1 = Inr w2" "caches_inv w2 (used(x := None))"
      "pool_of w2 c t = Some p" "countActive p = - 1" "x \<in> pw_live w2" by blast
  have "Some c \<in> set (agents_of w2 t)" using w2(2,3) by (auto simp: caches_inv_def listeners_inv_def)
  with w1(1) w2 show ?thesis by blast
qed

lemma late_release_miscounts_witness:
  "\<exists>x w w1 w2 p. ts_get_shared 0 7 0 True (Some (5 :: nat)) (world_new {}) = Inr ((Some x, 7), w)
    \<and> beforeDestroyThread 7 w = Inr w1 \<and> ts_shared_deleter 0 8 0 True (Some x, 7) w1 = Inr w2
    \<and> pool_of w2 0 7 = Some p \<and> countActive p = - 1"
proof -
  have "(5 :: nat) \<notin> pw_live (world_new {})" by (simp add: world_new_def)
  from ts_get_inv(2) [OF caches_inv_new this, of 0 7 0] obtain x w where
    w: "ts_get_shared 0 7 0 True (Some (5 :: nat)) (world_new {}) = Inr ((Some x, 7), w)"
      "caches_inv w [x \<mapsto> (0, 7)]" by auto
  from late_release_miscounts [OF w(2), of x 7 0 8 0] w(1) show ?thesis by auto
qed

end
