(* ===== verification/Async_Job.thy ===== *)
theory Async_Job
  imports Prelude
begin

text \<open>
  \<open>async_job.h\<close> and \<open>async_job.cpp\<close>: an executor is \<open>n\<close> strands served by \<open>n\<close> threads; a job
  agent draws a number when it is taken from its pool and posts to the strand that number
  selects. How an executor comes to its end is in \<open>Executor_Life\<close>, where agents come from in
  \<open>Job_Agents\<close>. The counter \<open>_sc\<close> behind the numbers is a static \<open>uint32_t\<close> that starts at 1.
  The strands themselves are Asio's: tasks posted to one strand run one at a time, in the
  order they were posted.
\<close>

datatype exec_thread = Running | Finished

record job_executor =
  je_strand_num :: u64
  je_stopped :: bool
  je_threads :: "exec_thread list"

definition executor_new :: "u64 \<Rightarrow> job_executor" where
  "executor_new n = \<lparr>je_strand_num = n, je_stopped = False, je_threads = []\<rparr>"

text \<open>\<open>start\<close> adds one thread per strand, each running the context until that is stopped.\<close>

definition executor_start :: "job_executor \<Rightarrow> job_executor" where
  "executor_start e = e\<lparr>je_threads := je_threads e @ replicate (unat (je_strand_num e)) Running\<rparr>"

definition executor_stop :: "job_executor \<Rightarrow> job_executor" where
  "executor_stop e = e\<lparr>je_stopped := True\<rparr>"

text \<open>The strand of a user id: \<open>hash_n\<close> divides by the number of strands.\<close>

definition strand_to_run :: "job_executor \<Rightarrow> u64 \<Rightarrow> nat res" where
  "strand_to_run e user_id =
     (if je_strand_num e = 0 then Inl DivByZero
      else Inr (unat (user_id mod je_strand_num e)))"

text \<open>\<open>reset\<close> of an agent: the clock plus the low 17 bits of the counter, which it advances.\<close>

definition agent_reset :: "u64 \<Rightarrow> u32 \<Rightarrow> u64 \<times> u32" where
  "agent_reset clock sc = (clock + ucast (drop_bit 15 (push_bit 15 sc)), sc + 1)"

definition agent_strand :: "job_executor \<Rightarrow> u64 \<Rightarrow> nat res" where
  "agent_strand e uuid = strand_to_run e uuid"

lemma shift_17: "drop_bit 15 (push_bit 15 sc) = take_bit 17 (sc :: u32)"
  by (rule bit_word_eqI) (auto simp: bit_simps)

lemma strand_in_range:
  assumes "je_strand_num e \<noteq> 0"
  shows "\<exists>i. agent_strand e u = Inr i \<and> i < unat (je_strand_num e)"
proof -
  have "0 < unat (je_strand_num e)" using assms by (simp add: unat_gt_0)
  then show ?thesis using assms by (simp add: agent_strand_def strand_to_run_def unat_mod)
qed

text \<open>Agents reset while the clock stands still differ, up to 2^17 of them.\<close>

lemma agent_reset_distinct:
  assumes "fst (agent_reset clock sc) = fst (agent_reset clock sc')"
  shows "take_bit 17 sc = take_bit 17 sc'"
proof -
  from assms have "(ucast (take_bit 17 sc) :: u64) = ucast (take_bit 17 sc')"
    by (simp add: agent_reset_def shift_17)
  then have "unat (ucast (take_bit 17 sc) :: u64) = unat (ucast (take_bit 17 sc') :: u64)" by simp
  then have "unat (take_bit 17 sc) = unat (take_bit 17 sc')" by (simp add: unat_ucast_up)
  then show ?thesis by (simp only: word_unat_eq_iff)
qed

section \<open>Properties\<close>

text \<open>The strand an agent runs on exists, for any number drawn.\<close>

theorem agent_strand_exists:
  assumes "je_strand_num e \<noteq> 0"
  shows "\<exists>i. agent_strand e u = Inr i \<and> i < unat (je_strand_num e)"
  using assms by (rule strand_in_range)

lemma agent_strand_exists_witness: "\<exists>i. agent_strand (executor_new 4) 11 = Inr i \<and> i < 4"
  using agent_strand_exists [of "executor_new 4" 11] by (simp add: executor_new_def)

end
