(* ===== verification/Executor_Life.thy ===== *)
theory Executor_Life
  imports Async_Job
begin

text \<open>
  The end of an executor (\<open>async_job.cpp\<close>). It is shared: its owners hold it, and so does the
  closure of every thread it started until that thread ends. The destructor runs where the last
  of them lets go; it stops the context and joins every thread. The model follows one executor
  through any interleaving of its owners and its threads.
\<close>

section \<open>The destructor\<close>

text \<open>
  A thread that joins itself gets a \<open>system_error\<close>, which may not leave a destructor: the process
  is terminated. \<open>self\<close> is the number of the thread among those of the executor, if it is one.
\<close>

definition join_thread :: "nat option \<Rightarrow> nat \<Rightarrow> exec_thread list \<Rightarrow> exec_thread list res" where
  "join_thread self i ts = (if self = Some i then Inl Aborted else arr_set ts i Finished)"

definition executor_destroy :: "nat option \<Rightarrow> job_executor \<Rightarrow> job_executor res" where
  "executor_destroy self e =
     (let e = executor_stop e in
      rbind (rfold (join_thread self) [0..<length (je_threads e)] (je_threads e)) (\<lambda>ts.
      Inr (e\<lparr>je_threads := ts\<rparr>)))"

section \<open>Owners and threads\<close>

datatype fate = Alive | Destroyed | Crashed

record exec_life =
  lf_executor :: job_executor
  lf_owners :: nat
  lf_fate :: fate

definition life_new :: "u64 \<Rightarrow> exec_life" where
  "life_new n = \<lparr>lf_executor = executor_new n, lf_owners = 1, lf_fate = Alive\<rparr>"

definition running :: "job_executor \<Rightarrow> nat" where
  "running e = length (filter (\<lambda>t. t = Running) (je_threads e))"

definition references :: "exec_life \<Rightarrow> nat" where
  "references s = lf_owners s + running (lf_executor s)"

text \<open>A reference is gone; \<open>self\<close> says who let go.\<close>

definition let_go :: "nat option \<Rightarrow> exec_life \<Rightarrow> exec_life" where
  "let_go self s =
     (if references s \<noteq> 0 then s
      else case executor_destroy self (lf_executor s) of
          Inl _ \<Rightarrow> s\<lparr>lf_fate := Crashed\<rparr>
        | Inr e \<Rightarrow> s\<lparr>lf_executor := e, lf_fate := Destroyed\<rparr>)"

definition set_thread :: "nat \<Rightarrow> exec_thread \<Rightarrow> exec_life \<Rightarrow> exec_life" where
  "set_thread i t s = s\<lparr>lf_executor := (lf_executor s)\<lparr>je_threads := (je_threads (lf_executor s))[i := t]\<rparr>\<rparr>"

text \<open>
  Whoever holds a reference copies it, starts and stops; an owner drops its reference; a thread
  returns from \<open>run\<close> only when the context is stopped, because the \<open>work\<close> object keeps it busy, and
  its closure with the reference is destroyed on the thread itself.
\<close>

inductive life_step :: "exec_life \<Rightarrow> exec_life \<Rightarrow> bool" where
  share: "lf_fate s = Alive \<Longrightarrow> references s > 0 \<Longrightarrow> life_step s (s\<lparr>lf_owners := lf_owners s + 1\<rparr>)"
| start: "lf_fate s = Alive \<Longrightarrow> references s > 0 \<Longrightarrow>
    life_step s (s\<lparr>lf_executor := executor_start (lf_executor s)\<rparr>)"
| stop: "lf_fate s = Alive \<Longrightarrow> references s > 0 \<Longrightarrow>
    life_step s (s\<lparr>lf_executor := executor_stop (lf_executor s)\<rparr>)"
| drop: "lf_fate s = Alive \<Longrightarrow> lf_owners s = Suc n \<Longrightarrow> life_step s (let_go None (s\<lparr>lf_owners := n\<rparr>))"
| finish: "lf_fate s = Alive \<Longrightarrow> je_stopped (lf_executor s) \<Longrightarrow> i < length (je_threads (lf_executor s)) \<Longrightarrow>
    je_threads (lf_executor s) ! i = Running \<Longrightarrow> life_step s (let_go (Some i) (set_thread i Finished s))"

inductive life_reach :: "u64 \<Rightarrow> exec_life \<Rightarrow> bool" for n where
  init: "life_reach n (life_new n)"
| step: "life_reach n s \<Longrightarrow> life_step s s' \<Longrightarrow> life_reach n s'"

inductive_cases life_stepE: "life_step s s'"

section \<open>What the destructor meets\<close>

lemma join_others:
  "(\<forall>i \<in> set is. self \<noteq> Some i \<and> i < length ts) \<Longrightarrow> \<exists>ts'. rfold (join_thread self) is ts = Inr ts'
     \<and> length ts' = length ts \<and> (\<forall>i < length ts. ts' ! i = (if i \<in> set is then Finished else ts ! i))"
proof (induction "is" arbitrary: ts)
  case (Cons i "is")
  then have "\<forall>j \<in> set is. self \<noteq> Some j \<and> j < length (ts[i := Finished])" by simp
  from Cons.IH [OF this] obtain ts' where "rfold (join_thread self) is (ts[i := Finished]) = Inr ts'"
      "length ts' = length ts"
      "\<forall>j < length ts. ts' ! j = (if j \<in> set is then Finished else ts[i := Finished] ! j)" by auto
  moreover have "join_thread self i ts = Inr (ts[i := Finished])"
    using Cons.prems by (simp add: join_thread_def)
  ultimately show ?case using Cons.prems by (intro exI [of _ ts']) auto
qed simp

lemma join_self:
  "i \<in> set is \<Longrightarrow> \<forall>j \<in> set is. j < length ts \<Longrightarrow> rfold (join_thread (Some i)) is ts = Inl Aborted"
proof (induction "is" arbitrary: ts)
  case (Cons j "is")
  then show ?case by (cases "j = i") (auto simp: join_thread_def)
qed simp

lemma executor_destroy_other: "\<exists>e'. executor_destroy None e = Inr e' \<and> je_stopped e'
    \<and> Running \<notin> set (je_threads e') \<and> je_strand_num e' = je_strand_num e"
proof -
  have "\<forall>i \<in> set [0..<length (je_threads e)]. None \<noteq> Some i \<and> i < length (je_threads e)" by auto
  from join_others [OF this] show ?thesis
    by (auto simp: executor_destroy_def executor_stop_def in_set_conv_nth)
qed

lemma executor_destroy_self: "i < length (je_threads e) \<Longrightarrow> executor_destroy (Some i) e = Inl Aborted"
  by (simp add: executor_destroy_def executor_stop_def join_self)

lemma running_0: "running e = 0 \<longleftrightarrow> Running \<notin> set (je_threads e)"
  by (auto simp: running_def filter_empty_conv)

lemma running_all: "Finished \<notin> set (je_threads e) \<Longrightarrow> running e = length (je_threads e)"
  unfolding running_def by (induction "je_threads e" arbitrary: e)
    (metis (mono_tags) exec_thread.exhaust filter_True)+

lemma running_finish:
  "i < length (je_threads e) \<Longrightarrow> je_threads e ! i = Running \<Longrightarrow>
   running e = Suc (running (e\<lparr>je_threads := (je_threads e)[i := Finished]\<rparr>))"
proof -
  have "length (filter (\<lambda>t. t = Running) ts) = Suc (length (filter (\<lambda>t. t = Running) (ts[i := Finished])))"
    if "i < length ts" "ts ! i = Running" for ts i
    using that by (induction ts arbitrary: i) (auto simp: nth_Cons split: nat.splits)
  then show "i < length (je_threads e) \<Longrightarrow> je_threads e ! i = Running \<Longrightarrow>
    running e = Suc (running (e\<lparr>je_threads := (je_threads e)[i := Finished]\<rparr>))" by (simp add: running_def)
qed

lemma let_go_cases:
  "references s \<noteq> 0 \<Longrightarrow> let_go self s = s"
  "references s = 0 \<Longrightarrow> lf_fate (let_go None s) = Destroyed"
  "references s = 0 \<Longrightarrow> i < length (je_threads (lf_executor s)) \<Longrightarrow> let_go (Some i) s = s\<lparr>lf_fate := Crashed\<rparr>"
  using executor_destroy_other [of "lf_executor s"] executor_destroy_self
  by (auto simp: let_go_def)

text \<open>Until it is stopped every thread is running, and so holds the executor.\<close>

definition life_inv :: "exec_life \<Rightarrow> bool" where
  "life_inv s \<longleftrightarrow> (\<not> je_stopped (lf_executor s) \<longrightarrow>
      lf_fate s = Destroyed \<or> Finished \<notin> set (je_threads (lf_executor s)))
    \<and> (lf_fate s = Alive \<longrightarrow> references s > 0)
    \<and> (lf_fate s \<noteq> Alive \<longrightarrow> lf_owners s = 0 \<and> running (lf_executor s) = 0)
    \<and> (lf_fate s = Destroyed \<longrightarrow> je_stopped (lf_executor s))
    \<and> (lf_fate s = Crashed \<longrightarrow> je_threads (lf_executor s) \<noteq> [])"

lemma life_inv_new: "life_inv (life_new n)"
  by (simp add: life_inv_def life_new_def executor_new_def references_def)

lemma life_inv_step: "life_step s s' \<Longrightarrow> life_inv s \<Longrightarrow> life_inv s'"
proof (induction rule: life_step.induct)
  case (drop s n)
  show ?case
  proof (cases "references (s\<lparr>lf_owners := n\<rparr>) = 0")
    case True
    obtain e where e: "executor_destroy None (lf_executor s) = Inr e" "je_stopped e"
        "Running \<notin> set (je_threads e)" using executor_destroy_other by blast
    have "let_go None (s\<lparr>lf_owners := n\<rparr>) = s\<lparr>lf_owners := n, lf_executor := e, lf_fate := Destroyed\<rparr>"
      using True e(1) by (simp add: let_go_def)
    moreover have "n = 0" using True by (simp add: references_def)
    ultimately show ?thesis using e(2,3) by (simp add: life_inv_def running_0)
  next
    case False
    with drop show ?thesis by (auto simp: let_go_cases(1) life_inv_def)
  qed
next
  case (finish s i)
  let ?s = "set_thread i Finished s"
  show ?case
  proof (cases "references ?s = 0")
    case True
    then have "let_go (Some i) ?s = ?s\<lparr>lf_fate := Crashed\<rparr>"
      using finish.hyps(3) by (simp add: let_go_cases(3) set_thread_def)
    then show ?thesis using True finish.hyps by (auto simp: life_inv_def set_thread_def references_def)
  next
    case False
    with finish show ?thesis by (auto simp: let_go_cases(1) life_inv_def set_thread_def)
  qed
qed (auto simp: life_inv_def references_def executor_start_def executor_stop_def running_def)

lemma life_reach_inv: "life_reach n s \<Longrightarrow> life_inv s"
  by (induction rule: life_reach.induct) (auto intro: life_inv_new life_inv_step)

section \<open>Properties\<close>

text \<open>An executor that was started lives until somebody stops it: no interleaving of its owners and
  threads destroys it before, so \<open>stop\<close> in the destructor of a started executor comes too late.\<close>

theorem started_lives_until_stopped:
  assumes "life_reach n s" "je_threads (lf_executor s) \<noteq> []" "\<not> je_stopped (lf_executor s)"
  shows "lf_fate s = Alive \<and> references s \<ge> length (je_threads (lf_executor s))
    \<and> (\<forall>s'. life_step s s' \<longrightarrow> lf_fate s' = Alive)"
proof -
  have inv: "life_inv s" by (rule life_reach_inv [OF assms(1)])
  have nd: "lf_fate s \<noteq> Destroyed" using inv assms(3) unfolding life_inv_def by blast
  then have all: "Finished \<notin> set (je_threads (lf_executor s))"
    using inv assms(3) unfolding life_inv_def by blast
  then have r: "running (lf_executor s) = length (je_threads (lf_executor s))" by (rule running_all)
  then have "running (lf_executor s) \<noteq> 0" using assms(2) by simp
  then have a: "lf_fate s = Alive" using inv by (auto simp: life_inv_def)
  have "lf_fate s' = Alive" if "life_step s s'" for s'
    using that
  proof (cases rule: life_step.cases)
    case (drop m)
    then show ?thesis using r assms(2) a by (simp add: let_go_cases(1) references_def)
  qed (use a assms(3) in simp_all)
  with a r show ?thesis by (simp add: references_def)
qed

lemma started_lives_until_stopped_witness:
  "\<exists>s. life_reach 2 s \<and> lf_owners s = 0 \<and> lf_fate s = Alive \<and> (\<forall>s'. life_step s s' \<longrightarrow> lf_fate s' = Alive)"
proof -
  have two: "replicate 2 Running = [Running, Running]" by (simp add: numeral_2_eq_2)
  let ?a = "life_new 2"
  let ?b = "?a\<lparr>lf_executor := executor_start (lf_executor ?a)\<rparr>"
  let ?c = "let_go None (?b\<lparr>lf_owners := 0\<rparr>)"
  have "life_step ?a ?b" by (rule life_step.start) (simp_all add: life_new_def references_def)
  moreover have "life_step ?b ?c" by (rule life_step.drop) (simp_all add: life_new_def)
  ultimately have r: "life_reach 2 ?c" by (blast intro: life_reach.intros)
  have c: "lf_owners ?c = 0" "je_threads (lf_executor ?c) = [Running, Running]" "\<not> je_stopped (lf_executor ?c)"
    by (simp_all add: let_go_def references_def running_def life_new_def executor_new_def executor_start_def two)
  from started_lives_until_stopped [OF r] c(2,3) have "lf_fate ?c = Alive \<and> (\<forall>s'. life_step ?c s' \<longrightarrow> lf_fate s' = Alive)"
    by simp
  with r c(1) show ?thesis by blast
qed



end
