(* ===== verification/Job_Agents.thy ===== *)
theory Job_Agents
  imports Async_Job Thread_Cache
begin

text \<open>
  Job agents and the pool they come from (\<open>JOB_AGENT\<close> of \<open>async_job.h\<close>): an agent is taken from
  the thread safe pool and reset. The constructor, which stores the executor, runs only when the
  pool has to allocate.
\<close>

section \<open>Agents\<close>

text \<open>An executor is a number; \<open>ag_objects\<close> holds the agents by address, \<open>ag_sc\<close> the static counter.\<close>

record job_agent =
  ja_uuid :: u64
  ja_owner :: nat

record agents_env =
  ag_world :: "nat pool_world"
  ag_objects :: "nat \<rightharpoonup> job_agent"
  ag_sc :: u32

definition JOB_AGENT_POOL :: nat where
  "JOB_AGENT_POOL = 0"

text \<open>The constructor leaves \<open>_uuid\<close> as it finds it: \<open>garbage\<close>.\<close>

definition job_agent_new :: "u64 \<Rightarrow> nat \<Rightarrow> job_agent" where
  "job_agent_new garbage excutor = \<lparr>ja_uuid = garbage, ja_owner = excutor\<rparr>"

definition job_agent_reset :: "u64 \<Rightarrow> nat \<Rightarrow> agents_env \<Rightarrow> agents_env res" where
  "job_agent_reset clock a e =
     (case ag_objects e a of
        None \<Rightarrow> Inl NullDeref
      | Some agent \<Rightarrow>
          (let (uuid, sc) = agent_reset clock (ag_sc e) in
           Inr (e\<lparr>ag_objects := (ag_objects e)(a \<mapsto> agent\<lparr>ja_uuid := uuid\<rparr>), ag_sc := sc\<rparr>)))"

text \<open>
  \<open>JOB_AGENT(excutor)\<close>: the pointer it returns is the address with the thread that took it. An
  address that was not in use before is a new object, and only then the constructor runs.
\<close>

definition JOB_AGENT ::
  "i32 \<Rightarrow> u64 \<Rightarrow> u64 \<Rightarrow> nat option \<Rightarrow> nat \<Rightarrow> agents_env \<Rightarrow> ((nat \<times> i32) \<times> agents_env) res" where
  "JOB_AGENT self clock garbage fresh excutor e =
     rbind (ts_get_shared JOB_AGENT_POOL self clock True fresh (ag_world e)) (\<lambda>((x, pid), w).
     case x of None \<Rightarrow> Inl NullDeref
     | Some a \<Rightarrow>
         let constructed = (a \<notin> pw_live (ag_world e));
             e = e\<lparr>ag_world := w,
               ag_objects := (if constructed then (ag_objects e)(a \<mapsto> job_agent_new garbage excutor)
                              else ag_objects e)\<rparr>
         in rbind (job_agent_reset clock a e) (\<lambda>e. Inr ((a, pid), e)))"

text \<open>The last copy of the pointer goes out of scope, on any thread.\<close>

definition agent_deleter :: "i32 \<Rightarrow> u64 \<Rightarrow> nat \<times> i32 \<Rightarrow> agents_env \<Rightarrow> agents_env res" where
  "agent_deleter self clock = (\<lambda>(a, pid) e.
     rbind (ts_shared_deleter JOB_AGENT_POOL self clock True (Some a, pid) (ag_world e)) (\<lambda>w.
     Inr (e\<lparr>ag_world := w\<rparr>)))"

definition job_agent_uuid :: "nat \<Rightarrow> agents_env \<Rightarrow> u64 res" where
  "job_agent_uuid a e = (case ag_objects e a of None \<Rightarrow> Inl NullDeref | Some agent \<Rightarrow> Inr (ja_uuid agent))"

text \<open>The strand of an agent: which executor it is of, and its number there.\<close>

definition agent_strand_to_run :: "(nat \<Rightarrow> job_executor) \<Rightarrow> nat \<Rightarrow> agents_env \<Rightarrow> (nat \<times> nat) res" where
  "agent_strand_to_run executors a e =
     (case ag_objects e a of
        None \<Rightarrow> Inl NullDeref
      | Some agent \<Rightarrow> rbind (agent_strand (executors (ja_owner agent)) (ja_uuid agent)) (\<lambda>i.
          Inr (ja_owner agent, i)))"

section \<open>Taking, giving back, taking again\<close>

text \<open>Every allocated agent has been constructed.\<close>

definition agents_inv :: "agents_env \<Rightarrow> nat used \<Rightarrow> bool" where
  "agents_inv e used \<longleftrightarrow> caches_inv (ag_world e) used
     \<and> (\<forall>c t a. a \<in> set (free_in (ag_world e) c t) \<longrightarrow> ag_objects e a \<noteq> None)
     \<and> (\<forall>a. used a \<noteq> None \<longrightarrow> ag_objects e a \<noteq> None)"

lemma agents_inv_new:
  "agents_inv \<lparr>ag_world = world_new live, ag_objects = Map.empty, ag_sc = sc\<rparr> Map.empty"
  using caches_inv_new by (simp add: agents_inv_def world_new_def free_in_def pool_of_def)

lemma agent_deleter_inv:
  assumes "agents_inv e used" "used a = Some (c, t)" "t \<noteq> - 1"
  shows "\<exists>e'. agent_deleter self clock (a, t) e = Inr e' \<and> agents_inv e' (used(a := None))
    \<and> ag_objects e' = ag_objects e \<and> pw_live (ag_world e') = pw_live (ag_world e)
    \<and> free_in (ag_world e') JOB_AGENT_POOL t = a # free_in (ag_world e) JOB_AGENT_POOL t"
proof -
  have inv: "caches_inv (ag_world e) used" "used a \<noteq> None" using assms(1,2) by (simp_all add: agents_inv_def)
  have t: "t = (if t = - 1 then self else t)" using assms(3) by simp
  from ts_release_inv(2) [OF inv t, of JOB_AGENT_POOL clock] obtain w where
    w: "ts_shared_deleter JOB_AGENT_POOL self clock True (Some a, t) (ag_world e) = Inr w"
      "caches_inv w (used(a := None))" "pw_live w = pw_live (ag_world e)"
      "free_in w = (free_in (ag_world e))(JOB_AGENT_POOL := (free_in (ag_world e) JOB_AGENT_POOL)
        (t := a # free_in (ag_world e) JOB_AGENT_POOL t))" by blast
  have "agents_inv (e\<lparr>ag_world := w\<rparr>) (used(a := None))"
    using assms(1) inv(2) w(2) by (auto simp: agents_inv_def w(4) split: if_splits)
  with w show ?thesis by (simp add: agent_deleter_def)
qed

text \<open>Who owns the agent that is handed out: the executor asked for if it is new, else the one it was
  constructed with.\<close>

lemma JOB_AGENT_inv:
  assumes "agents_inv e used" "fresh \<notin> pw_live (ag_world e)"
  shows "\<exists>a e'. JOB_AGENT self clock garbage (Some fresh) excutor e = Inr ((a, self), e') \<and> used a = None
    \<and> agents_inv e' (used(a \<mapsto> (JOB_AGENT_POOL, self)))
    \<and> a = (case free_in (ag_world e) JOB_AGENT_POOL self of [] \<Rightarrow> fresh | b # _ \<Rightarrow> b)
    \<and> map_option ja_owner (ag_objects e' a) = (case free_in (ag_world e) JOB_AGENT_POOL self of
         [] \<Rightarrow> Some excutor | b # _ \<Rightarrow> map_option ja_owner (ag_objects e b))
    \<and> map_option ja_uuid (ag_objects e' a) = Some (fst (agent_reset clock (ag_sc e)))
    \<and> pw_live (ag_world e') \<subseteq> insert fresh (pw_live (ag_world e))"
proof -
  have inv: "caches_inv (ag_world e) used" using assms(1) by (simp add: agents_inv_def)
  from ts_get_inv(2) [OF inv assms(2), of JOB_AGENT_POOL self clock] obtain a w where
    w: "ts_get_shared JOB_AGENT_POOL self clock True (Some fresh) (ag_world e) = Inr ((Some a, self), w)"
      "used a = None" "caches_inv w (used(a \<mapsto> (JOB_AGENT_POOL, self)))"
      "taken (ag_world e) JOB_AGENT_POOL self fresh a w" by blast
  let ?free = "free_in (ag_world e) JOB_AGENT_POOL self"
  let ?objects = "if a \<notin> pw_live (ag_world e) then (ag_objects e)(a \<mapsto> job_agent_new garbage excutor) else ag_objects e"
  obtain uuid sc where r: "agent_reset clock (ag_sc e) = (uuid, sc)" by (cases "agent_reset clock (ag_sc e)")
  have a: "a = (case ?free of [] \<Rightarrow> fresh | b # _ \<Rightarrow> b)"
    using w(4) by (simp add: taken_def split: list.splits)
  have sub: "set (free_in w c t) \<subseteq> set (free_in (ag_world e) c t)" for c t
    using w(4) by (auto simp: taken_def split: list.splits if_splits)
  have live: "b \<in> pw_live (ag_world e) \<and> ag_objects e b \<noteq> None" if "b \<in> set (free_in (ag_world e) c t)" for b c t
    using that assms(1) inv unfolding agents_inv_def caches_inv_def heap_inv_def by metis
  have old: "a \<in> pw_live (ag_world e) \<and> ag_objects e a \<noteq> None" if "?free = b # bs" for b bs
    using live [of b JOB_AGENT_POOL self] that by (simp add: a)
  obtain agent where ag: "?objects a = Some agent"
    "Some (ja_owner agent) = (case ?free of [] \<Rightarrow> Some excutor | b # _ \<Rightarrow> map_option ja_owner (ag_objects e b))"
  proof (cases ?free)
    case Nil
    with a assms(2) show ?thesis by (intro that [of "job_agent_new garbage excutor"]) (simp_all add: job_agent_new_def)
  next
    case (Cons b bs)
    from old [OF this] obtain agent where "a \<in> pw_live (ag_world e)" "ag_objects e a = Some agent" by auto
    with Cons a show ?thesis by (intro that [of agent]) simp_all
  qed
  let ?e = "e\<lparr>ag_world := w, ag_objects := ?objects(a \<mapsto> agent\<lparr>ja_uuid := uuid\<rparr>), ag_sc := sc\<rparr>"
  have e: "JOB_AGENT self clock garbage (Some fresh) excutor e = Inr ((a, self), ?e)"
    using ag(1) by (simp add: JOB_AGENT_def w(1) Let_def job_agent_reset_def r)
  have "agents_inv ?e (used(a \<mapsto> (JOB_AGENT_POOL, self)))"
    unfolding agents_inv_def
  proof (intro conjI allI impI)
    show "caches_inv (ag_world ?e) (used(a \<mapsto> (JOB_AGENT_POOL, self)))" using w(3) by simp
    show "ag_objects ?e b \<noteq> None" if "b \<in> set (free_in (ag_world ?e) c t)" for b c t
      using live [of b c t] sub [of c t] that by auto
    show "ag_objects ?e b \<noteq> None" if "(used(a \<mapsto> (JOB_AGENT_POOL, self))) b \<noteq> None" for b
      using that assms(1) by (auto simp: agents_inv_def split: if_splits)
  qed
  moreover have "pw_live w \<subseteq> insert fresh (pw_live (ag_world e))"
    using w(4) by (auto simp: taken_def split: list.splits)
  ultimately show ?thesis using e w(2) a ag(2) by (simp add: r)
qed

section \<open>Properties\<close>

text \<open>An agent that is given back and asked for again by the same thread, for another executor, still
  belongs to the executor it was first made for: its handlers run there.\<close>

theorem recycled_agent_keeps_executor:
  assumes "agents_inv e used" "used a = Some (JOB_AGENT_POOL, t)" "t \<noteq> - 1" "fresh \<notin> pw_live (ag_world e)"
  shows "\<exists>agent e1 e2. ag_objects e a = Some agent \<and> agent_deleter self clock (a, t) e = Inr e1
    \<and> JOB_AGENT t clock' garbage (Some fresh) excutor e1 = Inr ((a, t), e2)
    \<and> map_option ja_owner (ag_objects e2 a) = Some (ja_owner agent)
    \<and> (\<forall>executors i. agent_strand_to_run executors a e2 = Inr i \<longrightarrow> fst i = ja_owner agent)"
proof -
  have "used a \<noteq> None" using assms(2) by simp
  then have "ag_objects e a \<noteq> None" using assms(1) unfolding agents_inv_def by metis
  then obtain agent where ag: "ag_objects e a = Some agent" by auto
  from agent_deleter_inv [OF assms(1-3), of self clock] obtain e1 where
    e1: "agent_deleter self clock (a, t) e = Inr e1" "agents_inv e1 (used(a := None))"
      "ag_objects e1 = ag_objects e" "pw_live (ag_world e1) = pw_live (ag_world e)"
      "free_in (ag_world e1) JOB_AGENT_POOL t = a # free_in (ag_world e) JOB_AGENT_POOL t" by blast
  have "fresh \<notin> pw_live (ag_world e1)" using assms(4) e1(4) by simp
  from JOB_AGENT_inv [OF e1(2) this, of t clock' garbage excutor] e1(3,5) ag obtain e2 where
    e2: "JOB_AGENT t clock' garbage (Some fresh) excutor e1 = Inr ((a, t), e2)"
      "map_option ja_owner (ag_objects e2 a) = Some (ja_owner agent)" by auto
  then have "fst i = ja_owner agent" if "agent_strand_to_run executors a e2 = Inr i" for executors i
    using that by (auto simp: agent_strand_to_run_def rbind_eq_Inr)
  with ag e1(1) e2 show ?thesis by blast
qed

lemma recycled_agent_keeps_executor_witness:
  "\<exists>a e e1 e2. JOB_AGENT 7 100 0 (Some 5) 1 \<lparr>ag_world = world_new {}, ag_objects = Map.empty, ag_sc = 1\<rparr> = Inr ((a, 7), e)
    \<and> agent_deleter 7 101 (a, 7) e = Inr e1 \<and> JOB_AGENT 7 102 0 (Some 6) 2 e1 = Inr ((a, 7), e2)
    \<and> map_option ja_owner (ag_objects e2 a) = Some 1"
proof -
  let ?e = "\<lparr>ag_world = world_new {}, ag_objects = Map.empty, ag_sc = 1\<rparr>"
  have "5 \<notin> pw_live (ag_world ?e)" by (simp add: world_new_def)
  from JOB_AGENT_inv [OF agents_inv_new this, of 7 100 0 1] obtain e where
    e: "JOB_AGENT 7 100 0 (Some 5) 1 ?e = Inr ((5, 7), e)" "agents_inv e [5 \<mapsto> (JOB_AGENT_POOL, 7)]"
      "map_option ja_owner (ag_objects e 5) = Some 1" "pw_live (ag_world e) \<subseteq> {5}"
    by (auto simp: world_new_def free_in_def pool_of_def)
  then have "6 \<notin> pw_live (ag_world e)" by auto
  from recycled_agent_keeps_executor [OF e(2) _ _ this, of 5 7 7 101 102 0 2] e(1,3) show ?thesis by auto
qed

end
