(* ===== verification/Compression.thy ===== *)
theory Compression
  imports Reusable_Buffer
begin

text \<open>
  \<open>compression/compress.hpp\<close> and \<open>decompress.hpp\<close>, instantiated at the packet buffers, and
  \<open>utils.hpp\<close>. Zlib itself is a parameter: whether its initialisers succeed, and for a
  call with \<open>Z_FINISH\<close> the bytes it stores, given the whole input, how many bytes earlier calls
  have stored and how many there is room for; for \<open>inflate\<close> also whether it returned an
  error. \<open>None\<close> as a result is an exception thrown. The loops run on fuel; a buffer
  holds whatever \<open>resize\<close> is told, so a store beyond it is a fault.
\<close>

record zlib =
  z_deflate_init :: bool
  z_deflate :: "byte list \<Rightarrow> nat \<Rightarrow> nat \<Rightarrow> byte list"
  z_inflate_init :: bool
  z_inflate :: "byte list \<Rightarrow> nat \<Rightarrow> nat \<Rightarrow> byte list \<times> bool"

text \<open>
  What zlib documents: a call with \<open>Z_FINISH\<close> stores the next bytes of the complete output, as
  many as there is room for.
\<close>

definition deflate_spec :: "zlib \<Rightarrow> (byte list \<Rightarrow> byte list) \<Rightarrow> bool" where
  "deflate_spec z f \<longleftrightarrow> (\<forall>xs n a. z_deflate z xs n a = take a (drop n (f xs)))"

definition inflate_spec :: "zlib \<Rightarrow> byte list \<Rightarrow> byte list \<Rightarrow> bool" where
  "inflate_spec z xs ys \<longleftrightarrow> (\<forall>n a. z_inflate z xs n a = (take a (drop n ys), False))"

section \<open>Compression\<close>

definition compress_increase :: "u64 \<Rightarrow> u64" where
  "compress_increase size' = size' div 2 + 1024"

fun compress_loop ::
  "nat \<Rightarrow> zlib \<Rightarrow> byte list \<Rightarrow> u64 \<Rightarrow> reusable_buffer \<Rightarrow> u64 \<Rightarrow> reusable_buffer res" where
  "compress_loop 0 z input increase out size_compressed = Inl Diverged"
| "compress_loop (Suc fuel) z input increase out size_compressed =
     (let out = (if size_buffer out < size_compressed + increase
                 then resize_buffer out (size_compressed + increase) else out);
          chunk = z_deflate z input (unat size_compressed) (unat (ucast increase :: u32));
          avail_out = (ucast increase :: u32) - of_nat (length chunk)
      in rbind (buf_put out (buf_offset out + size_compressed) chunk) (\<lambda>out.
         let size_compressed = size_compressed + (increase - ucast avail_out)
         in if avail_out = 0 then compress_loop fuel z input increase out size_compressed
            else Inr (resize_buffer out size_compressed)))"

definition compress_with ::
  "nat \<Rightarrow> zlib \<Rightarrow> reusable_buffer \<Rightarrow> byte list \<Rightarrow> u64 \<Rightarrow> reusable_buffer option res" where
  "compress_with fuel z out data size' =
     (if size' > 2000000000 then Inr None
      else if \<not> z_deflate_init z then Inr None
      else rbind (compress_loop fuel z data (compress_increase size') out 0) (\<lambda>out. Inr (Some out)))"

section \<open>Decompression\<close>

fun decompress_loop ::
  "nat \<Rightarrow> zlib \<Rightarrow> byte list \<Rightarrow> u64 \<Rightarrow> reusable_buffer \<Rightarrow> u64 \<Rightarrow> reusable_buffer option res" where
  "decompress_loop 0 z input size' out size_uncompressed = Inl Diverged"
| "decompress_loop (Suc fuel) z input size' out size_uncompressed =
     (let resize_to = size_uncompressed + 2 * size'
      in if resize_to > 1000000000 then Inr None
         else
           let out = resize_buffer out resize_to;
               (chunk, failed) = z_inflate z input (unat size_uncompressed) (unat (ucast (2 * size') :: u32));
               avail_out = (ucast (2 * size') :: u32) - of_nat (length chunk)
           in rbind (buf_put out (buf_offset out + size_uncompressed) chunk) (\<lambda>out.
              if failed then Inr None
              else
                let size_uncompressed = size_uncompressed + (2 * size' - ucast avail_out)
                in if avail_out = 0 then decompress_loop fuel z input size' out size_uncompressed
                   else Inr (Some (resize_buffer out size_uncompressed))))"

definition decompress_with ::
  "nat \<Rightarrow> zlib \<Rightarrow> reusable_buffer \<Rightarrow> byte list \<Rightarrow> u64 \<Rightarrow> reusable_buffer option res" where
  "decompress_with fuel z out data size' =
     (if \<not> z_inflate_init z then Inr None
      else if size' > 1000000000 \<or> size' * 2 > 1000000000 then Inr None
      else decompress_loop fuel z data size' out 0)"

text \<open>\<open>utils.hpp\<close>: the magic bytes of zlib and gzip.\<close>

definition is_compressed :: "byte list \<Rightarrow> bool" where
  "is_compressed data \<longleftrightarrow> length data > 2 \<and>
     ((data ! 0 = 0x78 \<and> (data ! 1 = 0x9C \<or> data ! 1 = 0x01 \<or> data ! 1 = 0xDA \<or> data ! 1 = 0x5E))
      \<or> (data ! 0 = 0x1F \<and> data ! 1 = 0x8B))"

section \<open>The loops deliver the whole stream\<close>

lemma ucast_word32: "unat (x :: u64) < 2 ^ 32 \<Longrightarrow> unat (ucast x :: u32) = unat x"
  by (simp add: unsigned_ucast_eq take_bit_nat_eq_self)

text \<open>
  One round of either loop in arithmetic: the room \<open>inc\<close>, \<open>k\<close> bytes stored, what is left over.
\<close>

lemma chunk_arith:
  assumes "unat (inc :: u64) < 2 ^ 32" "k \<le> unat inc"
  shows "(ucast inc :: u32) - of_nat k = 0 \<longleftrightarrow> k = unat inc"
    and "inc - ucast ((ucast inc :: u32) - of_nat k) = of_nat k"
proof -
  have k: "unat (of_nat k :: u32) = k" using assms by (intro unat_of_nat_small) simp
  then have d: "unat ((ucast inc :: u32) - of_nat k) = unat inc - k"
    using assms by (subst unat_sub_small) (simp_all add: ucast_word32)
  then show "(ucast inc :: u32) - of_nat k = 0 \<longleftrightarrow> k = unat inc"
    using assms(2) by (auto simp flip: unat_eq_0)
  have "unat (ucast ((ucast inc :: u32) - of_nat k) :: u64) = unat inc - k"
    using d by (subst unat_ucast_up) simp_all
  then have "unat (inc - ucast ((ucast inc :: u32) - of_nat k)) = k"
    using assms(2) by (subst unat_sub_small) simp_all
  moreover have "unat (of_nat k :: u64) = k" using assms by (intro unat_of_nat_small) simp
  ultimately show "inc - ucast ((ucast inc :: u32) - of_nat k) = of_nat k"
    by (simp add: word_unat_eq_iff)
qed

text \<open>\<open>stored out n ys\<close>: the first \<open>n\<close> bytes of \<open>ys\<close> lie at the payload, and all of \<open>ys\<close> fits.\<close>

definition stored :: "reusable_buffer \<Rightarrow> nat \<Rightarrow> byte list \<Rightarrow> bool" where
  "stored out n ys \<longleftrightarrow> n \<le> length ys
     \<and> unat (buf_offset out) + length ys \<le> unat (buf_SIZE out)
     \<and> mem_read (buf_bytes out) (unat (buf_offset out)) n = take n ys"

lemma stored_resize [simp]: "stored (resize_buffer out s) n ys \<longleftrightarrow> stored out n ys"
  by (simp add: stored_def resize_buffer_def)

lemma stored_put:
  assumes "stored out n ys"
  shows "\<exists>out'. buf_put out (buf_offset out + of_nat n) (take a (drop n ys)) = Inr out'
    \<and> stored out' (n + min a (length ys - n)) ys \<and> same_block out out'"
proof -
  let ?o = "unat (buf_offset out)" and ?c = "take a (drop n ys)"
  let ?k = "min a (length ys - n)"
  have fits: "?o + length ys \<le> unat (buf_SIZE out)" "n \<le> length ys"
    and old: "mem_read (buf_bytes out) ?o n = take n ys"
    using assms by (auto simp: stored_def)
  have "unat (buf_SIZE out) < 2 ^ 64" using unsigned_less [of "buf_SIZE out", where ?'a = nat] by simp
  then have on: "unat (buf_offset out + of_nat n) = ?o + n"
    using fits by (subst unat_add_small) (simp_all add: unat_of_nat_small)
  have put: "buf_put out (buf_offset out + of_nat n) ?c
      = Inr (out\<lparr>buf_bytes := mem_write (buf_bytes out) (?o + n) ?c\<rparr>)"
    using fits by (simp add: buf_put_def on)
  have "mem_read (mem_write (buf_bytes out) (?o + n) ?c) ?o (n + ?k)
      = mem_read (mem_write (buf_bytes out) (?o + n) ?c) ?o n
        @ mem_read (mem_write (buf_bytes out) (?o + n) ?c) (?o + n) ?k"
    by (rule mem_read_append)
  also have "\<dots> = take n ys @ ?c" using old by (simp add: mem_simps min.commute)
  also have "\<dots> = take (n + ?k) ys" using fits(2) by (simp add: take_add min_def)
  finally show ?thesis using put fits by (auto simp: stored_def same_block_def)
qed

lemma compress_loop_all:
  assumes "\<And>n a. z_deflate z input n a = take a (drop n ys)"
    and "0 < unat inc" "unat inc < 2 ^ 32" "length ys < 2 ^ 63"
  shows "stored out n ys \<Longrightarrow> length ys - n < fuel \<Longrightarrow>
    \<exists>out'. compress_loop fuel z input inc out (of_nat n) = Inr out'
      \<and> stored out' (length ys) ys \<and> same_block out out' \<and> buf_length out' = of_nat (length ys)"
proof (induction fuel arbitrary: n out)
  case 0
  then show ?case by simp
next
  case (Suc fuel)
  let ?out = "if size_buffer out < of_nat n + inc then resize_buffer out (of_nat n + inc) else out"
  let ?a = "unat inc" and ?k = "min (unat inc) (length ys - n)"
  have n: "n \<le> length ys" "unat (of_nat n :: u64) = n"
    using Suc.prems(1) assms(4) by (auto simp: stored_def intro!: unat_of_nat_small)
  have st: "stored ?out n ys" "same_block out ?out"
    using Suc.prems(1) by auto
  have st3: "buf_offset ?out = buf_offset out" by (simp add: resize_buffer_def)
  obtain out1 where put: "buf_put ?out (buf_offset out + of_nat n) (take ?a (drop n ys)) = Inr out1"
      and st1: "stored out1 (n + ?k) ys" "same_block ?out out1"
    using stored_put [OF st(1), of ?a] st3 by auto
  have ck: "length (take ?a (drop n ys)) = ?k" by (simp add: min.commute)
  have ar: "(ucast inc :: u32) - of_nat ?k = 0 \<longleftrightarrow> ?k = ?a" "inc - ucast ((ucast inc :: u32) - of_nat ?k) = of_nat ?k"
    using chunk_arith [OF assms(3), of ?k] by simp_all
  have step: "compress_loop (Suc fuel) z input inc out (of_nat n) =
      (if ?k = ?a then compress_loop fuel z input inc out1 (of_nat (n + ?k))
       else Inr (resize_buffer out1 (of_nat (n + ?k))))"
    unfolding compress_loop.simps Let_def assms(1) n(2) ucast_word32 [OF assms(3)] st3 put rbind_Inr ck ar
    by simp
  have sb: "same_block out out1" using st(2) st1(2) by (rule same_block_trans)
  show ?case
  proof (cases "?k = ?a")
    case True
    then have "length ys - (n + ?k) < fuel" using Suc.prems(2) assms(2) by simp
    from Suc.IH [OF st1(1) this] show ?thesis unfolding step using True sb same_block_trans by auto
  next
    case False
    then have "n + ?k = length ys" using n(1) by simp
    then show ?thesis unfolding step using False st1(1) sb
      by (auto simp: resize_buffer_def stored_def same_block_def)
  qed
qed

lemma decompress_loop_all:
  assumes "inflate_spec z input ys"
    and "0 < unat (2 * size')" "unat (2 * size') < 2 ^ 32"
    and "length ys + unat (2 * size') \<le> 1000000000"
  shows "stored out n ys \<Longrightarrow> length ys - n < fuel \<Longrightarrow>
    \<exists>out'. decompress_loop fuel z input size' out (of_nat n) = Inr (Some out')
      \<and> stored out' (length ys) ys \<and> same_block out out' \<and> buf_length out' = of_nat (length ys)"
proof (induction fuel arbitrary: n out)
  case 0
  then show ?case by simp
next
  case (Suc fuel)
  let ?inc = "2 * size'"
  let ?out = "resize_buffer out (of_nat n + ?inc)"
  let ?a = "unat ?inc" and ?k = "min (unat ?inc) (length ys - n)"
  have n: "n \<le> length ys" "unat (of_nat n :: u64) = n"
    using Suc.prems(1) assms(4) by (auto simp: stored_def intro!: unat_of_nat_small)
  have st: "stored ?out n ys" "same_block out ?out"
    using Suc.prems(1) by auto
  have st3: "buf_offset ?out = buf_offset out" by (simp add: resize_buffer_def)
  obtain out1 where put: "buf_put ?out (buf_offset out + of_nat n) (take ?a (drop n ys)) = Inr out1"
      and st1: "stored out1 (n + ?k) ys" "same_block ?out out1"
    using stored_put [OF st(1), of ?a] st3 by auto
  have ck: "length (take ?a (drop n ys)) = ?k" by (simp add: min.commute)
  have ar: "(ucast ?inc :: u32) - of_nat ?k = 0 \<longleftrightarrow> ?k = ?a" "?inc - ucast ((ucast ?inc :: u32) - of_nat ?k) = of_nat ?k"
    using chunk_arith [OF assms(3), of ?k] by simp_all
  have "unat (of_nat n + ?inc) = n + ?a"
    using n assms(4) by (subst unat_add_small) simp_all
  then have nm: "\<not> of_nat n + ?inc > 1000000000"
    using n(1) assms(4) by (simp add: word_less_nat_alt)
  have zi: "z_inflate z input n ?a = (take ?a (drop n ys), False)"
    using assms(1) by (simp add: inflate_spec_def)
  have step: "decompress_loop (Suc fuel) z input size' out (of_nat n) =
      (if ?k = ?a then decompress_loop fuel z input size' out1 (of_nat (n + ?k))
       else Inr (Some (resize_buffer out1 (of_nat (n + ?k)))))"
    unfolding decompress_loop.simps Let_def if_not_P [OF nm] n(2) ucast_word32 [OF assms(3)] zi prod.case
      st3 put rbind_Inr ck ar
    by simp
  have sb: "same_block out out1" using st(2) st1(2) by (rule same_block_trans)
  show ?case
  proof (cases "?k = ?a")
    case True
    then have "length ys - (n + ?k) < fuel" using Suc.prems(2) assms(2) by simp
    from Suc.IH [OF st1(1) this] show ?thesis unfolding step using True sb same_block_trans by auto
  next
    case False
    then have "n + ?k = length ys" using n(1) by simp
    then show ?thesis unfolding step using False st1(1) sb
      by (auto simp: resize_buffer_def stored_def same_block_def)
  qed
qed

text \<open>With no input there is no room to fill: the decompression loop never ends.\<close>

lemma decompress_empty_diverges:
  assumes "\<And>n a. length (fst (z_inflate z [] n a)) \<le> a" "\<And>n a. \<not> snd (z_inflate z [] n a)"
    and "unat (buf_offset out) + unat n \<le> unat (buf_SIZE out)" "n \<le> 1000000000"
  shows "decompress_loop fuel z [] 0 out n = Inl Diverged"
  using assms(3,4)
proof (induction fuel arbitrary: out)
  case 0
  then show ?case by simp
next
  case (Suc fuel)
  obtain c f where c: "z_inflate z [] (unat n) 0 = (c, f)" by (cases "z_inflate z [] (unat n) 0")
  with assms(1) [of "unat n" 0] assms(2) [of "unat n" 0] have cf: "c = []" "\<not> f" by simp_all
  have nm: "\<not> (n :: u64) > 1000000000" using Suc.prems(2) by simp
  have o': "unat (buf_offset out + n) \<le> unat (buf_SIZE out)"
  proof -
    have "unat (buf_SIZE out) < 2 ^ 64" using unsigned_less [of "buf_SIZE out", where ?'a = nat] by simp
    then have "unat (buf_offset out + n) = unat (buf_offset out) + unat n"
      using Suc.prems(1) by (intro unat_add_small) simp
    then show ?thesis using Suc.prems(1) by simp
  qed
  let ?out = "resize_buffer out n"
  have put: "buf_put ?out (buf_offset ?out + n) [] = Inr ?out"
    using o' by (simp add: buf_put_def resize_buffer_def)
  have "decompress_loop (Suc fuel) z [] 0 out n = decompress_loop fuel z [] 0 ?out n"
    using nm c cf put by (simp add: Let_def)
  also have "\<dots> = Inl Diverged"
    using Suc.prems by (intro Suc.IH) (simp_all add: resize_buffer_def)
  finally show ?case .
qed

section \<open>Properties\<close>

lemma stored_start:
  assumes "unat (buf_offset out) + length ys \<le> unat (buf_SIZE out)"
  shows "stored out 0 ys"
  using assms by (simp add: stored_def)

lemma stored_all_payload:
  assumes "stored out (length ys) ys" "buf_length out = of_nat (length ys)" "length ys < 2 ^ 63"
  shows "payload out = Inr ys"
proof -
  have "unat (of_nat (length ys) :: u64) = length ys" using assms(3) by (intro unat_of_nat_small) simp
  then show ?thesis using assms by (simp add: payload_def buf_get_def stored_def)
qed



text \<open>An empty block is never decompressed: the loop makes room for nothing, sees no room left, and
  goes on.\<close>

theorem decompress_empty_never_ends:
  assumes "\<And>n a. length (fst (z_inflate z [] n a)) \<le> a" "\<And>n a. \<not> snd (z_inflate z [] n a)"
    and "z_inflate_init z" "unat (buf_offset out) \<le> unat (buf_SIZE out)"
  shows "decompress_with fuel z out [] 0 = Inl Diverged"
  using decompress_empty_diverges [OF assms(1,2), of out 0 fuel] assms(3,4) by (simp add: decompress_with_def)

lemma decompress_empty_never_ends_witness:
  "decompress_with 1000 \<lparr>z_deflate_init = True, z_deflate = (\<lambda>_ _ _. []), z_inflate_init = True,
     z_inflate = (\<lambda>_ _ _. ([], False))\<rparr> \<lparr>buf_SIZE = 100, buf_offset = 15, buf_length = 0, buf_bytes = (\<lambda>_. 0)\<rparr> [] 0 = Inl Diverged"
  by (rule decompress_empty_never_ends) simp_all

end
