(* ===== verification/Session_Logic.thy ===== *)
theory Session_Logic
  imports Protocol Rc4 Safe_Random
begin

text \<open>
  \<open>session_logic.h\<close>: the session types and what a session logic carries (the cipher
  parameters drawn from the random source, what a server says about itself), the server
  id computed from it, and the configuration \<open>proxy_config\<close> of \<open>proxy_manager.h\<close>. The data
  members of the logics of the proxy follow.
\<close>

section \<open>Types\<close>

datatype SessionType =
    SINGLE_SESSION_BEGIN | CLIENT_PROXY
  | MULTI_SESSION_BEGIN | GAMESVR_PROXY | CHATSVR_PROXY | DBSVR_PROXY
  | ACTIVE_SEESION_BEGIN | ACTIVE_GAMESVR | SESSION_PAIR | ALL_SESSION_END

text \<open>
  The value of an enumerator. The code casts the byte \<open>link_type\<close> of a request to the
  enumeration and compares it, so a session type is a byte in the model; it need not be the
  code of an enumerator.
\<close>

fun session_code :: "SessionType \<Rightarrow> byte" where
  "session_code SINGLE_SESSION_BEGIN = 0x0"
| "session_code CLIENT_PROXY = 0x1"
| "session_code MULTI_SESSION_BEGIN = 0x8"
| "session_code GAMESVR_PROXY = 0x9"
| "session_code CHATSVR_PROXY = 0xA"
| "session_code DBSVR_PROXY = 0xB"
| "session_code ACTIVE_SEESION_BEGIN = 0x20"
| "session_code ACTIVE_GAMESVR = 0x21"
| "session_code SESSION_PAIR = 0x22"
| "session_code ALL_SESSION_END = 0xFF"

datatype AuthenticationState = BEFORE_VERIFY | VERIFY_SUCC | VERIFY_FAILED

abbreviation session_uid_size :: u64 where
  "session_uid_size \<equiv> 4"

abbreviation RC4_KEY_LEN :: nat where
  "RC4_KEY_LEN \<equiv> 10"

section \<open>Server ids\<close>

text \<open>
  The hash loop runs to the first NUL of the string; \<open>char\<close> is signed. Every round adds the
  first character of the string (\<open>first\<close>), whatever its position.
\<close>

fun platform_hash :: "byte \<Rightarrow> byte list \<Rightarrow> u32 \<Rightarrow> u32" where
  "platform_hash first [] str_hash = str_hash"
| "platform_hash first (b # bs) str_hash =
     (if b = 0 then str_hash else platform_hash first bs (str_hash * 31 + scast first))"

definition cal_server_uid :: "u16 \<Rightarrow> u16 \<Rightarrow> byte list \<Rightarrow> u64" where
  "cal_server_uid area_id server_id platform =
     push_bit 48 (ucast area_id) + push_bit 32 (ucast server_id)
       + ucast (platform_hash (hd (platform @ [0])) platform 0)"

section \<open>Cipher parameters\<close>

record rc4_info =
  rc4_modvt :: int
  rc4_key :: "byte list"
  rc4_subtract :: int

fun draw_key :: "nat \<Rightarrow> rand_state \<Rightarrow> byte list \<times> rand_state" where
  "draw_key 0 st = ([], st)"
| "draw_key (Suc n) st =
     (let (x, st) = rand_next st; (bs, st) = draw_key n st
      in (ucast (x mod 255 + 1) # bs, st))"

definition rc4_info_new :: "rand_state \<Rightarrow> rc4_info \<times> rand_state" where
  "rc4_info_new st =
     (let (x, st) = rand_next st;
          (key, st) = draw_key RC4_KEY_LEN st;
          (y, st) = rand_next st
      in (\<lparr>rc4_modvt = uint (x mod 255 + 1), rc4_key = key, rc4_subtract = uint (y mod 255 + 1)\<rparr>, st))"

section \<open>What a server says about itself, and the configuration\<close>

record server_info =
  si_server_id :: u16
  si_area_id :: u16
  si_platform :: "byte list"
  si_link_type :: byte

text \<open>
  \<open>proxy_config\<close>: the integers of the JSON document (RapidJSON is a parameter: the value
  under a name, if the file could be read and parsed and has it) narrowed to the members.
  The constructor aborts the process where one is missing.
\<close>

record proxy_config =
  cfg_listened_port :: u16
  cfg_session_thread_num :: u16
  cfg_tick_interval :: u32
  cfg_keep_alive_timeout :: u32
  cfg_max_send_delay :: u32

text \<open>
  \<open>json_utils::open_file\<close>: \<open>read_all\<close> is the file system, \<open>parse\<close> the JSON parser. The text is
  passed on as a C string, so it ends at its first zero byte.
\<close>

definition open_file :: "(byte list \<Rightarrow> byte list option) \<Rightarrow> (byte list \<Rightarrow> 'd option) \<Rightarrow> byte list \<Rightarrow> 'd option" where
  "open_file read_all parse filepath =
     (case read_all filepath of None \<Rightarrow> None
      | Some content \<Rightarrow> parse (takeWhile (\<lambda>c. c \<noteq> 0) content))"

definition load_proxy_config :: "(string \<Rightarrow> int option) option \<Rightarrow> proxy_config res" where
  "load_proxy_config doc =
     (case doc of None \<Rightarrow> Inl Aborted
      | Some get \<Rightarrow>
        (case (get ''listened_port'', get ''session_thread_num'', get ''tick_interval'',
               get ''keep_alive_timeout'', get ''max_send_delay'') of
           (Some port, Some threads, Some tick, Some alive, Some delay) \<Rightarrow>
             Inr \<lparr>cfg_listened_port = word_of_int port, cfg_session_thread_num = word_of_int threads,
                  cfg_tick_interval = word_of_int tick, cfg_keep_alive_timeout = word_of_int alive,
                  cfg_max_send_delay = word_of_int delay\<rparr>
         | _ \<Rightarrow> Inl Aborted))"

section \<open>The members of the three logics of the proxy\<close>

text \<open>A weak pointer to the session that owns the logic is the session's name, or empty.\<close>

record default_logic =
  dl_authentication :: AuthenticationState
  dl_session_holder :: "nat option"
  dl_target_uid :: u32
  dl_rc4_info :: rc4_info
  dl_server_info :: server_info
  dl_seq :: u32

record server_logic =
  sl_seq :: u32
  sl_server_info :: server_info
  sl_session_holder :: "nat option"

record client_logic =
  cl_rc4_info :: rc4_info
  cl_seq :: u32
  cl_server_info :: server_info
  cl_target_uid :: u32
  cl_session_holder :: "nat option"

datatype proxy_logic =
    Default default_logic | Server server_logic | Client client_logic

text \<open>\<open>reset\<close> leaves the holder and the server info as the last user of the object left them.\<close>

definition default_reset :: "default_logic \<Rightarrow> rand_state \<Rightarrow> default_logic \<times> rand_state" where
  "default_reset stale st =
     (let (info, st) = rc4_info_new st
      in (stale\<lparr>dl_authentication := BEFORE_VERIFY, dl_target_uid := 0, dl_rc4_info := info, dl_seq := 0\<rparr>, st))"

definition server_inherit :: "server_logic \<Rightarrow> server_info \<Rightarrow> u32 \<Rightarrow> server_logic" where
  "server_inherit l info seq' = l\<lparr>sl_server_info := info, sl_seq := seq'\<rparr>"

definition client_inherit ::
  "client_logic \<Rightarrow> rc4_info \<Rightarrow> u32 \<Rightarrow> server_info \<Rightarrow> u32 \<Rightarrow> client_logic" where
  "client_inherit l rc4 seq' info target =
     l\<lparr>cl_rc4_info := rc4, cl_seq := seq', cl_server_info := info, cl_target_uid := target\<rparr>"

definition get_server_id :: "server_logic \<Rightarrow> u64" where
  "get_server_id l =
     (let s = sl_server_info l in cal_server_uid (si_area_id s) (si_server_id s) (si_platform s))"

fun prefix_size :: "proxy_logic \<Rightarrow> u64" where
  "prefix_size (Default l) = of_nat PROTO_HEAD_SIZE"
| "prefix_size (Server l) = of_nat PROTO_HEAD_SIZE - session_uid_size"
| "prefix_size (Client l) = of_nat PROTO_HEAD_SIZE + session_uid_size"

fun get_session_type :: "proxy_logic \<Rightarrow> byte" where
  "get_session_type (Default l) = session_code SINGLE_SESSION_BEGIN"
| "get_session_type (Server l) = si_link_type (sl_server_info l)"
| "get_session_type (Client l) = session_code CLIENT_PROXY"

fun is_free_session :: "proxy_logic \<Rightarrow> bool" where
  "is_free_session (Default l) = True"
| "is_free_session (Server l) = False"
| "is_free_session (Client l) = False"

fun apply_session :: "nat \<Rightarrow> proxy_logic \<Rightarrow> proxy_logic" where
  "apply_session sid (Default l) = Default (l\<lparr>dl_session_holder := Some sid\<rparr>)"
| "apply_session sid (Server l) = Server (l\<lparr>sl_session_holder := Some sid\<rparr>)"
| "apply_session sid (Client l) = Client (l\<lparr>cl_session_holder := Some sid\<rparr>)"

section \<open>Lemmas\<close>

lemma draw_range:
  fixes x :: u64
  shows "0 < unat (x mod 255 + 1)" "unat (x mod 255 + 1) < 256"
proof -
  have m: "unat (x mod 255) < 255" by (simp add: unat_mod)
  then have "unat (x mod 255 + 1) = unat (x mod 255) + 1" by (subst unat_add_small) simp_all
  with m show "0 < unat (x mod 255 + 1)" "unat (x mod 255 + 1) < 256" by simp_all
qed

lemma drawn_byte_nonzero: "(ucast (x mod 255 + 1 :: u64) :: byte) \<noteq> 0"
proof -
  have "unat (ucast (x mod 255 + 1) :: byte) = unat (x mod 255 + 1)"
    using draw_range(2) [of x] by (simp add: unsigned_ucast_eq take_bit_nat_eq_self)
  then show ?thesis using draw_range(1) [of x] by (metis less_not_refl unsigned_0)
qed

lemma drawn_int_range: "1 \<le> uint (x mod 255 + 1 :: u64)" "uint (x mod 255 + 1 :: u64) \<le> 255"
  using draw_range [of x] by (simp_all only: uint_nat)

lemma draw_key_ok: "length (fst (draw_key n st)) = n \<and> 0 \<notin> set (fst (draw_key n st))"
proof (induction n arbitrary: st)
  case 0
  then show ?case by simp
next
  case (Suc n)
  show ?case using Suc [of "snd (rand_next st)"] drawn_byte_nonzero
    by (auto simp: Let_def split_beta eq_commute [of 0])
qed

lemma rc4_info_new_ok:
  "valid_mod (rc4_modvt (fst (rc4_info_new st)))"
  "length (rc4_key (fst (rc4_info_new st))) = RC4_KEY_LEN"
  using drawn_int_range draw_key_ok [of RC4_KEY_LEN "snd (rand_next st)"]
  by (simp_all add: rc4_info_new_def split_beta Let_def valid_mod_def)

text \<open>The hash counts characters: only the first one and the length enter it.\<close>

lemma platform_hash_pow:
  "platform_hash c p h = ((\<lambda>h. h * 31 + scast c) ^^ length (takeWhile (\<lambda>b. b \<noteq> 0) p)) h"
proof (induction p arbitrary: h)
  case Nil
  then show ?case by simp
next
  case (Cons b p)
  have "platform_hash c (b # p) h = (if b = 0 then h else platform_hash c p (h * 31 + scast c))"
    by (rule platform_hash.simps)
  then show ?case by (cases "b = 0") (simp_all add: Cons.IH funpow_Suc_right del: funpow.simps(2))
qed

lemma platform_hash_first_only:
  "length (takeWhile (\<lambda>b. b \<noteq> 0) p) = length (takeWhile (\<lambda>b. b \<noteq> 0) q) \<Longrightarrow>
   platform_hash c p h = platform_hash c q h"
  by (simp only: platform_hash_pow)

text \<open>The area and the server are never confused: the hash stays below them.\<close>

lemma cal_server_uid_parts:
  "ucast (drop_bit 48 (cal_server_uid a s p)) = a"
  "ucast (drop_bit 32 (cal_server_uid a s p)) = s"
proof -
  let ?h = "platform_hash (hd (p @ [0])) p 0"
  have disj: "push_bit 48 (ucast a) + push_bit 32 (ucast s) + ucast ?h
      = (push_bit 48 (ucast a) OR push_bit 32 (ucast s) OR ucast ?h :: u64)"
  proof -
    have "push_bit 48 (ucast a) AND push_bit 32 (ucast s) = (0 :: u64)"
      by (rule bit_word_eqI) (auto simp: bit_simps dest: bit_imp_le_length)
    moreover have "(push_bit 48 (ucast a) OR push_bit 32 (ucast s)) AND ucast ?h = (0 :: u64)"
      by (rule bit_word_eqI) (auto simp: bit_simps dest: bit_imp_le_length)
    ultimately show ?thesis by (simp add: disjunctive_add_eq_or or.assoc)
  qed
  show "ucast (drop_bit 48 (cal_server_uid a s p)) = a"
    unfolding cal_server_uid_def disj
    by (rule bit_word_eqI) (auto simp: bit_simps dest: bit_imp_le_length)
  show "ucast (drop_bit 32 (cal_server_uid a s p)) = s"
    unfolding cal_server_uid_def disj
    by (rule bit_word_eqI) (auto simp: bit_simps dest: bit_imp_le_length)
qed

section \<open>Properties\<close>

text \<open>A server id tells its area and its server number apart from those of every other, but two
  platforms of one area and number are confused as soon as they begin with the same character and
  are equally long.\<close>

theorem server_uid_identifies:
  "ucast (drop_bit 48 (cal_server_uid a s p)) = a \<and> ucast (drop_bit 32 (cal_server_uid a s p)) = s
   \<and> (hd (p @ [0]) = hd (q @ [0]) \<and> length (takeWhile (\<lambda>b. b \<noteq> 0) p) = length (takeWhile (\<lambda>b. b \<noteq> 0) q)
      \<longrightarrow> cal_server_uid a s p = cal_server_uid a s q)"
proof -
  have "cal_server_uid a s p = cal_server_uid a s q"
    if "hd (p @ [0]) = hd (q @ [0])" "length (takeWhile (\<lambda>b. b \<noteq> 0) p) = length (takeWhile (\<lambda>b. b \<noteq> 0) q)"
    unfolding cal_server_uid_def that(1) platform_hash_first_only [OF that(2)] by (rule refl)
  then show ?thesis using cal_server_uid_parts by blast
qed

lemma server_uid_identifies_witness:
  "cal_server_uid 1 2 [105, 111, 115] = cal_server_uid 1 2 [105, 112, 120]"
  using server_uid_identifies [of 1 2 "[105, 111, 115]" "[105, 112, 120]"] by simp

text \<open>The cipher parameters the proxy draws are always usable: a modulus between 1 and 255, ten key
  bytes, none of them zero.\<close>

theorem drawn_cipher_usable:
  "valid_mod (rc4_modvt (fst (rc4_info_new st))) \<and> length (rc4_key (fst (rc4_info_new st))) = RC4_KEY_LEN
   \<and> 0 \<notin> set (rc4_key (fst (rc4_info_new st)))
   \<and> 1 \<le> rc4_subtract (fst (rc4_info_new st)) \<and> rc4_subtract (fst (rc4_info_new st)) \<le> 255"
  using rc4_info_new_ok [of st] draw_key_ok [of RC4_KEY_LEN "snd (rand_next st)"] drawn_int_range
  by (simp add: rc4_info_new_def split_beta Let_def)

end
