(* ===== verification/Async_Session.thy ===== *)
theory Async_Session
  imports Protocol Reusable_Buffer Async_Job
begin

text \<open>
  \<open>basic_async_session\<close> (\<open>basic_async_session.h\<close> and \<open>.cpp\<close>): a connection with its state, its
  receive buffer, its timers and its logic. The logic is a type parameter \<open>'l\<close> and its
  virtual operations are a record of functions, so that the same session runs under the
  proxy's logics and under those of the other programs; \<open>'x\<close> is the state of the program
  around the sessions. Asio is outside: what a handler is called with (error code, bytes
  transferred) is an argument, the operations it was asked to start are kept in the session
  (\<open>s_reads\<close>, \<open>s_writes\<close>, \<open>s_closes\<close>, the armed timers) until their handlers run.
\<close>

section \<open>State\<close>

datatype StateSocket = INIT | WAIT_CONNECT | CONNECTING | TO_CLOSE | CLOSE_DONE

text \<open>A read in progress: the buffer it stores into, where, and how much it may store.\<close>

record pending_read =
  pr_buffer :: nat
  pr_pos :: u64
  pr_room :: u64

text \<open>The callbacks given to a send: none, or the one that kicks the session that was named.\<close>

datatype send_callback = NoCallback | KickHolder "nat option"

record pending_write =
  pw_bytes :: "byte list"
  pw_callback :: send_callback

text \<open>
  \<open>s_recv\<close> is \<open>_recv_not_entire\<close> with a name for the pooled buffer it points to. A timer is
  armed or not; cancelling it leaves a handler to be called with an error.
\<close>

record 'l session =
  s_state :: StateSocket
  s_open :: bool
  s_remote_ip :: "u32 option"
  s_recv :: "(nat \<times> reusable_buffer) option"
  s_reads :: "pending_read list"
  s_writes :: "pending_write list"
  s_closes :: "bool list"
  s_timer :: bool
  s_timer_cancelled :: nat
  s_tick_timer :: bool
  s_tick_cancelled :: nat
  s_tick_interval :: int
  s_frame_count :: u64
  s_keep_alive_timeout :: int
  s_last_recv_time :: int
  s_last_send_time :: int
  s_logic :: "'l option"
  s_uuid :: u32
  s_strand :: nat

text \<open>
  The world: the sessions by name, the clock (nanoseconds), the pooled buffers handed out so
  far with whatever bytes they come with, and the rest of the program.
\<close>

record ('l, 'x) world =
  w_sessions :: "nat \<Rightarrow> 'l session option"
  w_now :: int
  w_alloc :: nat
  w_junk :: "nat \<Rightarrow> memory"
  w_env :: 'x

definition get_session :: "nat \<Rightarrow> ('l, 'x) world \<Rightarrow> 'l session res" where
  "get_session sid w = (case w_sessions w sid of None \<Rightarrow> Inl NullDeref | Some s \<Rightarrow> Inr s)"

definition put_session :: "nat \<Rightarrow> 'l session \<Rightarrow> ('l, 'x) world \<Rightarrow> ('l, 'x) world" where
  "put_session sid s w = w\<lparr>w_sessions := (w_sessions w)(sid \<mapsto> s)\<rparr>"

definition upd_session ::
  "nat \<Rightarrow> ('l session \<Rightarrow> 'l session) \<Rightarrow> ('l, 'x) world \<Rightarrow> ('l, 'x) world res" where
  "upd_session sid f w = rbind (get_session sid w) (\<lambda>s. Inr (put_session sid (f s) w))"

text \<open>\<open>TEMP_BUFFER\<close> and \<open>TINY_BUFFER\<close>: a buffer of the pool, reset, its bytes unknown.\<close>

definition pool_buffer :: "u64 \<Rightarrow> ('l, 'x) world \<Rightarrow> reusable_buffer \<times> ('l, 'x) world" where
  "pool_buffer size' w =
     (reset_buffer \<lparr>buf_SIZE = size', buf_offset = 0, buf_length = 0, buf_bytes = w_junk w (w_alloc w)\<rparr>,
      w\<lparr>w_alloc := w_alloc w + 1\<rparr>)"

abbreviation temp_buffer :: "('l, 'x) world \<Rightarrow> reusable_buffer \<times> ('l, 'x) world" where
  "temp_buffer \<equiv> pool_buffer ONCE_BUFFER_SIZE"

abbreviation tiny_buffer :: "('l, 'x) world \<Rightarrow> reusable_buffer \<times> ('l, 'x) world" where
  "tiny_buffer \<equiv> pool_buffer TINY_ONCE_BUFFER_SIZE"

section \<open>Construction and configuration\<close>

text \<open>
  The constructor. \<open>frame_count\<close>, \<open>interval\<close> and \<open>timeout\<close> are members it does not initialise.
  The socket's strand is selected by a job agent.
\<close>

definition generate_uuid :: "u64 \<Rightarrow> u32" where
  "generate_uuid clock = ucast clock"

definition new_session ::
  "job_executor \<Rightarrow> u64 \<Rightarrow> u64 \<Rightarrow> u64 \<Rightarrow> int \<Rightarrow> int \<Rightarrow> int \<Rightarrow> 'l session res" where
  "new_session executor agent_uuid clock frame_count interval timeout now =
     rbind (agent_strand executor agent_uuid) (\<lambda>strand. Inr
       \<lparr>s_state = INIT, s_open = False, s_remote_ip = None, s_recv = None, s_reads = [],
        s_writes = [], s_closes = [], s_timer = False, s_timer_cancelled = 0,
        s_tick_timer = False, s_tick_cancelled = 0, s_tick_interval = interval,
        s_frame_count = frame_count, s_keep_alive_timeout = timeout,
        s_last_recv_time = now, s_last_send_time = now, s_logic = None,
        s_uuid = generate_uuid clock, s_strand = strand\<rparr>)"

text \<open>\<open>modify_session_logic\<close>, with the logic's own \<open>apply_session\<close>.\<close>

definition modify_session_logic ::
  "(nat \<Rightarrow> 'l \<Rightarrow> 'l) \<Rightarrow> nat \<Rightarrow> 'l \<Rightarrow> ('l, 'x) world \<Rightarrow> ('l, 'x) world res" where
  "modify_session_logic apply' sid logic = upd_session sid (\<lambda>s. s\<lparr>s_logic := Some (apply' sid logic)\<rparr>)"

definition set_logic :: "nat \<Rightarrow> 'l \<Rightarrow> ('l, 'x) world \<Rightarrow> ('l, 'x) world res" where
  "set_logic sid logic = upd_session sid (\<lambda>s. s\<lparr>s_logic := Some logic\<rparr>)"

definition is_session_closed :: "'l session \<Rightarrow> bool" where
  "is_session_closed s \<longleftrightarrow> s_state s = CLOSE_DONE"

definition update_recv_time :: "nat \<Rightarrow> ('l, 'x) world \<Rightarrow> ('l, 'x) world res" where
  "update_recv_time sid w = upd_session sid (\<lambda>s. s\<lparr>s_last_recv_time := w_now w\<rparr>) w"

definition update_send_time :: "nat \<Rightarrow> ('l, 'x) world \<Rightarrow> ('l, 'x) world res" where
  "update_send_time sid w = upd_session sid (\<lambda>s. s\<lparr>s_last_send_time := w_now w\<rparr>) w"

text \<open>\<open>remote_endpoint\<close> throws on a socket that is not connected, and nobody catches it.\<close>

definition get_remote_ip :: "nat \<Rightarrow> ('l, 'x) world \<Rightarrow> u32 res" where
  "get_remote_ip sid w =
     rbind (get_session sid w) (\<lambda>s.
     case s_remote_ip s of Some ip \<Rightarrow> if s_open s then Inr ip else Inl Aborted | None \<Rightarrow> Inl Aborted)"

section \<open>Closing\<close>

text \<open>\<open>close\<close> posts a task to the strand; \<open>close_task\<close> below is the task.\<close>

definition close_session :: "nat \<Rightarrow> bool \<Rightarrow> ('l, 'x) world \<Rightarrow> ('l, 'x) world res" where
  "close_session sid elegantly w =
     rbind (get_session sid w) (\<lambda>s.
     if s_state s = CLOSE_DONE then Inr w
     else Inr (put_session sid (s\<lparr>s_closes := s_closes s @ [elegantly]\<rparr>) w))"

definition kick :: "nat \<Rightarrow> ('l, 'x) world \<Rightarrow> ('l, 'x) world res" where
  "kick sid = close_session sid True"

definition clear_all_timer :: "'l session \<Rightarrow> 'l session" where
  "clear_all_timer s = s\<lparr>
     s_timer := False, s_timer_cancelled := s_timer_cancelled s + (if s_timer s then 1 else 0),
     s_tick_timer := False, s_tick_cancelled := s_tick_cancelled s + (if s_tick_timer s then 1 else 0)\<rparr>"

definition close_task_session :: "bool \<Rightarrow> 'l session \<Rightarrow> 'l session" where
  "close_task_session elegantly s =
     (if s_state s = CLOSE_DONE then s
      else let s = clear_all_timer s in
           if s_open s
           then if elegantly then s\<lparr>s_state := TO_CLOSE\<rparr>
                else s\<lparr>s_state := CLOSE_DONE, s_open := False\<rparr>
           else s)"

definition close_task :: "nat \<Rightarrow> ('l, 'x) world \<Rightarrow> ('l, 'x) world res" where
  "close_task sid =
     upd_session sid (\<lambda>s. close_task_session (hd (s_closes s)) (s\<lparr>s_closes := tl (s_closes s)\<rparr>))"

section \<open>Sending\<close>

type_synonym ('l, 'x) wrapper =
  "nat \<Rightarrow> 'l \<Rightarrow> reusable_buffer \<Rightarrow> ('l, 'x) world \<Rightarrow> (reusable_buffer \<times> ('l, 'x) world) res"

definition start_write :: "nat \<Rightarrow> byte list \<Rightarrow> send_callback \<Rightarrow> ('l, 'x) world \<Rightarrow> ('l, 'x) world res" where
  "start_write sid bs cb = upd_session sid (\<lambda>s. s\<lparr>s_writes := s_writes s @ [\<lparr>pw_bytes = bs, pw_callback = cb\<rparr>]\<rparr>)"

text \<open>\<open>async_send\<close>; \<open>wrap\<close> is the logic's \<open>wrap_to_send_data\<close>, which may replace the buffer.\<close>

definition async_send ::
  "('l, 'x) wrapper \<Rightarrow> nat \<Rightarrow> reusable_buffer \<Rightarrow> send_callback \<Rightarrow> ('l, 'x) world \<Rightarrow> ('l, 'x) world res" where
  "async_send wrap sid tmp_buffer cb w =
     rbind (get_session sid w) (\<lambda>s.
     if s_state s \<noteq> CONNECTING then Inr w
     else
       rbind (update_send_time sid w) (\<lambda>w.
       case s_logic s of None \<Rightarrow> Inl NullDeref
       | Some logic \<Rightarrow>
         rbind (wrap sid logic tmp_buffer w) (\<lambda>(mutable_buffer, w).
         rbind (payload mutable_buffer) (\<lambda>bs.
         start_write sid bs cb w))))"

text \<open>\<open>async_send_multi\<close>: both blocks as one write, nothing wrapped; not both are null.\<close>

definition async_send_multi ::
  "nat \<Rightarrow> reusable_buffer option \<Rightarrow> reusable_buffer option \<Rightarrow> send_callback \<Rightarrow> ('l, 'x) world \<Rightarrow> ('l, 'x) world res" where
  "async_send_multi sid head msg cb w =
     rbind (get_session sid w) (\<lambda>s.
     if s_state s \<noteq> CONNECTING then Inr w
     else
       rbind (update_send_time sid w) (\<lambda>w.
       case (head, msg) of
         (None, None) \<Rightarrow> Inl NullDeref
       | (Some h, None) \<Rightarrow> rbind (payload h) (\<lambda>bs. start_write sid bs cb w)
       | (None, Some m) \<Rightarrow> rbind (payload m) (\<lambda>bs. start_write sid bs cb w)
       | (Some h, Some m) \<Rightarrow>
           rbind (payload h) (\<lambda>hb. rbind (payload m) (\<lambda>mb. start_write sid (hb @ mb) cb w))))"

text \<open>The handler of a finished write: the first one started.\<close>

definition write_done :: "nat \<Rightarrow> bool \<Rightarrow> ('l, 'x) world \<Rightarrow> ('l, 'x) world res" where
  "write_done sid ec w =
     rbind (get_session sid w) (\<lambda>s.
     case s_writes s of [] \<Rightarrow> Inr w
     | pw # rest \<Rightarrow>
       let w = put_session sid (s\<lparr>s_writes := rest\<rparr>) w in
       if ec then close_session sid False w
       else (case pw_callback pw of
               NoCallback \<Rightarrow> Inr w
             | KickHolder None \<Rightarrow> Inr w
             | KickHolder (Some h) \<Rightarrow> (if w_sessions w h = None then Inr w else kick h w)))"

section \<open>Keep-alive\<close>

abbreviation KEEP_ALIVE_PRECISION :: u64 where
  "KEEP_ALIVE_PRECISION \<equiv> 1000"

abbreviation NET_PREDICTION_DELAY_MS_MAX :: int where
  "NET_PREDICTION_DELAY_MS_MAX \<equiv> 2000"

text \<open>
  \<open>is_tick_frame_effective\<close>: the counter is an \<open>int\<close> accessed through a pointer to \<open>uint64_t\<close>, so it
  and the padding after it are one 64-bit value.
\<close>

definition is_tick_frame_effective :: "u64 \<Rightarrow> u64 \<Rightarrow> u64 \<Rightarrow> (bool \<times> u64) res" where
  "is_tick_frame_effective tick precision count =
     (let count = count + 1 in
      if tick = 0 \<or> precision div tick = 0 then Inl DivByZero
      else let count = count mod (precision div tick) in Inr (count = 0, count))"

text \<open>\<open>duration_cast\<close> to milliseconds drops the fraction, towards zero.\<close>

definition duration_ms :: "int \<Rightarrow> int" where
  "duration_ms d = sgn d * (\<bar>d\<bar> div 1000000)"

definition tick_alive :: "('l, 'x) wrapper \<Rightarrow> nat \<Rightarrow> ('l, 'x) world \<Rightarrow> ('l, 'x) world res" where
  "tick_alive wrap sid w =
     rbind (get_session sid w) (\<lambda>s.
     if s_state s \<noteq> CONNECTING then Inr w
     else if duration_ms (w_now w - s_last_recv_time s) > s_keep_alive_timeout s then kick sid w
     else if duration_ms (w_now w - s_last_send_time s) > s_keep_alive_timeout s - NET_PREDICTION_DELAY_MS_MAX
     then let (empty_buffer, w) = temp_buffer w;
              empty_buffer = empty_buffer\<lparr>buf_offset := of_nat PROTO_HEAD_SIZE, buf_length := 0\<rparr>
          in async_send wrap sid empty_buffer NoCallback w
     else Inr w)"

definition arm_tick_timer :: "'l session \<Rightarrow> 'l session" where
  "arm_tick_timer s = s\<lparr>s_tick_timer := True,
     s_tick_cancelled := s_tick_cancelled s + (if s_tick_timer s then 1 else 0)\<rparr>"

text \<open>\<open>fixed_tick\<close> is also its own timer's handler, and does not look at the error code.\<close>

definition fixed_tick :: "('l, 'x) wrapper \<Rightarrow> nat \<Rightarrow> ('l, 'x) world \<Rightarrow> ('l, 'x) world res" where
  "fixed_tick wrap sid w =
     rbind (get_session sid w) (\<lambda>s.
     rbind (is_tick_frame_effective (word_of_int (s_tick_interval s)) KEEP_ALIVE_PRECISION (s_frame_count s))
       (\<lambda>(effective, count).
     let w = put_session sid (s\<lparr>s_frame_count := count\<rparr>) w in
     rbind (if effective then tick_alive wrap sid w else Inr w) (\<lambda>w.
     upd_session sid arm_tick_timer w)))"

definition start_tick :: "('l, 'x) wrapper \<Rightarrow> nat \<Rightarrow> int \<Rightarrow> int \<Rightarrow> ('l, 'x) world \<Rightarrow> ('l, 'x) world res" where
  "start_tick wrap sid interval timeout w =
     rbind (upd_session sid (\<lambda>s. s\<lparr>s_tick_interval := interval, s_keep_alive_timeout := timeout\<rparr>) w) (\<lambda>w.
     rbind (update_send_time sid w) (\<lambda>w.
     rbind (update_recv_time sid w) (\<lambda>w.
     fixed_tick wrap sid w)))"

text \<open>The tick timer's handler: it expired, or (\<open>ec\<close>) was cancelled.\<close>

definition tick_timer_done :: "('l, 'x) wrapper \<Rightarrow> nat \<Rightarrow> bool \<Rightarrow> ('l, 'x) world \<Rightarrow> ('l, 'x) world res" where
  "tick_timer_done wrap sid ec w =
     rbind (upd_session sid (\<lambda>s. if ec then s\<lparr>s_tick_cancelled := s_tick_cancelled s - 1\<rparr>
                                else s\<lparr>s_tick_timer := False\<rparr>) w) (\<lambda>w.
     fixed_tick wrap sid w)"

section \<open>Calm operations\<close>

text \<open>
  What the operations a logic uses leave alone: \<open>calm\<close> says that between two worlds every
  session is still there, with its state, its socket, its receive buffer, its reads and its
  timers, and that writes (on a connected session only) and close tasks were only added.
\<close>

definition calm_session :: "'l session \<Rightarrow> 'l session \<Rightarrow> bool" where
  "calm_session s s' \<longleftrightarrow>
     s_state s' = s_state s \<and> s_open s' = s_open s \<and> s_remote_ip s' = s_remote_ip s \<and>
     s_recv s' = s_recv s \<and> s_reads s' = s_reads s \<and> s_timer s' = s_timer s \<and>
     s_timer_cancelled s' = s_timer_cancelled s \<and> s_tick_timer s' = s_tick_timer s \<and>
     s_tick_cancelled s' = s_tick_cancelled s \<and> s_tick_interval s' = s_tick_interval s \<and>
     s_frame_count s' = s_frame_count s \<and> s_keep_alive_timeout s' = s_keep_alive_timeout s \<and>
     s_last_recv_time s' = s_last_recv_time s \<and> s_uuid s' = s_uuid s \<and> s_strand s' = s_strand s \<and>
     (\<exists>ws. s_writes s' = s_writes s @ ws \<and> (ws \<noteq> [] \<longrightarrow> s_state s = CONNECTING)) \<and>
     (\<exists>cs. s_closes s' = s_closes s @ cs \<and> (cs \<noteq> [] \<longrightarrow> s_state s \<noteq> CLOSE_DONE)) \<and>
     (s_logic s \<noteq> None \<longrightarrow> s_logic s' \<noteq> None)"

definition calm :: "('l, 'x) world \<Rightarrow> ('l, 'x) world \<Rightarrow> bool" where
  "calm w w' \<longleftrightarrow>
     (\<forall>sid. rel_option calm_session (w_sessions w sid) (w_sessions w' sid)) \<and>
     w_now w' = w_now w \<and> w_alloc w \<le> w_alloc w' \<and> w_junk w' = w_junk w"

lemma calm_session_refl [simp, intro]: "calm_session s s"
  by (simp add: calm_session_def)

lemma calm_session_trans: "calm_session s t \<Longrightarrow> calm_session t u \<Longrightarrow> calm_session s u"
  unfolding calm_session_def by (elim conjE exE) (simp, blast)

lemma calm_refl [simp, intro]: "calm w w"
  by (simp add: calm_def option.rel_refl)

lemma calm_trans: "calm w v \<Longrightarrow> calm v u \<Longrightarrow> calm w u"
proof -
  assume a: "calm w v" "calm v u"
  have "rel_option calm_session (w_sessions w sid) (w_sessions u sid)" for sid
    using a unfolding calm_def
    by (cases "w_sessions w sid"; cases "w_sessions v sid"; cases "w_sessions u sid")
      (auto simp: option_rel_Some1 option_rel_Some2 dest!: spec [of _ sid] intro: calm_session_trans)
  with a show ?thesis by (auto simp: calm_def)
qed

lemma calm_session_at:
  "calm w w' \<Longrightarrow> w_sessions w sid = Some s \<Longrightarrow> \<exists>s'. w_sessions w' sid = Some s' \<and> calm_session s s'"
  unfolding calm_def by (metis option_rel_Some1)

lemma calm_session_none: "calm w w' \<Longrightarrow> w_sessions w sid = None \<longleftrightarrow> w_sessions w' sid = None"
  unfolding calm_def by (metis option.rel_distinct(1) option.rel_distinct(2) option.exhaust)

lemma get_session_Inr [simp]: "get_session sid w = Inr s \<longleftrightarrow> w_sessions w sid = Some s"
  by (simp add: get_session_def split: option.splits)

lemma put_session_sessions [simp]:
  "w_sessions (put_session sid s w) = (w_sessions w)(sid \<mapsto> s)"
  "w_now (put_session sid s w) = w_now w" "w_alloc (put_session sid s w) = w_alloc w"
  "w_junk (put_session sid s w) = w_junk w" "w_env (put_session sid s w) = w_env w"
  by (simp_all add: put_session_def)

lemma calm_put: "w_sessions w sid = Some s \<Longrightarrow> calm_session s s' \<Longrightarrow> calm w (put_session sid s' w)"
  by (auto simp: calm_def option.rel_refl)

lemma calm_env [simp]: "calm w (w'\<lparr>w_env := x\<rparr>) \<longleftrightarrow> calm w w'"
  by (simp add: calm_def)

lemma upd_session_Inr:
  "upd_session sid f w = Inr w' \<longleftrightarrow> (\<exists>s. w_sessions w sid = Some s \<and> w' = put_session sid (f s) w)"
  by (auto simp: upd_session_def rbind_eq_Inr)

lemma yields_get_session: "yields (get_session sid w) (\<lambda>s. w_sessions w sid = Some s)"
  by (simp add: yields_def)

lemma yields_upd_session:
  "(\<And>s. w_sessions w sid = Some s \<Longrightarrow> P (put_session sid (f s) w)) \<Longrightarrow> yields (upd_session sid f w) P"
  by (auto simp: yields_def upd_session_Inr)

lemma yields_pool_buffer:
  "(\<And>b w'. pool_buffer n w = (b, w') \<Longrightarrow> yields (f b w') P) \<Longrightarrow>
   yields (case pool_buffer n w of (b, w') \<Rightarrow> f b w') P"
  by (rule yields_pair)

lemma calm_upd:
  "calm w0 w \<Longrightarrow> (\<And>s. calm_session s (f s)) \<Longrightarrow> yields (upd_session sid f w) (calm w0)"
  by (rule yields_upd_session) (blast intro: calm_trans calm_put)

lemma calm_pool_buffer: "calm w0 w \<Longrightarrow> pool_buffer n w = (b, w') \<Longrightarrow> calm w0 w'"
  by (erule calm_trans) (auto simp: pool_buffer_def calm_def option.rel_refl)

lemma pool_buffer_block:
  "pool_buffer n w = (b, w') \<Longrightarrow> buf_SIZE b = n \<and> buf_offset b = 0 \<and> buf_length b = 0"
  by (auto simp: pool_buffer_def reset_buffer_def)

lemma pool_buffer_world:
  "pool_buffer n w = (b, w') \<Longrightarrow> w_sessions w' = w_sessions w \<and> w_env w' = w_env w"
  by (auto simp: pool_buffer_def)

lemma calm_set_logic [runs]: "calm w0 w \<Longrightarrow> yields (set_logic sid l w) (calm w0)"
  unfolding set_logic_def by (erule calm_upd) (auto simp: calm_session_def)

lemma calm_modify_session_logic [runs]:
  "calm w0 w \<Longrightarrow> yields (modify_session_logic f sid l w) (calm w0)"
  unfolding modify_session_logic_def by (erule calm_upd) (auto simp: calm_session_def)

lemma calm_update_send_time [runs]: "calm w0 w \<Longrightarrow> yields (update_send_time sid w) (calm w0)"
  unfolding update_send_time_def by (erule calm_upd) (auto simp: calm_session_def)

lemma calm_close_session [runs]: "calm w0 w \<Longrightarrow> yields (close_session sid e w) (calm w0)"
  unfolding close_session_def
  by (rule yields_bind [OF yields_get_session])
    (auto simp: calm_session_def intro: calm_trans intro!: calm_put)

lemma calm_kick [runs]: "calm w0 w \<Longrightarrow> yields (kick sid w) (calm w0)"
  unfolding kick_def by (rule calm_close_session)

text \<open>Writes are started on connected sessions; \<open>linked w0 sid w\<close> carries that along.\<close>

definition linked :: "('l, 'x) world \<Rightarrow> nat \<Rightarrow> ('l, 'x) world \<Rightarrow> bool" where
  "linked w0 sid w \<longleftrightarrow> calm w0 w \<and> (\<exists>s. w_sessions w0 sid = Some s \<and> s_state s = CONNECTING)"

lemma calm_start_write:
  assumes "linked w0 sid w"
  shows "yields (start_write sid bs cb w) (calm w0)"
  unfolding start_write_def
proof (rule yields_upd_session)
  fix s assume s: "w_sessions w sid = Some s"
  obtain s0 where "calm w0 w" "w_sessions w0 sid = Some s0" "s_state s0 = CONNECTING"
    using assms by (auto simp: linked_def)
  with s have "s_state s = CONNECTING" "calm w0 w"
    using calm_session_at [of w0 w sid s0] by (auto simp: calm_session_def)
  then show "calm w0 (put_session sid (s\<lparr>s_writes := s_writes s @ [\<lparr>pw_bytes = bs, pw_callback = cb\<rparr>]\<rparr>) w)"
    by (auto simp: calm_session_def intro!: calm_trans [OF _ calm_put] s)
qed

lemma yields_payload: "yields (payload b) (\<lambda>bs. True)"
  by (rule yields_True)

lemma calm_async_send:
  assumes wrap: "\<And>l b v. calm w v \<Longrightarrow> yields (wrap sid l b v) (\<lambda>(b', v'). calm w v')"
  shows "yields (async_send wrap sid b cb w) (calm w)"
  unfolding async_send_def
proof (rule yields_bind [OF yields_get_session], rule yields_if, simp)
  fix s assume s: "w_sessions w sid = Some s" "\<not> s_state s \<noteq> CONNECTING"
  have link: "linked w sid v" if "calm w v" for v using that s by (simp add: linked_def)
  show "yields (rbind (update_send_time sid w) (\<lambda>w.
       case s_logic s of None \<Rightarrow> Inl NullDeref
       | Some logic \<Rightarrow>
         rbind (wrap sid logic b w) (\<lambda>(mutable_buffer, w).
         rbind (payload mutable_buffer) (\<lambda>bs.
         start_write sid bs cb w)))) (calm w)"
    by (rule yields_step calm_update_send_time calm_refl wrap yields_Inl yields_payload | assumption
        | (rule calm_start_write, rule link))+
qed

lemma calm_async_send_multi: "yields (async_send_multi sid head msg cb w) (calm w)"
  unfolding async_send_multi_def
proof (rule yields_bind [OF yields_get_session], rule yields_if, simp,
    rule yields_bind [OF calm_update_send_time [OF calm_refl]])
  fix s v assume s: "w_sessions w sid = Some s" "\<not> s_state s \<noteq> CONNECTING" and v: "calm w v"
  then have "linked w sid v" by (simp add: linked_def)
  then have out: "yields (start_write sid bs cb v) (calm w)" for bs by (rule calm_start_write)
  show "yields (case (head, msg) of
         (None, None) \<Rightarrow> Inl NullDeref
       | (Some h, None) \<Rightarrow> rbind (payload h) (\<lambda>bs. start_write sid bs cb v)
       | (None, Some m) \<Rightarrow> rbind (payload m) (\<lambda>bs. start_write sid bs cb v)
       | (Some h, Some m) \<Rightarrow>
           rbind (payload h) (\<lambda>hb. rbind (payload m) (\<lambda>mb. start_write sid (hb @ mb) cb v))) (calm w)"
    by (cases head; cases msg) (auto intro!: yields_bind [OF yields_True] out)
qed

text \<open>A calm step after a calm step.\<close>

lemma calm_then: "calm w0 w \<Longrightarrow> yields (f w) (calm w) \<Longrightarrow> yields (f w) (calm w0)"
  by (erule yields_mono) (erule calm_trans)

end
