(* ===== verification/Session_Receive.thy ===== *)
theory Session_Receive
  imports Async_Session
begin

text \<open>
  The receiving half of \<open>basic_async_session\<close>: the read loop, the cutting of the received
  bytes into packets (\<open>pick_a_entire_msg\<close>, \<open>pick_entire_msgs\<close>), the retry timer, connecting,
  and the handlers. \<open>split_frames\<close> is the specification of the cutting: what a list of bytes
  holds in whole packets and what is left.
\<close>

section \<open>The logic's operations\<close>

text \<open>
  \<open>session_logic_interface\<close>, as far as the session calls it. \<open>unwrap\<close> may change the received
  block and fills the block to hand on; both come back with the verdict.
\<close>

record ('l, 'x) vtable =
  vt_prefix_size :: "'l \<Rightarrow> u64"
  vt_wrap :: "('l, 'x) wrapper"
  vt_unwrap :: "nat \<Rightarrow> 'l \<Rightarrow> reusable_buffer \<Rightarrow> protocol_head \<Rightarrow> reusable_buffer \<Rightarrow> ('l, 'x) world \<Rightarrow>
     ((bool \<times> reusable_buffer \<times> reusable_buffer) \<times> ('l, 'x) world) res"
  vt_store :: "nat \<Rightarrow> 'l \<Rightarrow> reusable_buffer \<Rightarrow> protocol_head \<Rightarrow> ('l, 'x) world \<Rightarrow> (bool \<times> ('l, 'x) world) res"

definition get_logic :: "nat \<Rightarrow> ('l, 'x) world \<Rightarrow> 'l res" where
  "get_logic sid w =
     rbind (get_session sid w) (\<lambda>s. case s_logic s of None \<Rightarrow> Inl NullDeref | Some l \<Rightarrow> Inr l)"

section \<open>Reading\<close>

definition async_recv_loop :: "nat \<Rightarrow> ('l, 'x) world \<Rightarrow> ('l, 'x) world res" where
  "async_recv_loop sid w =
     rbind (get_session sid w) (\<lambda>s.
     if s_state s \<noteq> CONNECTING then Inr w
     else
       let (recv, w) = (case s_recv s of
             Some r \<Rightarrow> (r, w)
           | None \<Rightarrow> (let (b, w') = temp_buffer w in ((w_alloc w, b), w')));
           (name, b) = recv;
           read = \<lparr>pr_buffer = name, pr_pos = buffer_at b (buf_length b),
                   pr_room = available_capacity b - buf_length b\<rparr>
       in Inr (put_session sid (s\<lparr>s_recv := Some recv, s_reads := s_reads s @ [read]\<rparr>) w))"

text \<open>
  One packet through the logic: unwrapped into a fresh block that keeps room for a header,
  and stored where the logic stores it. The verdict is \<open>None\<close> when the packet was dropped.
\<close>

definition hand_over ::
  "('l, 'x) vtable \<Rightarrow> nat \<Rightarrow> protocol_head \<Rightarrow> reusable_buffer \<Rightarrow> ('l, 'x) world \<Rightarrow>
   ((bool option \<times> reusable_buffer) \<times> ('l, 'x) world) res" where
  "hand_over vt sid head data_block w =
     (let (unwrap_data, w) = temp_buffer w in
      rbind (get_logic sid w) (\<lambda>l.
      let unwrap_data = unwrap_data\<lparr>buf_offset := vt_prefix_size vt l\<rparr> in
      rbind (vt_unwrap vt sid l data_block head unwrap_data w) (\<lambda>((ok, data_block, unwrap_data), w).
      if \<not> ok then Inr ((None, data_block), w)
      else
        rbind (get_logic sid w) (\<lambda>l.
        rbind (vt_store vt sid l unwrap_data head w) (\<lambda>(stored, w).
        Inr ((Some stored, data_block), w))))))"

text \<open>The retry timer: arming it again cancels the wait before.\<close>

definition arm_retry_timer :: "'l session \<Rightarrow> 'l session" where
  "arm_retry_timer s = s\<lparr>s_timer := True,
     s_timer_cancelled := s_timer_cancelled s + (if s_timer s then 1 else 0)\<rparr>"

text \<open>Dropping the first bytes of the receive buffer; an empty one goes back to the pool.\<close>

definition consume ::
  "nat \<times> reusable_buffer \<Rightarrow> u64 \<Rightarrow> (nat \<times> reusable_buffer) option res" where
  "consume recv already_read =
     (let (name, b) = recv; b = b\<lparr>buf_length := buf_length b - already_read\<rparr>
      in if buf_length b \<noteq> 0
         then rbind (buf_get b (buffer_at b already_read) (unat (buf_length b))) (\<lambda>rest.
              rbind (buf_put b (buffer_at b 0) rest) (\<lambda>b. Inr (Some (name, b))))
         else Inr None)"

definition pick_a_entire_msg ::
  "('l, 'x) vtable \<Rightarrow> nat \<Rightarrow> reusable_buffer \<Rightarrow> ('l, 'x) world \<Rightarrow>
   ((bool \<times> reusable_buffer) \<times> ('l, 'x) world) res" where
  "pick_a_entire_msg vt sid data_block w =
     rbind (get_session sid w) (\<lambda>s.
     case s_recv s of None \<Rightarrow> Inr ((False, data_block), w)
     | Some (name, b) \<Rightarrow>
       if buf_length b < of_nat PROTO_HEAD_SIZE then Inr ((False, data_block), w)
       else
         rbind (unpack_head (\<lambda>o' n. buf_get b (buffer_at b (of_nat o')) n)) (\<lambda>head.
         if buf_length b - of_nat PROTO_HEAD_SIZE < ucast (head_len head)
         then Inr ((False, data_block), w)
         else
           rbind (unpack_msg (\<lambda>o' n. buf_get b (buffer_at b (of_nat PROTO_HEAD_SIZE + of_nat o')) n) (head_len head))
             (\<lambda>msg.
           rbind (buf_put data_block (buffer_at data_block 0) msg) (\<lambda>data_block.
           let data_block = data_block\<lparr>buf_length := ucast (head_len head)\<rparr>;
               already_read = of_nat PROTO_HEAD_SIZE + ucast (head_len head)
           in
           rbind (hand_over vt sid head data_block w) (\<lambda>((verdict, data_block), w).
           if verdict = Some False
           then rbind (upd_session sid arm_retry_timer w) (\<lambda>w. Inr ((False, data_block), w))
           else
             rbind (get_session sid w) (\<lambda>s.
             case s_recv s of None \<Rightarrow> Inl NullDeref
             | Some recv \<Rightarrow>
               rbind (consume recv already_read) (\<lambda>recv.
               Inr ((True, data_block), put_session sid (s\<lparr>s_recv := recv\<rparr>) w))))))))"

text \<open>The loop of \<open>pick_entire_msgs\<close>. Every packet takes 11 bytes at least.\<close>

fun pick_loop ::
  "nat \<Rightarrow> ('l, 'x) vtable \<Rightarrow> nat \<Rightarrow> reusable_buffer \<Rightarrow> ('l, 'x) world \<Rightarrow> ('l, 'x) world res" where
  "pick_loop 0 vt sid data_block w = Inl Diverged"
| "pick_loop (Suc fuel) vt sid data_block w =
     rbind (pick_a_entire_msg vt sid data_block w) (\<lambda>((again, data_block), w).
     if again then pick_loop fuel vt sid data_block w else Inr w)"

abbreviation pick_fuel :: nat where
  "pick_fuel \<equiv> 6000"

definition pick_entire_msgs :: "('l, 'x) vtable \<Rightarrow> nat \<Rightarrow> ('l, 'x) world \<Rightarrow> ('l, 'x) world res" where
  "pick_entire_msgs vt sid w =
     (let (tmp_buffer, w) = temp_buffer w in
      rbind (pick_loop pick_fuel vt sid tmp_buffer w) (\<lambda>w.
      async_recv_loop sid w))"

section \<open>Handlers\<close>

text \<open>
  A read finished: the bytes are in the buffer it was started on, wherever that is now. The
  handler goes on after an error.
\<close>

definition deliver_read :: "pending_read \<Rightarrow> byte list \<Rightarrow> nat \<times> reusable_buffer \<Rightarrow> (nat \<times> reusable_buffer) res" where
  "deliver_read pr bs recv =
     (let (name, b) = recv in
      rbind (if bs = [] then Inr b
             else if name = pr_buffer pr then buf_put b (pr_pos pr) bs
             else Inl StaleBuffer) (\<lambda>b.
      Inr (name, b\<lparr>buf_length := buf_length b + of_nat (length bs)\<rparr>)))"

definition read_done ::
  "('l, 'x) vtable \<Rightarrow> nat \<Rightarrow> bool \<Rightarrow> byte list \<Rightarrow> ('l, 'x) world \<Rightarrow> ('l, 'x) world res" where
  "read_done vt sid ec bs w =
     rbind (get_session sid w) (\<lambda>s.
     case s_reads s of [] \<Rightarrow> Inr w
     | pr # rest \<Rightarrow>
       let w = put_session sid (s\<lparr>s_reads := rest\<rparr>) w in
       rbind (update_recv_time sid w) (\<lambda>w.
       rbind (if ec then close_session sid False w else Inr w) (\<lambda>w.
       rbind (get_session sid w) (\<lambda>s.
       case s_recv s of None \<Rightarrow> Inl NullDeref
       | Some recv \<Rightarrow>
         rbind (deliver_read pr bs recv) (\<lambda>recv.
         pick_entire_msgs vt sid (put_session sid (s\<lparr>s_recv := Some recv\<rparr>) w))))))"

definition retry_timer_done :: "('l, 'x) vtable \<Rightarrow> nat \<Rightarrow> bool \<Rightarrow> ('l, 'x) world \<Rightarrow> ('l, 'x) world res" where
  "retry_timer_done vt sid ec w =
     rbind (upd_session sid (\<lambda>s. if ec then s\<lparr>s_timer_cancelled := s_timer_cancelled s - 1\<rparr>
                                else s\<lparr>s_timer := False\<rparr>) w) (\<lambda>w.
     if ec then close_session sid False w else pick_entire_msgs vt sid w)"

text \<open>Connecting, actively and passively; \<open>cb\<close> is the callback given to \<open>async_connect\<close>.\<close>

definition async_connect :: "nat \<Rightarrow> ('l, 'x) world \<Rightarrow> ('l, 'x) world res" where
  "async_connect sid w =
     rbind (get_session sid w) (\<lambda>s.
     if s_logic s = None then Inr w
     else if s_state s \<noteq> INIT then Inr w
     else Inr (put_session sid (s\<lparr>s_state := WAIT_CONNECT, s_open := True\<rparr>) w))"

definition connect_done ::
  "(('l, 'x) world \<Rightarrow> ('l, 'x) world res) option \<Rightarrow> nat \<Rightarrow> bool \<Rightarrow> u32 \<Rightarrow> ('l, 'x) world \<Rightarrow> ('l, 'x) world res" where
  "connect_done cb sid ec ip w =
     (if ec then close_session sid False w
      else
        rbind (upd_session sid (\<lambda>s. s\<lparr>s_state := CONNECTING, s_remote_ip := Some ip\<rparr>) w) (\<lambda>w.
        rbind (async_recv_loop sid w) (\<lambda>w.
        case cb of None \<Rightarrow> Inr w | Some f \<Rightarrow> f w)))"

definition passively_connect_succ :: "nat \<Rightarrow> ('l, 'x) world \<Rightarrow> ('l, 'x) world res" where
  "passively_connect_succ sid w =
     rbind (upd_session sid (\<lambda>s. s\<lparr>s_state := CONNECTING\<rparr>) w) (\<lambda>w. async_recv_loop sid w)"

section \<open>What a list of bytes holds in whole packets\<close>

function split_frames :: "byte list \<Rightarrow> (protocol_head \<times> byte list) list \<times> byte list" where
  "split_frames bs =
     (if length bs < PROTO_HEAD_SIZE then ([], bs)
      else let h = head_of_bytes (take PROTO_HEAD_SIZE bs);
               body = drop PROTO_HEAD_SIZE bs; n = unat (head_len h)
           in if length body < n then ([], bs)
              else let (fs, rest) = split_frames (drop n body) in ((h, take n body) # fs, rest))"
  by pat_completeness auto
termination by (relation "measure length") auto

declare split_frames.simps [simp del]

definition frame_bytes :: "protocol_head \<times> byte list \<Rightarrow> byte list" where
  "frame_bytes f = head_bytes (fst f) @ snd f"

definition frame_ok :: "protocol_head \<times> byte list \<Rightarrow> bool" where
  "frame_ok f \<longleftrightarrow> length (snd f) = unat (head_len (fst f))"

section \<open>Cutting is independent of where the stream is cut\<close>

lemma split_frames_short: "length bs < PROTO_HEAD_SIZE \<Longrightarrow> split_frames bs = ([], bs)"
  by (subst split_frames.simps) simp

lemma split_frames_waiting:
  "unat (head_len (head_of_bytes (take PROTO_HEAD_SIZE bs))) > length bs - PROTO_HEAD_SIZE \<Longrightarrow>
   split_frames bs = ([], bs)"
  by (subst split_frames.simps) (simp add: Let_def)

lemma split_frames_take:
  assumes "PROTO_HEAD_SIZE \<le> length bs" "h = head_of_bytes (take PROTO_HEAD_SIZE bs)"
    "unat (head_len h) \<le> length bs - PROTO_HEAD_SIZE"
  shows "split_frames bs =
    ((h, take (unat (head_len h)) (drop PROTO_HEAD_SIZE bs))
       # fst (split_frames (drop (PROTO_HEAD_SIZE + unat (head_len h)) bs)),
     snd (split_frames (drop (PROTO_HEAD_SIZE + unat (head_len h)) bs)))"
  using assms by (subst split_frames.simps) (simp add: Let_def split_beta add.commute)

text \<open>The three cases a list of received bytes is in.\<close>

lemma split_frames_cases [case_names short waiting frame]:
  fixes bs :: "byte list"
  obtains "length bs < PROTO_HEAD_SIZE"
  | "PROTO_HEAD_SIZE \<le> length bs"
    "length bs - PROTO_HEAD_SIZE < unat (head_len (head_of_bytes (take PROTO_HEAD_SIZE bs)))"
  | "PROTO_HEAD_SIZE \<le> length bs"
    "unat (head_len (head_of_bytes (take PROTO_HEAD_SIZE bs))) \<le> length bs - PROTO_HEAD_SIZE"
  by (meson not_less)

lemma split_frames_append:
  "split_frames (xs @ ys) =
     (fst (split_frames xs) @ fst (split_frames (snd (split_frames xs) @ ys)),
      snd (split_frames (snd (split_frames xs) @ ys)))"
proof (induction "length xs" arbitrary: xs rule: less_induct)
  case less
  show ?case
  proof (cases xs rule: split_frames_cases)
    case short
    then show ?thesis by (simp add: split_frames_short)
  next
    case waiting
    then show ?thesis by (simp add: split_frames_waiting)
  next
    case frame
    let ?h = "head_of_bytes (take PROTO_HEAD_SIZE xs)" and ?n = "unat (head_len (head_of_bytes (take PROTO_HEAD_SIZE xs)))"
    let ?xs = "drop (PROTO_HEAD_SIZE + ?n) xs"
    have h: "head_of_bytes (take PROTO_HEAD_SIZE (xs @ ys)) = ?h" using frame by simp
    have s1: "split_frames xs = ((?h, take ?n (drop PROTO_HEAD_SIZE xs)) # fst (split_frames ?xs), snd (split_frames ?xs))"
      by (rule split_frames_take) (use frame in simp_all)
    have s2: "split_frames (xs @ ys) =
        ((?h, take ?n (drop PROTO_HEAD_SIZE (xs @ ys))) # fst (split_frames (drop (PROTO_HEAD_SIZE + ?n) (xs @ ys))),
         snd (split_frames (drop (PROTO_HEAD_SIZE + ?n) (xs @ ys))))"
      by (rule split_frames_take) (use frame h in simp_all)
    have d: "drop (PROTO_HEAD_SIZE + ?n) (xs @ ys) = ?xs @ ys"
      "take ?n (drop PROTO_HEAD_SIZE (xs @ ys)) = take ?n (drop PROTO_HEAD_SIZE xs)"
      using frame by simp_all
    have "split_frames (?xs @ ys) = (fst (split_frames ?xs) @ fst (split_frames (snd (split_frames ?xs) @ ys)),
        snd (split_frames (snd (split_frames ?xs) @ ys)))"
      by (rule less) (use frame in simp)
    then show ?thesis unfolding s1 s2 d by simp
  qed
qed

text \<open>Nothing is lost or made up: the packets and the rest are the bytes.\<close>

lemma head_bytes_of_bytes:
  assumes "length bs = PROTO_HEAD_SIZE"
  shows "head_bytes (head_of_bytes bs) = bs"
proof -
  obtain a b c d e f g h i j k where bs: "bs = [a, b, c, d, e, f, g, h, i, j, k]"
    using assms by (auto simp: length_Suc_conv eval_nat_numeral)
  have le16: "le16 (of_le16 x y) = [x, y]" for x y
    unfolding le16_def of_le16_def
    by (auto intro!: bit_word_eqI simp: bit_simps)
  have le32: "le32 (of_le32 x y z u) = [x, y, z, u]" for x y z u
    unfolding le32_def of_le32_def
    by (auto intro!: bit_word_eqI simp: bit_simps)
  show ?thesis by (simp add: bs head_of_bytes_def head_bytes_def le16 le32)
qed

lemma split_frames_bytes:
  "concat (map frame_bytes (fst (split_frames bs))) @ snd (split_frames bs) = bs
   \<and> (\<forall>f \<in> set (fst (split_frames bs)). frame_ok f)
   \<and> fst (split_frames (snd (split_frames bs))) = []"
proof (induction "length bs" arbitrary: bs rule: less_induct)
  case less
  show ?case
  proof (cases bs rule: split_frames_cases)
    case short
    then show ?thesis by (simp add: split_frames_short)
  next
    case waiting
    then show ?thesis by (simp add: split_frames_waiting)
  next
    case frame
    let ?h = "head_of_bytes (take PROTO_HEAD_SIZE bs)" and ?n = "unat (head_len (head_of_bytes (take PROTO_HEAD_SIZE bs)))"
    let ?bs = "drop (PROTO_HEAD_SIZE + ?n) bs"
    have s1: "split_frames bs = ((?h, take ?n (drop PROTO_HEAD_SIZE bs)) # fst (split_frames ?bs), snd (split_frames ?bs))"
      by (rule split_frames_take) (use frame in simp_all)
    have ih: "concat (map frame_bytes (fst (split_frames ?bs))) @ snd (split_frames ?bs) = ?bs"
      "\<forall>f \<in> set (fst (split_frames ?bs)). frame_ok f"
      "fst (split_frames (snd (split_frames ?bs))) = []"
      using less [of ?bs] frame by simp_all
    have hb: "head_bytes ?h = take PROTO_HEAD_SIZE bs"
      by (rule head_bytes_of_bytes) (use frame in simp)
    have "frame_bytes (?h, take ?n (drop PROTO_HEAD_SIZE bs)) @ ?bs = bs"
      using append_take_drop_id [of ?n "drop PROTO_HEAD_SIZE bs"]
      by (simp add: frame_bytes_def hb add.commute)
    moreover have "frame_ok (?h, take ?n (drop PROTO_HEAD_SIZE bs))"
      using frame by (simp add: frame_ok_def)
    ultimately show ?thesis unfolding s1 using ih by simp
  qed
qed

end
