(* ===== verification/Session_Framing.thy ===== *)
theory Session_Framing
  imports Session_Receive
begin

text \<open>
  The packet loop of the session against its specification: whatever logic is plugged in,
  as long as its operations are calm, \<open>pick_entire_msgs\<close> hands the logic exactly the packets
  \<open>split_frames\<close> finds in the received bytes, in their order, and keeps the rest. The
  interface is the locale \<open>session_logic\<close>; the proxy's logics are interpreted in it in
  \<open>Proxy_Manager\<close>.
\<close>

section \<open>The receive buffer\<close>

definition recv_ok :: "reusable_buffer \<Rightarrow> bool" where
  "recv_ok b \<longleftrightarrow> buf_SIZE b = ONCE_BUFFER_SIZE \<and> buf_offset b = 0 \<and> unat (buf_length b) \<le> 65536"

definition recv_bytes :: "reusable_buffer \<Rightarrow> byte list" where
  "recv_bytes b = mem_read (buf_bytes b) 0 (unat (buf_length b))"

fun recv_content :: "(nat \<times> reusable_buffer) option \<Rightarrow> byte list" where
  "recv_content None = []"
| "recv_content (Some (name, b)) = recv_bytes b"

fun recv_good :: "(nat \<times> reusable_buffer) option \<Rightarrow> bool" where
  "recv_good None \<longleftrightarrow> True"
| "recv_good (Some (name, b)) \<longleftrightarrow> recv_ok b"

definition block_ok :: "reusable_buffer \<Rightarrow> bool" where
  "block_ok db \<longleftrightarrow> buf_SIZE db = ONCE_BUFFER_SIZE \<and> buf_offset db = 0"

text \<open>The scratch block with the payload of a packet in it.\<close>

definition with_body :: "reusable_buffer \<Rightarrow> protocol_head \<Rightarrow> byte list \<Rightarrow> reusable_buffer" where
  "with_body db h body =
     db\<lparr>buf_bytes := mem_write (buf_bytes db) 0 body, buf_length := ucast (head_len h)\<rparr>"

lemma length_recv_bytes [simp]: "length (recv_bytes b) = unat (buf_length b)"
  by (simp add: recv_bytes_def)

lemma once_size [simp]: "unat ONCE_BUFFER_SIZE = 65536"
  by simp

lemma unat_len16 [simp]: "unat (ucast (n :: u16) :: u64) = unat n"
  by (rule unat_ucast_up) simp

lemma len16_less: "unat (n :: u16) < 65536"
  using unsigned_less [of n, where ?'a = nat] by simp

lemma recv_get:
  assumes "recv_ok b" "p + n \<le> unat (buf_length b)"
  shows "buf_get b (of_nat p) n = Inr (take n (drop p (recv_bytes b)))"
proof -
  have "unat (of_nat p :: u64) = p"
    using assms by (intro unat_of_nat_small) (simp add: recv_ok_def)
  then show ?thesis using assms
    by (simp add: buf_get_def recv_ok_def recv_bytes_def mem_read_drop mem_read_take)
qed

lemma recv_head:
  assumes "recv_ok b" "PROTO_HEAD_SIZE \<le> unat (buf_length b)"
  shows "unpack_head (\<lambda>o' n. buf_get b (buffer_at b (of_nat o')) n)
    = Inr (head_of_bytes (take PROTO_HEAD_SIZE (recv_bytes b)))"
  using recv_get [of b 0 PROTO_HEAD_SIZE] assms by (simp add: unpack_head_def recv_ok_def)

lemma recv_msg:
  assumes "recv_ok b" "PROTO_HEAD_SIZE + unat n \<le> unat (buf_length b)"
  shows "unpack_msg (\<lambda>o' k. buf_get b (buffer_at b (of_nat PROTO_HEAD_SIZE + of_nat o')) k) n
    = Inr (take (unat n) (drop PROTO_HEAD_SIZE (recv_bytes b)))"
  using recv_get [of b PROTO_HEAD_SIZE "unat n"] assms
  by (simp add: unpack_msg_def recv_ok_def buffer_at_def)

lemma put_body:
  assumes "block_ok db" "length body < 65536"
  shows "buf_put db (buffer_at db 0) body = Inr (db\<lparr>buf_bytes := mem_write (buf_bytes db) 0 body\<rparr>)"
  using assms by (simp add: buf_put_def block_ok_def)

lemma consume_recv:
  assumes "recv_ok b" "n \<le> unat (buf_length b)"
  shows "\<exists>r. consume (name, b) (of_nat n) = Inr r \<and> recv_good r \<and> recv_content r = drop n (recv_bytes b)
    \<and> (\<forall>x b'. r = Some (x, b') \<longrightarrow> x = name)"
proof -
  let ?m = "unat (buf_length b) - n"
  have n: "unat (of_nat n :: u64) = n"
    using assms by (intro unat_of_nat_small) (simp add: recv_ok_def)
  have m: "unat (buf_length b - of_nat n) = ?m" using assms(2) n by (subst unat_sub_small) simp_all
  show ?thesis
  proof (cases "?m = 0")
    case True
    then have "buf_length b - of_nat n = 0" using m by (simp only: unat_eq_0)
    with True show ?thesis by (simp add: consume_def)
  next
    case False
    let ?b = "b\<lparr>buf_length := buf_length b - of_nat n\<rparr>"
    let ?r = "drop n (recv_bytes b)"
    have ne: "buf_length b - of_nat n \<noteq> 0" using False m by (metis unsigned_0)
    have "buf_get b (of_nat n) ?m = Inr (take ?m ?r)" by (rule recv_get [OF assms(1)]) (use assms in simp)
    then have g: "buf_get ?b (buffer_at ?b (of_nat n)) ?m = Inr ?r"
    proof -
      have "buf_get ?b (buffer_at ?b (of_nat n)) ?m = buf_get b (of_nat n) ?m"
        using assms(1) by (simp add: buf_get_def buffer_at_def recv_ok_def)
      with \<open>buf_get b (of_nat n) ?m = Inr (take ?m ?r)\<close> show ?thesis by simp
    qed
    have p: "buf_put ?b (buffer_at ?b 0) ?r = Inr (?b\<lparr>buf_bytes := mem_write (buf_bytes b) 0 ?r\<rparr>)"
      using assms(1) by (auto simp: buf_put_def recv_ok_def)
    have c: "consume (name, b) (of_nat n) = Inr (Some (name, ?b\<lparr>buf_bytes := mem_write (buf_bytes b) 0 ?r\<rparr>))"
      using ne g p by (simp add: consume_def m)
    have "recv_ok (?b\<lparr>buf_bytes := mem_write (buf_bytes b) 0 ?r\<rparr>)"
      using assms(1) m by (auto simp: recv_ok_def)
    moreover have "recv_bytes (?b\<lparr>buf_bytes := mem_write (buf_bytes b) 0 ?r\<rparr>) = ?r"
      using m by (simp add: recv_bytes_def mem_simps)
    ultimately show ?thesis using c by simp
  qed
qed

section \<open>One round of the loop\<close>

lemma pick_nothing:
  assumes "w_sessions w sid = Some s" "recv_good (s_recv s)" "fst (split_frames (recv_content (s_recv s))) = []"
  shows "pick_a_entire_msg vt sid db w = Inr ((False, db), w)"
proof (cases "s_recv s")
  case None
  then show ?thesis using assms(1) by (simp add: pick_a_entire_msg_def get_session_def)
next
  case (Some r)
  obtain name b where r: "r = (name, b)" by (cases r)
  have ok: "recv_ok b" and none: "fst (split_frames (recv_bytes b)) = []"
    using assms Some r by simp_all
  show ?thesis
  proof (cases "recv_bytes b" rule: split_frames_cases)
    case short
    then show ?thesis using assms(1) Some r
      by (simp add: pick_a_entire_msg_def get_session_def word_less_nat_alt)
  next
    case waiting
    then have "PROTO_HEAD_SIZE \<le> unat (buf_length b)" by simp
    moreover from this have "unat (buf_length b - 11) = unat (buf_length b) - 11"
      by (subst unat_sub_small) simp_all
    ultimately show ?thesis using assms(1) Some r waiting recv_head [OF ok]
      by (simp add: pick_a_entire_msg_def get_session_def word_less_nat_alt)
  next
    case frame
    then have "fst (split_frames (recv_bytes b)) \<noteq> []" by (simp add: split_frames_take)
    with none show ?thesis by simp
  qed
qed

lemma pick_frame:
  assumes s: "w_sessions w sid = Some s" "s_recv s = Some (name, b)" and ok: "recv_ok b" "block_ok db"
    and split: "split_frames (recv_bytes b) = ((h, body) # fs, rest)"
  shows "pick_a_entire_msg vt sid db w =
     rbind (hand_over vt sid h (with_body db h body) w) (\<lambda>((verdict, data_block), w).
       if verdict = Some False
       then rbind (upd_session sid arm_retry_timer w) (\<lambda>w. Inr ((False, data_block), w))
       else
         rbind (get_session sid w) (\<lambda>s.
         case s_recv s of None \<Rightarrow> Inl NullDeref
         | Some recv \<Rightarrow>
           rbind (consume recv (of_nat (PROTO_HEAD_SIZE + length body))) (\<lambda>recv.
           Inr ((True, data_block), put_session sid (s\<lparr>s_recv := recv\<rparr>) w))))"
    and "split_frames (drop (PROTO_HEAD_SIZE + length body) (recv_bytes b)) = (fs, rest)"
    and "PROTO_HEAD_SIZE + length body \<le> unat (buf_length b)"
proof -
  have fr: "PROTO_HEAD_SIZE \<le> length (recv_bytes b)"
    "unat (head_len (head_of_bytes (take PROTO_HEAD_SIZE (recv_bytes b)))) \<le> length (recv_bytes b) - PROTO_HEAD_SIZE"
    using split by (cases "recv_bytes b" rule: split_frames_cases; simp add: split_frames_short split_frames_waiting)+
  have h: "h = head_of_bytes (take PROTO_HEAD_SIZE (recv_bytes b))"
    and body: "body = take (unat (head_len h)) (drop PROTO_HEAD_SIZE (recv_bytes b))"
    and more: "split_frames (drop (PROTO_HEAD_SIZE + unat (head_len h)) (recv_bytes b)) = (fs, rest)"
    using split split_frames_take [OF fr(1) refl fr(2)] by (auto simp: prod_eq_iff)
  have lb: "length body = unat (head_len h)" using fr by (simp add: body h)
  show "split_frames (drop (PROTO_HEAD_SIZE + length body) (recv_bytes b)) = (fs, rest)"
    using more lb by simp
  show le: "PROTO_HEAD_SIZE + length body \<le> unat (buf_length b)" using fr lb h by simp
  have len: "\<not> buf_length b < of_nat PROTO_HEAD_SIZE" using fr(1) by (simp add: word_less_nat_alt)
  have "unat (buf_length b - of_nat PROTO_HEAD_SIZE) = unat (buf_length b) - PROTO_HEAD_SIZE"
    using fr(1) by (subst unat_sub_small) simp_all
  then have whole: "\<not> buf_length b - of_nat PROTO_HEAD_SIZE < ucast (head_len h)"
    using le lb by (simp add: word_less_nat_alt)
  have un: "unpack_head (\<lambda>o' n. buf_get b (buffer_at b (of_nat o')) n) = Inr h"
    using recv_head [OF ok(1)] fr(1) h by simp
  have msg: "unpack_msg (\<lambda>o' k. buf_get b (buffer_at b (of_nat PROTO_HEAD_SIZE + of_nat o')) k) (head_len h) = Inr body"
    using recv_msg [OF ok(1)] le lb body by simp
  have put: "buf_put db (buffer_at db 0) body = Inr (db\<lparr>buf_bytes := mem_write (buf_bytes db) 0 body\<rparr>)"
    by (rule put_body [OF ok(2)]) (use lb len16_less in simp)
  have w: "db\<lparr>buf_bytes := mem_write (buf_bytes db) 0 body\<rparr>\<lparr>buf_length := ucast (head_len h)\<rparr> = with_body db h body"
    by (simp add: with_body_def)
  have n: "of_nat PROTO_HEAD_SIZE + ucast (head_len h) = (of_nat (PROTO_HEAD_SIZE + length body) :: u64)"
    by (simp add: lb)
  have g: "get_session sid w = Inr s" using s(1) by simp
  show "pick_a_entire_msg vt sid db w =
     rbind (hand_over vt sid h (with_body db h body) w) (\<lambda>((verdict, data_block), w).
       if verdict = Some False
       then rbind (upd_session sid arm_retry_timer w) (\<lambda>w. Inr ((False, data_block), w))
       else
         rbind (get_session sid w) (\<lambda>s.
         case s_recv s of None \<Rightarrow> Inl NullDeref
         | Some recv \<Rightarrow>
           rbind (consume recv (of_nat (PROTO_HEAD_SIZE + length body))) (\<lambda>recv.
           Inr ((True, data_block), put_session sid (s\<lparr>s_recv := recv\<rparr>) w))))"
    unfolding pick_a_entire_msg_def g rbind_Inr s(2) option.case prod.case if_not_P [OF len] un
      if_not_P [OF whole] msg put Let_def w n by (rule refl)
qed

section \<open>The loop hands over what \<open>split_frames\<close> finds\<close>

lemma split_frames_length:
  assumes "split_frames bs = ((h, body) # fs, rest)"
  shows "length body + PROTO_HEAD_SIZE \<le> length bs"
proof -
  have "length bs = length (concat (map frame_bytes (fst (split_frames bs))) @ snd (split_frames bs))"
    using split_frames_bytes [of bs] by simp
  then show ?thesis by (simp add: assms frame_bytes_def)
qed

text \<open>
  The packets \<open>fs\<close> handed to the logic one after the other, up to one it could not store
  (\<open>left\<close> is what remains then, that packet first). Between two packets the receive buffer
  of the session moves on; nothing else happens.
\<close>

inductive handed ::
  "('l, 'x) vtable \<Rightarrow> nat \<Rightarrow> (protocol_head \<times> byte list) list \<Rightarrow> reusable_buffer \<Rightarrow> ('l, 'x) world \<Rightarrow>
   (protocol_head \<times> byte list) list \<Rightarrow> ('l, 'x) world \<Rightarrow> bool"
  for vt :: "('l, 'x) vtable" and sid :: nat where
  handed_none: "handed vt sid [] db w [] w"
| handed_next: "handed vt sid ((h, body) # fs) db w left w'"
  if "hand_over vt sid h (with_body db h body) w = Inr ((v, db1), w1)" "v \<noteq> Some False"
    "w_sessions w1 sid = Some s" "handed vt sid fs db1 (put_session sid (s\<lparr>s_recv := r\<rparr>) w1) left w'"
| handed_refused: "handed vt sid ((h, body) # fs) db w ((h, body) # fs) w'"
  if "hand_over vt sid h (with_body db h body) w = Inr ((Some False, db1), w1)"
    "upd_session sid arm_retry_timer w1 = Inr w'"

text \<open>The states and the sockets of all sessions. No handler but the close task and connecting changes them.\<close>

definition lives :: "('l, 'x) world \<Rightarrow> nat \<Rightarrow> (StateSocket \<times> bool) option" where
  "lives w sid = map_option (\<lambda>s. (s_state s, s_open s)) (w_sessions w sid)"

definition states :: "('l, 'x) world \<Rightarrow> ('l, 'x) world \<Rightarrow> bool" where
  "states w w' \<longleftrightarrow> lives w' = lives w"

lemma lives_put [simp]: "lives (put_session sid s w) = (lives w)(sid \<mapsto> (s_state s, s_open s))"
  by (auto simp: lives_def)

lemma lives_session: "w_sessions w sid = Some s \<Longrightarrow> lives w sid = Some (s_state s, s_open s)"
  by (simp add: lives_def)

lemma lives_some: "lives w sid = Some x \<Longrightarrow> \<exists>s. w_sessions w sid = Some s \<and> x = (s_state s, s_open s)"
  by (auto simp: lives_def)

lemma states_refl [simp, intro]: "states w w"
  by (simp add: states_def)

lemma states_at:
  "states w w' \<Longrightarrow> w_sessions w sid = Some s \<Longrightarrow>
   \<exists>s'. w_sessions w' sid = Some s' \<and> s_state s' = s_state s \<and> s_open s' = s_open s"
  using lives_some [of w' sid] by (auto simp: states_def lives_session)

lemma states_calm: "states w0 w \<Longrightarrow> calm w w' \<Longrightarrow> states w0 w'"
proof -
  assume "calm w w'"
  then have "lives w' sid = lives w sid" for sid
    unfolding calm_def by (drule_tac conjunct1) (drule spec [of _ sid],
      cases "w_sessions w sid"; cases "w_sessions w' sid"; simp add: lives_def calm_session_def)
  then show "states w0 w \<Longrightarrow> states w0 w'" by (simp add: states_def fun_eq_iff)
qed

lemma states_put:
  "states w0 w \<Longrightarrow> w_sessions w sid = Some s \<Longrightarrow> s_state s' = s_state s \<Longrightarrow> s_open s' = s_open s \<Longrightarrow>
   states w0 (put_session sid s' w)"
  using lives_session [of w sid s] by (simp add: states_def fun_upd_idem)

lemma states_upd:
  "states w0 w \<Longrightarrow> (\<And>s. s_state (f s) = s_state s) \<Longrightarrow> (\<And>s. s_open (f s) = s_open s) \<Longrightarrow>
   yields (upd_session sid f w) (states w0)"
  by (rule yields_upd_session) (simp add: states_put)

lemma states_pool_buffer: "states w0 w \<Longrightarrow> pool_buffer n w = (b, w') \<Longrightarrow> states w0 w'"
  by (erule states_calm) (rule calm_pool_buffer [OF calm_refl])

lemma states_recv_loop: "states w0 w \<Longrightarrow> yields (async_recv_loop sid w) (states w0)"
  unfolding async_recv_loop_def
  by (rule yields_bind [OF yields_get_session])
    (auto simp: Let_def split: option.splits prod.splits intro!: states_put intro: states_pool_buffer
      dest: pool_buffer_world)

text \<open>What a session asks of the logic plugged into it.\<close>

locale session_logic =
  fixes vt :: "('l, 'x) vtable"
  assumes unwrap_calm: "yields (vt_unwrap vt sid l db h r w) (\<lambda>(x, w'). calm w w' \<and> same_block db (fst (snd x)))"
    and store_calm: "yields (vt_store vt sid l b h w) (\<lambda>(x, w'). calm w w')"
    and wrap_calm: "yields (vt_wrap vt sid l b w) (\<lambda>(x, w'). calm w w')"
begin

lemma hand_over_calm:
  "yields (hand_over vt sid h db w) (\<lambda>(x, w'). calm w w' \<and> same_block db (snd x))"
proof -
  obtain ub w1 where tb: "temp_buffer w = (ub, w1)" by fastforce
  have c1: "calm w w1" using calm_pool_buffer [OF calm_refl tb] .
  show ?thesis unfolding hand_over_def tb Let_def prod.case
  proof (rule yields_bind [OF yields_True], rule yields_bind_pair [OF unwrap_calm])
    fix l and x :: "bool \<times> reusable_buffer \<times> reusable_buffer" and w2
    assume x: "calm w1 w2 \<and> same_block db (fst (snd x))"
    obtain ok db' r' where xe: "x = (ok, db', r')" by (cases x)
    from x have "calm w1 w2 \<and> same_block db db'" by (simp add: xe)
    with c1 have c2: "calm w w2" and sb: "same_block db db'" by (auto intro: calm_trans)
    have "yields (if \<not> ok then Inr ((None, db'), w2)
        else rbind (get_logic sid w2) (\<lambda>l. rbind (vt_store vt sid l r' h w2)
          (\<lambda>(stored, w). Inr ((Some stored, db'), w)))) (\<lambda>(x, w'). calm w w' \<and> same_block db (snd x))"
    proof (rule yields_if)
      show "yields (rbind (get_logic sid w2) (\<lambda>l. rbind (vt_store vt sid l r' h w2)
          (\<lambda>(stored, w). Inr ((Some stored, db'), w)))) (\<lambda>(x, w'). calm w w' \<and> same_block db (snd x))"
        by (rule yields_bind [OF yields_True], rule yields_bind_pair [OF store_calm])
          (use c2 sb in \<open>auto intro: calm_trans\<close>)
    qed (use c2 sb in simp)
    then show "yields ((case x of (ok, data_block, unwrap_data) \<Rightarrow> \<lambda>w.
        if \<not> ok then Inr ((None, data_block), w)
        else rbind (get_logic sid w) (\<lambda>l. rbind (vt_store vt sid l unwrap_data h w)
          (\<lambda>(stored, w). Inr ((Some stored, data_block), w)))) w2)
        (\<lambda>(x, w'). calm w w' \<and> same_block db (snd x))"
      by (simp only: xe prod.case)
  qed
qed

text \<open>A round that found a packet and one that found none, as facts about results.\<close>

lemma pick_round:
  assumes s: "w_sessions w sid = Some s" and good: "recv_good (s_recv s)" "block_ok db"
    and split: "split_frames (recv_content (s_recv s)) = ((h, body) # fs, rest)"
    and run: "pick_a_entire_msg vt sid db w = Inr ((again, db'), w')"
  obtains (moved) v w1 s1 r where "again" "block_ok db'"
      "hand_over vt sid h (with_body db h body) w = Inr ((v, db'), w1)" "v \<noteq> Some False"
      "w_sessions w1 sid = Some s1" "w' = put_session sid (s1\<lparr>s_recv := r\<rparr>) w1" "recv_good r"
      "recv_content r = drop (PROTO_HEAD_SIZE + length body) (recv_content (s_recv s))"
      "split_frames (recv_content r) = (fs, rest)"
      "calm_session s s1" "r \<noteq> None \<longrightarrow> fst (the r) = fst (the (s_recv s))"
  | (refused) w1 s1 where "\<not> again"
      "hand_over vt sid h (with_body db h body) w = Inr ((Some False, db'), w1)"
      "upd_session sid arm_retry_timer w1 = Inr w'" "w_sessions w1 sid = Some s1" "calm_session s s1"
proof -
  obtain name b where r: "s_recv s = Some (name, b)"
    using split by (cases "s_recv s") (auto simp: split_frames_short)
  have ok: "recv_ok b" and sp: "split_frames (recv_bytes b) = ((h, body) # fs, rest)"
    using good(1) split r by simp_all
  note pf = pick_frame [OF s r ok good(2) sp]
  obtain v db1 w1 where ho: "hand_over vt sid h (with_body db h body) w = Inr ((v, db1), w1)"
    using run unfolding pf(1) by (auto simp: rbind_eq_Inr)
  have c: "calm w w1" "same_block (with_body db h body) db1"
    using yieldsD [OF ho hand_over_calm] by simp_all
  then obtain s1 where s1: "w_sessions w1 sid = Some s1" "calm_session s s1"
    using calm_session_at [OF c(1) s] by blast
  have bo: "block_ok db1" using c(2) good(2) by (simp add: block_ok_def same_block_def with_body_def)
  show thesis
  proof (cases "v = Some False")
    case True
    then have "\<not> again" "db' = db1" "upd_session sid arm_retry_timer w1 = Inr w'"
      using run unfolding pf(1) by (auto simp: ho rbind_eq_Inr)
    with refused ho True s1 show ?thesis by blast
  next
    case False
    have r1: "s_recv s1 = Some (name, b)" using s1(2) r by (simp add: calm_session_def)
    obtain r' where cr: "consume (name, b) (of_nat (PROTO_HEAD_SIZE + length body)) = Inr r'" "recv_good r'"
        "recv_content r' = drop (PROTO_HEAD_SIZE + length body) (recv_bytes b)"
        "\<forall>x b'. r' = Some (x, b') \<longrightarrow> x = name"
      using consume_recv [OF ok pf(3)] by blast
    have g1: "get_session sid w1 = Inr s1" using s1(1) by simp
    have "again" "db' = db1" "w' = put_session sid (s1\<lparr>s_recv := r'\<rparr>) w1"
      using run False unfolding pf(1) ho rbind_Inr prod.case if_not_P [OF False] g1 r1 option.case cr(1)
      by simp_all
    moreover have "r' \<noteq> None \<longrightarrow> fst (the r') = fst (the (s_recv s))" using cr(4) r by auto
    ultimately show ?thesis using moved ho False s1 cr bo pf(2) r by simp
  qed
qed

lemma pick_loop_hands_over:
  assumes "w_sessions w sid = Some s" "recv_good (s_recv s)" "block_ok db"
    and "length (recv_content (s_recv s)) < PROTO_HEAD_SIZE * fuel"
    and "pick_loop fuel vt sid db w = Inr w'"
  shows "\<exists>left s'. handed vt sid (fst (split_frames (recv_content (s_recv s)))) db w left w'
    \<and> w_sessions w' sid = Some s' \<and> recv_good (s_recv s')
    \<and> recv_content (s_recv s') = concat (map frame_bytes left) @ snd (split_frames (recv_content (s_recv s)))
    \<and> (left \<noteq> [] \<longrightarrow> s_timer s')"
  using assms
proof (induction fuel arbitrary: w s db)
  case 0
  then show ?case by simp
next
  case (Suc fuel)
  let ?bs = "recv_content (s_recv s)"
  show ?case
  proof (cases "fst (split_frames ?bs)")
    case Nil
    with Suc.prems have "w' = w" by (simp add: pick_nothing)
    moreover have "snd (split_frames ?bs) = ?bs" using split_frames_bytes [of ?bs] Nil by simp
    ultimately show ?thesis using Nil Suc.prems(1,2)
      by (intro exI [of _ "[]"] exI [of _ s]) (simp add: handed_none)
  next
    case (Cons f fs)
    obtain h body where f: "f = (h, body)" by (cases f)
    have split: "split_frames ?bs = ((h, body) # fs, snd (split_frames ?bs))"
      using Cons f by (metis prod.collapse)
    obtain again db' w1 where run: "pick_a_entire_msg vt sid db w = Inr ((again, db'), w1)"
        and rest: "(if again then pick_loop fuel vt sid db' w1 else Inr w1) = Inr w'"
      using Suc.prems(5) by (auto simp: rbind_eq_Inr)
    from Suc.prems(1-3) split run show ?thesis
    proof (cases rule: pick_round)
      case (moved v w2 s2 r)
      let ?s = "s2\<lparr>s_recv := r\<rparr>"
      have "length body + PROTO_HEAD_SIZE \<le> length ?bs"
        using split by (rule split_frames_length)
      then have "length (recv_content (s_recv ?s)) < PROTO_HEAD_SIZE * fuel"
        using Suc.prems(4) moved(8) by simp
      moreover have "pick_loop fuel vt sid db' (put_session sid ?s w2) = Inr w'"
        using rest moved(1,6) by simp
      ultimately have "\<exists>left s'. handed vt sid (fst (split_frames (recv_content (s_recv ?s)))) db' (put_session sid ?s w2) left w'
          \<and> w_sessions w' sid = Some s' \<and> recv_good (s_recv s')
          \<and> recv_content (s_recv s') = concat (map frame_bytes left) @ snd (split_frames (recv_content (s_recv ?s)))
          \<and> (left \<noteq> [] \<longrightarrow> s_timer s')"
        by (intro Suc.IH moved(2)) (use moved(7) in simp_all)
      then obtain left s' where l: "handed vt sid fs db' (put_session sid ?s w2) left w'"
          "w_sessions w' sid = Some s'" "recv_good (s_recv s')"
          "recv_content (s_recv s') = concat (map frame_bytes left) @ snd (split_frames ?bs)"
          "left \<noteq> [] \<longrightarrow> s_timer s'" using moved(9) by auto
      have "handed vt sid ((h, body) # fs) db w left w'"
        using handed_next [OF moved(3-5) l(1)] .
      with l Cons f show ?thesis by auto
    next
      case (refused w2 s2)
      then have w': "w' = w1" "w1 = put_session sid (arm_retry_timer s2) w2"
        using rest by (auto simp: upd_session_Inr)
      have h: "handed vt sid ((h, body) # fs) db w ((h, body) # fs) w'"
        using handed_refused [OF refused(2)] refused(3) w' by simp
      have "s_recv (arm_retry_timer s2) = s_recv s" "s_timer (arm_retry_timer s2)"
        using refused(5) by (simp_all add: arm_retry_timer_def calm_session_def)
      moreover have "concat (map frame_bytes ((h, body) # fs)) @ snd (split_frames ?bs) = ?bs"
        using split_frames_bytes [of ?bs] Cons f by simp
      moreover have "w_sessions w' sid = Some (arm_retry_timer s2)" using w' by simp
      ultimately show ?thesis using h Cons f Suc.prems(2) by (metis list.distinct(1))
    qed
  qed
qed

text \<open>The fuel does not matter once it is enough: the loop ends.\<close>

lemma pick_loop_fuel:
  assumes "w_sessions w sid = Some s" "recv_good (s_recv s)" "block_ok db"
    and "length (recv_content (s_recv s)) < PROTO_HEAD_SIZE * fuel" "fuel \<le> fuel'"
  shows "pick_loop fuel vt sid db w = pick_loop fuel' vt sid db w"
  using assms
proof (induction fuel arbitrary: fuel' w s db)
  case 0
  then show ?case by simp
next
  case (Suc fuel)
  then obtain k where k: "fuel' = Suc k" "fuel \<le> k" by (metis Suc_le_D Suc_le_mono)
  let ?bs = "recv_content (s_recv s)"
  show ?case
  proof (cases "pick_a_entire_msg vt sid db w")
    case (Inl e)
    then show ?thesis by (simp add: k)
  next
    case (Inr x)
    then obtain again db' w1 where run: "pick_a_entire_msg vt sid db w = Inr ((again, db'), w1)"
      by (metis prod.collapse)
    have "pick_loop fuel vt sid db' w1 = pick_loop k vt sid db' w1" if again
    proof (cases "fst (split_frames ?bs)")
      case Nil
      with Suc.prems(1,2) run that show ?thesis by (simp add: pick_nothing)
    next
      case (Cons f fs)
      obtain h body where f: "f = (h, body)" by (cases f)
      have split: "split_frames ?bs = ((h, body) # fs, snd (split_frames ?bs))"
        using Cons f by (metis prod.collapse)
      from Suc.prems(1-3) split run show ?thesis
      proof (cases rule: pick_round)
        case (moved v w2 s2 r)
        have "length body + PROTO_HEAD_SIZE \<le> length ?bs"
          using split by (rule split_frames_length)
        then have less: "length (recv_content (s_recv (s2\<lparr>s_recv := r\<rparr>))) < PROTO_HEAD_SIZE * fuel"
          using Suc.prems(4) moved(8) by simp
        show ?thesis by (rule Suc.IH [OF _ _ moved(2) less k(2)]) (use moved(6,7) in simp_all)
      qed (use that in simp)
    qed
    then show ?thesis by (simp add: k run)
  qed
qed

lemma states_hand_over:
  "states w0 w \<Longrightarrow> yields (hand_over vt sid h db w) (\<lambda>(x, w'). states w0 w')"
  by (rule yields_mono [OF hand_over_calm]) (auto intro: states_calm)

lemma states_pick: "states w0 w \<Longrightarrow> yields (pick_a_entire_msg vt sid db w) (\<lambda>(x, w'). states w0 w')"
  unfolding pick_a_entire_msg_def Let_def
proof (rule yields_bind [OF yields_True], rule yields_option, simp, rule yields_pair, rule yields_if, simp,
    rule yields_bind [OF yields_True], rule yields_if, simp, rule yields_bind [OF yields_True],
    rule yields_bind [OF yields_True], rule yields_bind_pair2, erule states_hand_over, rule yields_if)
  show "yields (rbind (upd_session sid arm_retry_timer w) (\<lambda>w. Inr ((False, db), w))) (\<lambda>(x, w'). states w0 w')"
    if "states w0 w" for w and db :: reusable_buffer
    by (rule yields_bind [OF states_upd [OF that]]) (simp_all add: arm_retry_timer_def)
  show "yields (rbind (get_session sid w) (\<lambda>s. case s_recv s of None \<Rightarrow> Inl NullDeref
      | Some recv \<Rightarrow> rbind (consume recv n) (\<lambda>recv. Inr ((True, db), put_session sid (s\<lparr>s_recv := recv\<rparr>) w))))
      (\<lambda>(x, w'). states w0 w')"
    if "states w0 w" for w n and db :: reusable_buffer
    by (rule yields_bind [OF yields_get_session], rule yields_option, simp, rule yields_bind [OF yields_True])
      (simp add: states_put [OF that])
qed

lemma states_loop: "states w0 w \<Longrightarrow> yields (pick_loop n vt sid db w) (states w0)"
proof (induction n arbitrary: db w)
  case (Suc n)
  show ?case unfolding pick_loop.simps
    by (rule yields_bind_pair2 [OF states_pick [OF Suc.prems]]) (simp add: Suc.IH)
qed simp

lemma states_pick_entire: "states w0 w \<Longrightarrow> yields (pick_entire_msgs vt sid w) (states w0)"
  unfolding pick_entire_msgs_def Let_def
  by (rule yields_pair, rule yields_bind, rule states_loop, erule (1) states_pool_buffer, erule states_recv_loop)

lemma states_read_done: "yields (read_done vt sid ec bs w) (states w)"
  unfolding read_done_def Let_def
proof (rule yields_bind [OF yields_get_session])
  fix s assume s: "w_sessions w sid = Some s"
  have first: "states w (put_session sid (s\<lparr>s_reads := rs\<rparr>) w)" for rs
    by (rule states_put [OF states_refl s]) simp_all
  have upd: "yields (update_recv_time sid v) (states w)" if "states w v" for v
    unfolding update_recv_time_def by (rule states_upd [OF that]) simp_all
  have cl: "yields (if ec then close_session sid False v else Inr v) (states w)" if "states w v" for v
    by (rule yields_if, rule yields_mono [OF calm_close_session [OF calm_refl]])
      (use that in \<open>auto intro: states_calm\<close>)
  have rest: "yields (rbind (get_session sid v) (\<lambda>s. case s_recv s of None \<Rightarrow> Inl NullDeref
       | Some recv \<Rightarrow> rbind (deliver_read pr bs recv) (\<lambda>recv.
         pick_entire_msgs vt sid (put_session sid (s\<lparr>s_recv := Some recv\<rparr>) v)))) (states w)"
    if "states w v" for v pr
    by (rule yields_bind [OF yields_get_session], rule yields_option, simp, rule yields_bind [OF yields_True],
        rule states_pick_entire) (rule states_put [OF that], simp_all)
  show "yields (case s_reads s of [] \<Rightarrow> Inr w
     | pr # rest \<Rightarrow>
       rbind (update_recv_time sid (put_session sid (s\<lparr>s_reads := rest\<rparr>) w)) (\<lambda>w.
       rbind (if ec then close_session sid False w else Inr w) (\<lambda>w.
       rbind (get_session sid w) (\<lambda>s.
       case s_recv s of None \<Rightarrow> Inl NullDeref
       | Some recv \<Rightarrow>
         rbind (deliver_read pr bs recv) (\<lambda>recv.
         pick_entire_msgs vt sid (put_session sid (s\<lparr>s_recv := Some recv\<rparr>) w)))))) (states w)"
    by (cases "s_reads s")
      (simp_all add: states_refl yields_bind [OF upd [OF first] yields_bind [OF cl rest]])
qed

lemma states_fixed_tick: "states w0 w \<Longrightarrow> yields (fixed_tick (vt_wrap vt) sid w) (states w0)"
proof -
  assume st: "states w0 w"
  have alive: "yields (tick_alive (vt_wrap vt) sid v) (states w0)" if v: "states w0 v" for v
    unfolding tick_alive_def Let_def
  proof (rule yields_bind [OF yields_True], rule yields_if, simp add: v, rule yields_if [rotated],
      rule yields_if, rule yields_pair)
    show "yields (kick sid v) (states w0)"
      by (rule yields_mono [OF calm_kick [OF calm_refl]]) (rule states_calm [OF v])
  next
    fix b v1 assume "temp_buffer v = (b, v1)"
    then have "states w0 v1" by (rule states_pool_buffer [OF v])
    moreover have "yields (vt_wrap vt sid l b w) (\<lambda>(b', w'). calm v1 w')" if "calm v1 w" for l b w
      by (rule yields_mono [OF wrap_calm]) (use that in \<open>auto intro: calm_trans\<close>)
    ultimately show "yields (async_send (vt_wrap vt) sid (b\<lparr>buf_offset := of_nat PROTO_HEAD_SIZE, buf_length := 0\<rparr>) NoCallback v1) (states w0)"
      by (intro yields_mono [OF calm_async_send]) (auto intro: states_calm)
  qed (use v in simp_all)
  show ?thesis unfolding fixed_tick_def Let_def
  proof (rule yields_bind [OF yields_get_session], rule yields_bind [OF yields_True], rule yields_pair,
      rule yields_bind [where Q = "states w0"])
    fix s and eff count assume "w_sessions w sid = Some s"
    then have "states w0 (put_session sid (s\<lparr>s_frame_count := count\<rparr>) w)"
      by (intro states_put [OF st]) simp_all
    then show "yields (if eff then tick_alive (vt_wrap vt) sid (put_session sid (s\<lparr>s_frame_count := count\<rparr>) w)
        else Inr (put_session sid (s\<lparr>s_frame_count := count\<rparr>) w)) (states w0)"
      by (auto intro: alive)
  qed (rule states_upd, simp_all add: arm_tick_timer_def)
qed

end

end
