(* ===== verification/Proxy_Manager.thy ===== *)
theory Proxy_Manager
  imports Session_Logic Session_Framing Safe_Hash_Map Compression
begin

text \<open>
  The proxy: \<open>proxy_manager.cpp\<close> and the three logics of its sessions
  (\<open>default_session_logic.cpp\<close>, \<open>server_session_logic.cpp\<close>, \<open>client_session_logic.cpp\<close>). The
  manager's state is the environment of the world; a logic's operation works on the world in
  which its session lives. Zlib and the bound on the rounds of its loops are parameters.
\<close>

section \<open>State\<close>

record proxy_env =
  pm_config :: proxy_config
  pm_acceptor_executor :: job_executor
  pm_session_excutor :: job_executor
  pm_server_sessions :: "(u32, nat) hash_map"
  pm_client_sessions :: "(u32, nat) hash_map"
  pm_un_managed_sessions :: "(u32, nat) hash_map"
  pm_rand :: rand_state
  pm_agent_sc :: u32
  pm_next_session :: nat
  pm_accepting :: "nat option"
  pm_clean_up_timer :: bool

type_synonym proxy_world = "(proxy_logic, proxy_env) world"

definition upd_env :: "(proxy_env \<Rightarrow> proxy_env) \<Rightarrow> proxy_world \<Rightarrow> proxy_world" where
  "upd_env f w = w\<lparr>w_env := f (w_env w)\<rparr>"

text \<open>A weak pointer is expired when it is empty or the session is gone.\<close>

definition lock_holder :: "nat option \<Rightarrow> proxy_world \<Rightarrow> nat option" where
  "lock_holder holder w =
     (case holder of None \<Rightarrow> None | Some h \<Rightarrow> if w_sessions w h = None then None else Some h)"

text \<open>The 255 bytes on the stack that \<open>rc4_crypt\<close> starts from.\<close>

definition stack_box :: "proxy_world \<Rightarrow> byte list \<times> proxy_world" where
  "stack_box w = (mem_read (w_junk w (w_alloc w)) 0 255, w\<lparr>w_alloc := w_alloc w + 1\<rparr>)"

definition crypt_block :: "rc4_info \<Rightarrow> reusable_buffer \<Rightarrow> u64 \<Rightarrow> bool \<Rightarrow> proxy_world \<Rightarrow> (reusable_buffer \<times> proxy_world) res" where
  "crypt_block info b n E w =
     (let (box0, w) = stack_box w in
      rbind (buf_get b (buffer_at b 0) (unat n)) (\<lambda>data.
      rbind (rc4_crypt box0 (rc4_modvt info) (rc4_key info) (int RC4_KEY_LEN) data (rc4_subtract info) E) (\<lambda>c.
      rbind (buf_put b (buffer_at b 0) c) (\<lambda>b. Inr (b, w)))))"

section \<open>Wrapping: \<open>wrap_to_send_data\<close>\<close>

text \<open>The header is copied to the start of the block; the payload then begins with it.\<close>

definition put_head :: "reusable_buffer \<Rightarrow> protocol_head \<Rightarrow> reusable_buffer res" where
  "put_head b h =
     rbind (buf_put b (origin_buffer b 0) (head_bytes h)) (\<lambda>b. Inr
       (b\<lparr>buf_offset := buf_offset b - of_nat PROTO_HEAD_SIZE, buf_length := buf_length b + of_nat PROTO_HEAD_SIZE\<rparr>))"

definition default_wrap :: "default_logic \<Rightarrow> reusable_buffer \<Rightarrow> reusable_buffer res" where
  "default_wrap l b =
     (let head = get_a_head FRAME_KEY (ucast (buf_length b)) 0 (cmd_code Commands_AuthenticationAAA) False (dl_seq l) in
      rbind (buf_get b (buffer_at b 0) (unat (head_len head))) (\<lambda>data.
      put_head b (seal_head head data)))"

definition server_wrap :: "server_logic \<Rightarrow> reusable_buffer \<Rightarrow> reusable_buffer res" where
  "server_wrap l b =
     (let head = get_a_head FRAME_KEY (ucast (buf_length b)) 0 (cmd_code Commands_RoutingTransparent) False (sl_seq l) in
      rbind (payload b) (\<lambda>data.
      rbind (put_head b (seal_head head data)) (\<lambda>b.
      if buf_offset b = 0 then Inr b else Inl AssertFailed)))"

abbreviation K_SIZE_COMPRESS :: u64 where
  "K_SIZE_COMPRESS \<equiv> 64"

text \<open>
  The compression step of a client's packet: the buffer to go on with and whether it is
  compressed; \<open>None\<close> where \<open>wrap_to_send_data\<close> returns early.
\<close>

definition client_compress ::
  "nat \<Rightarrow> zlib \<Rightarrow> reusable_buffer \<Rightarrow> proxy_world \<Rightarrow> ((reusable_buffer \<times> bool) option \<times> proxy_world) res" where
  "client_compress fuel z b w =
     (if buf_length b > K_SIZE_COMPRESS then
        let (compress_ret, w) = temp_buffer w in
        rbind (payload b) (\<lambda>data.
        rbind (compress_with fuel z compress_ret data (buf_length b)) (\<lambda>r.
        case r of None \<Rightarrow> Inr (None, w)
        | Some compress_ret \<Rightarrow>
            if buf_length compress_ret = 0 then Inr (None, w)
            else if buf_length compress_ret < buf_length b then Inr (Some (compress_ret, True), w)
            else Inr (Some (b, False), w)))
      else Inr (Some (b, False), w))"

definition client_wrap ::
  "nat \<Rightarrow> zlib \<Rightarrow> client_logic \<Rightarrow> reusable_buffer \<Rightarrow> proxy_world \<Rightarrow> (reusable_buffer \<times> proxy_world) res" where
  "client_wrap fuel z l b w =
     rbind (client_compress fuel z b w) (\<lambda>(r, w).
     case r of None \<Rightarrow> Inr (b, w)
     | Some (b, compressed) \<Rightarrow>
         rbind (crypt_block (cl_rc4_info l) b (buf_length b) True w) (\<lambda>(b, w).
         let head = get_a_head FRAME_KEY (ucast (buf_length b)) 0 (cmd_code Commands_RoutingTransparent) compressed (cl_seq l) in
         rbind (payload b) (\<lambda>data.
         rbind (put_head b (seal_head head data)) (\<lambda>b.
         if buf_offset b = 0 then Inr (b, w) else Inl AssertFailed))))"

fun proxy_wrap :: "nat \<Rightarrow> zlib \<Rightarrow> (proxy_logic, proxy_env) wrapper" where
  "proxy_wrap fuel z sid (Default l) b w = rbind (default_wrap l b) (\<lambda>b. Inr (b, w))"
| "proxy_wrap fuel z sid (Server l) b w = rbind (server_wrap l b) (\<lambda>b. Inr (b, w))"
| "proxy_wrap fuel z sid (Client l) b w = client_wrap fuel z l b w"

section \<open>Sending to managed sessions\<close>

definition send_to_server :: "nat \<Rightarrow> zlib \<Rightarrow> u32 \<Rightarrow> reusable_buffer \<Rightarrow> proxy_world \<Rightarrow> proxy_world res" where
  "send_to_server fuel z target msg w =
     (case hm_try_get (pm_server_sessions (w_env w)) target of None \<Rightarrow> Inr w
      | Some server \<Rightarrow> async_send (proxy_wrap fuel z) server msg NoCallback w)"

definition send_to_server_multi :: "u32 \<Rightarrow> reusable_buffer \<Rightarrow> reusable_buffer \<Rightarrow> proxy_world \<Rightarrow> proxy_world res" where
  "send_to_server_multi target head msg w =
     (case hm_try_get (pm_server_sessions (w_env w)) target of None \<Rightarrow> Inr w
      | Some server \<Rightarrow> async_send_multi server (Some head) (Some msg) NoCallback w)"

definition send_to_client :: "nat \<Rightarrow> zlib \<Rightarrow> u32 \<Rightarrow> reusable_buffer \<Rightarrow> proxy_world \<Rightarrow> proxy_world res" where
  "send_to_client fuel z client_uid msg w =
     (case hm_try_get (pm_client_sessions (w_env w)) client_uid of None \<Rightarrow> Inr w
      | Some client \<Rightarrow> async_send (proxy_wrap fuel z) client msg NoCallback w)"

definition send_to_client_multi :: "u32 \<Rightarrow> reusable_buffer \<Rightarrow> reusable_buffer \<Rightarrow> proxy_world \<Rightarrow> proxy_world res" where
  "send_to_client_multi client_uid head msg w =
     (case hm_try_get (pm_client_sessions (w_env w)) client_uid of None \<Rightarrow> Inr w
      | Some client \<Rightarrow> async_send_multi client (Some head) (Some msg) NoCallback w)"

section \<open>Moving sessions\<close>

definition trans_to_server :: "default_logic \<Rightarrow> server_logic" where
  "trans_to_server d =
     \<lparr>sl_seq = dl_seq d, sl_server_info = dl_server_info d, sl_session_holder = dl_session_holder d\<rparr>"

definition trans_to_client :: "default_logic \<Rightarrow> client_logic" where
  "trans_to_client d =
     \<lparr>cl_rc4_info = dl_rc4_info d, cl_seq = dl_seq d, cl_server_info = dl_server_info d,
      cl_target_uid = dl_target_uid d, cl_session_holder = dl_session_holder d\<rparr>"

text \<open>
  The common part of the two \<open>move_*_available\<close>: the session is taken out of the unmanaged
  ones, and its logic must be a default one. A cast to another logic's class gives null.
\<close>

definition take_unmanaged :: "u32 \<Rightarrow> proxy_world \<Rightarrow> ((nat \<times> default_logic) option \<times> proxy_world) res" where
  "take_unmanaged uid w =
     (case hm_try_get (pm_un_managed_sessions (w_env w)) uid of None \<Rightarrow> Inr (None, w)
      | Some sid \<Rightarrow>
          let w = upd_env (\<lambda>e. e\<lparr>pm_un_managed_sessions := snd (hm_erase (pm_un_managed_sessions e) uid)\<rparr>) w in
          rbind (get_logic sid w) (\<lambda>l.
          if get_session_type l \<noteq> session_code SINGLE_SESSION_BEGIN then Inr (None, w)
          else case l of Default d \<Rightarrow> Inr (Some (sid, d), w) | _ \<Rightarrow> Inl NullDeref))"

definition move_client_available :: "u32 \<Rightarrow> proxy_world \<Rightarrow> proxy_world res" where
  "move_client_available client_uid w =
     rbind (take_unmanaged client_uid w) (\<lambda>(r, w).
     case r of None \<Rightarrow> Inr w
     | Some (sid, d) \<Rightarrow>
         rbind (modify_session_logic apply_session sid (Client (trans_to_client d)) w) (\<lambda>w.
         Inr (upd_env (\<lambda>e. e\<lparr>pm_client_sessions := snd (hm_insert (pm_client_sessions e) client_uid sid)\<rparr>) w)))"

definition move_server_available :: "u32 \<Rightarrow> proxy_world \<Rightarrow> proxy_world res" where
  "move_server_available server_uid w =
     rbind (take_unmanaged server_uid w) (\<lambda>(r, w).
     case r of None \<Rightarrow> Inr w
     | Some (sid, d) \<Rightarrow>
         rbind (modify_session_logic apply_session sid (Server (trans_to_server d)) w) (\<lambda>w.
         Inr (upd_env (\<lambda>e. e\<lparr>pm_server_sessions := snd (hm_insert (pm_server_sessions e) server_uid sid)\<rparr>) w)))"

section \<open>Authentication\<close>

definition send_confirm_connect :: "server_logic \<Rightarrow> u32 \<Rightarrow> u32 \<Rightarrow> proxy_world \<Rightarrow> proxy_world res" where
  "send_confirm_connect l client_id ip w =
     (let (buffer, w) = temp_buffer w;
          (body, length') = confirm_pack ip
      in
      rbind (buf_put buffer (origin_buffer buffer (of_nat PROTO_HEAD_SIZE + session_uid_size)) body) (\<lambda>buffer.
      let buffer = buffer\<lparr>buf_length := ucast length' + of_nat PROTO_HEAD_SIZE + session_uid_size\<rparr> in
      rbind (buf_put buffer (origin_buffer buffer (of_nat PROTO_HEAD_SIZE)) (write_uint32 client_id)) (\<lambda>buffer.
      let head = get_a_head FRAME_KEY (ucast (buf_length buffer)) 0 (cmd_code Commands_ConnectionConfirm) False (sl_seq l) in
      rbind (buf_get buffer (origin_buffer buffer (of_nat PROTO_HEAD_SIZE)) (unat (buf_length buffer - of_nat PROTO_HEAD_SIZE))) (\<lambda>data.
      rbind (buf_put buffer (origin_buffer buffer 0) (head_bytes (seal_head head data))) (\<lambda>buffer.
      case lock_holder (sl_session_holder l) w of None \<Rightarrow> Inr w
      | Some h \<Rightarrow> async_send_multi h None (Some buffer) NoCallback w)))))"

text \<open>
  The handler \<open>find_method\<close> of \<open>verify_authentication\<close>, over the container and the variables it
  captures: the target's uid, the session found.
\<close>

definition find_method ::
  "u64 \<Rightarrow> proxy_world \<Rightarrow> (u32, nat) hash_map \<Rightarrow> (u32 \<times> nat option) res \<Rightarrow> (u32 \<times> nat option) res" where
  "find_method server_id w container st =
     rbind st (rfold (\<lambda>(key, sid) (target_uid, found).
       rbind (get_logic sid w) (\<lambda>l.
       case l of
         Server sl \<Rightarrow>
           if get_server_id sl = server_id
           then rbind (get_session sid w) (\<lambda>s. Inr (s_uuid s, Some sid))
           else Inr (target_uid, found)
       | _ \<Rightarrow> Inl NullDeref)) container)"

text \<open>The assignment through the pointer to the member \<open>_target_uid\<close> of the caller's logic.\<close>

definition write_target :: "nat \<Rightarrow> u32 \<Rightarrow> proxy_world \<Rightarrow> proxy_world res" where
  "write_target self target_uid w =
     rbind (get_logic self w) (\<lambda>l.
     case l of Default d \<Rightarrow> set_logic self (Default (d\<lparr>dl_target_uid := target_uid\<rparr>)) w | _ \<Rightarrow> Inr w)"

definition verify_authentication_mgr ::
  "nat \<Rightarrow> byte \<Rightarrow> u64 \<Rightarrow> u32 \<Rightarrow> u32 \<Rightarrow> u32 \<Rightarrow> proxy_world \<Rightarrow> ((bool \<times> u32) \<times> proxy_world) res" where
  "verify_authentication_mgr self session_type server_id target_uid session_uid ip w =
     (if session_type = session_code CLIENT_PROXY then
        (let (servers, st) = hm_complex_operation (pm_server_sessions (w_env w)) (find_method server_id w) (Inr (target_uid, None));
             w = upd_env (\<lambda>e. e\<lparr>pm_server_sessions := servers\<rparr>) w
         in
         rbind st (\<lambda>(target_uid, found).
         case found of None \<Rightarrow> Inr ((False, target_uid), w)
         | Some target \<Rightarrow>
             rbind (get_logic target w) (\<lambda>l.
             case l of Server sl \<Rightarrow>
               rbind (write_target self target_uid w) (\<lambda>w.
               rbind (send_confirm_connect sl session_uid ip w) (\<lambda>w.
               rbind (move_client_available session_uid w) (\<lambda>w. Inr ((True, target_uid), w))))
             | _ \<Rightarrow> Inl NullDeref)))
      else if session_type > session_code MULTI_SESSION_BEGIN then
        (if hm_contains_key (pm_server_sessions (w_env w)) session_uid then Inr ((False, target_uid), w)
         else rbind (move_server_available session_uid w) (\<lambda>w. Inr ((True, target_uid), w)))
      else Inr ((False, target_uid), w))"

text \<open>
  \<open>echo_authentication_res\<close> packs the answer and sends it through the session's logic of the
  moment, which after a success is no longer the default one.
\<close>

definition echo_authentication_res ::
  "nat \<Rightarrow> zlib \<Rightarrow> default_logic \<Rightarrow> TransferError \<Rightarrow> proxy_world \<Rightarrow> proxy_world res" where
  "echo_authentication_res fuel z d ec w =
     (let (send_buffer, w) = temp_buffer w;
          send_buffer = send_buffer\<lparr>buf_offset := prefix_size (Default d)\<rparr>
      in
      rbind (aaa_response_pack (error_code ec) (word_of_int (rc4_subtract (dl_rc4_info d)))
               (word_of_int (rc4_modvt (dl_rc4_info d))) (list_reader (rc4_key (dl_rc4_info d)))
               (of_nat RC4_KEY_LEN) (dl_target_uid d) (si_link_type (dl_server_info d))) (\<lambda>(bs, len).
      rbind (buf_put send_buffer (buffer_at send_buffer 0) bs) (\<lambda>send_buffer.
      let send_buffer = send_buffer\<lparr>buf_length := buf_length send_buffer + ucast len\<rparr> in
      case lock_holder (dl_session_holder d) w of None \<Rightarrow> Inr w
      | Some h \<Rightarrow>
          async_send (proxy_wrap fuel z) h send_buffer
            (if ec \<noteq> EC_Success then KickHolder (dl_session_holder d) else NoCallback) w)))"

text \<open>Writing the members of a default logic that the session may have let go of.\<close>

definition store_default :: "nat \<Rightarrow> default_logic \<Rightarrow> proxy_world \<Rightarrow> proxy_world res" where
  "store_default sid d w =
     rbind (get_logic sid w) (\<lambda>l.
     case l of Default _ \<Rightarrow> set_logic sid (Default d) w | _ \<Rightarrow> Inr w)"

definition verify_authentication ::
  "nat \<Rightarrow> zlib \<Rightarrow> nat \<Rightarrow> default_logic \<Rightarrow> reusable_buffer \<Rightarrow> u16 \<Rightarrow> proxy_world \<Rightarrow> proxy_world res" where
  "verify_authentication fuel z sid d tmp_buffer cmd w =
     rbind (aaa_request_unpack (\<lambda>o' n. buf_get tmp_buffer (buffer_at tmp_buffer (of_nat o')) n)
              (ucast (buf_length tmp_buffer))) (\<lambda>req.
     let server_uid = cal_server_uid (req_area_id req) (req_server_id req) (req_platform req);
         d = d\<lparr>dl_server_info := \<lparr>si_server_id = req_server_id req, si_area_id = req_area_id req,
                 si_platform = req_platform req, si_link_type = req_link_type req\<rparr>\<rparr>
     in
     rbind (store_default sid d w) (\<lambda>w.
     case lock_holder (dl_session_holder d) w of None \<Rightarrow> Inr w
     | Some holder \<Rightarrow>
         rbind (if cmd \<noteq> cmd_code Commands_AuthenticationAAA then Inr ((False, dl_target_uid d), w)
                else
                  rbind (get_session holder w) (\<lambda>hs.
                  rbind (get_remote_ip holder w) (\<lambda>ip.
                  verify_authentication_mgr sid (req_link_type req) server_uid (dl_target_uid d) (s_uuid hs) ip w)))
           (\<lambda>((verified, target_uid), w).
         if verified
         then
           let d = d\<lparr>dl_target_uid := target_uid, dl_authentication := VERIFY_SUCC\<rparr> in
           rbind (store_default sid d w) (\<lambda>w. echo_authentication_res fuel z d EC_Success w)
         else
           let d = d\<lparr>dl_target_uid := target_uid, dl_authentication := VERIFY_FAILED\<rparr> in
           rbind (store_default sid d w) (\<lambda>w. echo_authentication_res fuel z d EC_ServerNotFound w))))"

section \<open>Unwrapping: \<open>unwrap_received_data\<close>\<close>

text \<open>The verdict, the received block and the block to hand on.\<close>

type_synonym unwrapped = "((bool \<times> reusable_buffer \<times> reusable_buffer) \<times> proxy_world) res"

definition mask_ok :: "reusable_buffer \<Rightarrow> protocol_head \<Rightarrow> bool res" where
  "mask_ok buffer head =
     rbind (buf_get buffer (buffer_at buffer 0) (unat (head_len head))) (\<lambda>data.
     Inr (get_mask (head_bytes head) data 0 = 0))"

definition default_unwrap ::
  "nat \<Rightarrow> zlib \<Rightarrow> nat \<Rightarrow> default_logic \<Rightarrow> reusable_buffer \<Rightarrow> protocol_head \<Rightarrow> reusable_buffer \<Rightarrow> proxy_world \<Rightarrow> unwrapped" where
  "default_unwrap fuel z sid l buffer head ret_block w =
     (let l = l\<lparr>dl_seq := dl_seq l + 1\<rparr> in
      rbind (set_logic sid (Default l) w) (\<lambda>w.
      if head_seq head \<noteq> dl_seq l then Inr ((False, buffer, ret_block), w)
      else
        rbind (mask_ok buffer head) (\<lambda>ok.
        if \<not> ok then Inr ((False, buffer, ret_block), w)
        else
          rbind (if dl_authentication l = BEFORE_VERIFY
                 then verify_authentication fuel z sid l buffer (get_cmd head) w else Inr w) (\<lambda>w.
          Inr ((False, buffer, ret_block), w)))))"

definition server_unwrap ::
  "nat \<Rightarrow> server_logic \<Rightarrow> reusable_buffer \<Rightarrow> protocol_head \<Rightarrow> reusable_buffer \<Rightarrow> proxy_world \<Rightarrow> unwrapped" where
  "server_unwrap sid l buffer head ret_block w =
     (let l = l\<lparr>sl_seq := sl_seq l + 1\<rparr> in
      rbind (set_logic sid (Server l) w) (\<lambda>w.
      if head_seq head \<noteq> sl_seq l then Inr ((False, buffer, ret_block), w)
      else
        rbind (mask_ok buffer head) (\<lambda>ok.
        if \<not> ok then Inr ((False, buffer, ret_block), w)
        else if head_len head = 0 then Inr ((False, buffer, ret_block), w)
        else
          rbind (buf_get buffer (buffer_at buffer 0) (unat (head_len head))) (\<lambda>data.
          rbind (buf_put ret_block (buffer_at ret_block 0) data) (\<lambda>ret_block.
          Inr ((True, buffer, ret_block\<lparr>buf_length := ucast (head_len head)\<rparr>), w))))))"

definition client_unwrap ::
  "nat \<Rightarrow> zlib \<Rightarrow> nat \<Rightarrow> client_logic \<Rightarrow> reusable_buffer \<Rightarrow> protocol_head \<Rightarrow> reusable_buffer \<Rightarrow> proxy_world \<Rightarrow> unwrapped" where
  "client_unwrap fuel z sid l buffer head ret_block w =
     (let l = l\<lparr>cl_seq := cl_seq l + 1\<rparr> in
      rbind (set_logic sid (Client l) w) (\<lambda>w.
      if head_seq head \<noteq> cl_seq l then Inr ((False, buffer, ret_block), w)
      else
        rbind (mask_ok buffer head) (\<lambda>ok.
        if \<not> ok then Inr ((False, buffer, ret_block), w)
        else if head_len head = 0 then Inr ((True, buffer, ret_block), w)
        else
          rbind (crypt_block (cl_rc4_info l) buffer (ucast (head_len head)) False w) (\<lambda>(buffer, w).
          if get_compressed head
          then
            rbind (buf_get buffer (buffer_at buffer 0) (unat (head_len head))) (\<lambda>data.
            rbind (decompress_with fuel z ret_block data (ucast (head_len head))) (\<lambda>r.
            case r of None \<Rightarrow> Inr ((False, buffer, ret_block), w)
            | Some ret_block \<Rightarrow> Inr ((True, buffer, ret_block), w)))
          else Inr ((True, buffer, ret_block), w)))))"

fun proxy_unwrap ::
  "nat \<Rightarrow> zlib \<Rightarrow> nat \<Rightarrow> proxy_logic \<Rightarrow> reusable_buffer \<Rightarrow> protocol_head \<Rightarrow> reusable_buffer \<Rightarrow> proxy_world \<Rightarrow> unwrapped" where
  "proxy_unwrap fuel z sid (Default l) b h r w = default_unwrap fuel z sid l b h r w"
| "proxy_unwrap fuel z sid (Server l) b h r w = server_unwrap sid l b h r w"
| "proxy_unwrap fuel z sid (Client l) b h r w = client_unwrap fuel z sid l b h r w"

section \<open>Handing on: \<open>try_copy_to_storage\<close>\<close>

text \<open>One target of a broadcast: its own header in front of the shared block.\<close>

definition broadcast_one ::
  "server_logic \<Rightarrow> reusable_buffer \<Rightarrow> reusable_buffer \<Rightarrow> nat \<Rightarrow> proxy_world \<Rightarrow> proxy_world res" where
  "broadcast_one l data mutable_buffer i w =
     rbind (buf_get data (buffer_at data (2 + of_nat i * 4)) 4) (\<lambda>ub.
     let uid = read_uint32 ub;
         (head_buffer, w) = tiny_buffer w;
         new_head = get_a_head FRAME_KEY (ucast (buf_length mutable_buffer)) 0 (cmd_code Commands_RoutingTransparent) False (sl_seq l)
     in
     rbind (payload mutable_buffer) (\<lambda>block.
     rbind (buf_put head_buffer (buffer_at head_buffer 0) (head_bytes (seal_head new_head block))) (\<lambda>head_buffer.
     send_to_client_multi uid head_buffer mutable_buffer w)))"

definition server_store ::
  "nat \<Rightarrow> zlib \<Rightarrow> server_logic \<Rightarrow> reusable_buffer \<Rightarrow> protocol_head \<Rightarrow> proxy_world \<Rightarrow> (bool \<times> proxy_world) res" where
  "server_store fuel z l data head w =
     (if get_cmd head = cmd_code Commands_BroadCast then
        rbind (buf_get data (buffer_at data 0) 2) (\<lambda>sb.
        let size' = ucast (read_uint16 sb) :: u64;
            (mutable_buffer, w) = temp_buffer w
        in
        rbind (buf_get data (buffer_at data (2 + 4 * size')) (unat (buf_length data - (2 + 4 * size')))) (\<lambda>block.
        rbind (buf_put mutable_buffer (buffer_at mutable_buffer 0) block) (\<lambda>mutable_buffer.
        rbind (rfold (broadcast_one l data mutable_buffer) [0..<unat size'] w) (\<lambda>w. Inr (True, w)))))
      else
        rbind (buf_get data (buffer_at data 0) 4) (\<lambda>ub.
        let target_client_uid = read_uint32 ub;
            data = data\<lparr>buf_offset := buf_offset data + session_uid_size, buf_length := buf_length data - session_uid_size\<rparr>
        in rbind (send_to_client fuel z target_client_uid data w) (\<lambda>w. Inr (True, w))))"

definition client_store ::
  "nat \<Rightarrow> zlib \<Rightarrow> client_logic \<Rightarrow> reusable_buffer \<Rightarrow> proxy_world \<Rightarrow> (bool \<times> proxy_world) res" where
  "client_store fuel z l data w =
     (case lock_holder (cl_session_holder l) w of None \<Rightarrow> Inr (False, w)
      | Some h \<Rightarrow>
          rbind (get_session h w) (\<lambda>hs.
          rbind (buf_put data (origin_buffer data (of_nat PROTO_HEAD_SIZE)) (write_uint32 (s_uuid hs))) (\<lambda>data.
          let data = data\<lparr>buf_offset := buf_offset data - session_uid_size\<rparr> in
          rbind (send_to_server fuel z (cl_target_uid l) data w) (\<lambda>w. Inr (True, w)))))"

fun proxy_store ::
  "nat \<Rightarrow> zlib \<Rightarrow> nat \<Rightarrow> proxy_logic \<Rightarrow> reusable_buffer \<Rightarrow> protocol_head \<Rightarrow> proxy_world \<Rightarrow> (bool \<times> proxy_world) res" where
  "proxy_store fuel z sid (Default l) data head w = Inr (True, w)"
| "proxy_store fuel z sid (Server l) data head w = server_store fuel z l data head w"
| "proxy_store fuel z sid (Client l) data head w = client_store fuel z l data w"

definition proxy_vt :: "nat \<Rightarrow> zlib \<Rightarrow> (proxy_logic, proxy_env) vtable" where
  "proxy_vt fuel z =
     \<lparr>vt_prefix_size = prefix_size, vt_wrap = proxy_wrap fuel z, vt_unwrap = proxy_unwrap fuel z,
      vt_store = proxy_store fuel z\<rparr>"

section \<open>The operations of the logics are calm\<close>

lemma calm_upd_env [simp]: "calm w (upd_env f w') \<longleftrightarrow> calm w w'"
  by (simp add: upd_env_def)

lemma calm_async_send' [runs]:
  assumes "\<And>l b v. yields (wrap sid l b v) (\<lambda>(b', v'). calm v v')" and "calm w0 w"
  shows "yields (async_send wrap sid b cb w) (calm w0)"
proof (rule calm_then [OF assms(2)], rule calm_async_send)
  fix l b v assume c: "calm w v"
  show "yields (wrap sid l b v) (\<lambda>(b', v'). calm w v')"
    by (rule yields_mono [OF assms(1)]) (use c in \<open>auto intro: calm_trans\<close>)
qed

lemma calm_async_send_multi' [runs]: "calm w0 w \<Longrightarrow> yields (async_send_multi sid h m cb w) (calm w0)"
  by (erule calm_then) (rule calm_async_send_multi)

lemma calm_crypt_block: "calm w0 w \<Longrightarrow> yields (crypt_block info b n E w) (\<lambda>(b', w'). calm w0 w' \<and> same_block b b')"
  unfolding crypt_block_def stack_box_def Let_def prod.case
  by (auto simp: yields_def rbind_eq_Inr dest!: buf_put_same_block)
    (auto simp: calm_def)

lemma calm_client_compress: "calm w0 w \<Longrightarrow> yields (client_compress fuel z b w) (\<lambda>(r, w'). calm w0 w')"
  unfolding client_compress_def Let_def
  by (rule yields_step yields_payload yields_True | erule calm_pool_buffer | simp)+

lemma calm_client_wrap: "yields (client_wrap fuel z l b w) (\<lambda>(b', w'). calm w w')"
  unfolding client_wrap_def Let_def
  by (rule yields_bind_pair [OF calm_client_compress [OF calm_refl]], rule yields_option, simp,
      rule yields_pair, rule yields_bind_pair, erule calm_crypt_block)
    (auto intro!: yields_bind [OF yields_True])

lemma calm_proxy_wrap: "yields (proxy_wrap fuel z sid l b w) (\<lambda>(b', w'). calm w w')"
  by (cases l) (auto intro: calm_client_wrap yields_bind [OF yields_True])

lemmas calm_send [runs] = calm_async_send' [OF calm_proxy_wrap]

lemma calm_send_managed [runs]:
  assumes "calm w0 w"
  shows "yields (send_to_server fuel z t m w) (calm w0)" "yields (send_to_client fuel z t m w) (calm w0)"
    "yields (send_to_server_multi t h m w) (calm w0)" "yields (send_to_client_multi t h m w) (calm w0)"
  using assms
  by (simp_all add: send_to_server_def send_to_client_def send_to_server_multi_def
      send_to_client_multi_def runs split: option.splits)

lemma calm_take_unmanaged: "calm w0 w \<Longrightarrow> yields (take_unmanaged uid w) (\<lambda>(r, w'). calm w0 w')"
  unfolding take_unmanaged_def Let_def
  by (auto split: option.splits proxy_logic.splits intro!: yields_bind [OF yields_True])

lemma calm_move [runs]:
  assumes "calm w0 w"
  shows "yields (move_client_available uid w) (calm w0)" "yields (move_server_available uid w) (calm w0)"
proof -
  have m: "yields (rbind (modify_session_logic apply_session sid l v) (\<lambda>w. Inr (upd_env f w))) (calm w0)"
    if "calm w0 v" for sid l v f
    by (rule yields_bind [OF calm_modify_session_logic [OF that]]) simp
  show "yields (move_client_available uid w) (calm w0)" "yields (move_server_available uid w) (calm w0)"
    unfolding move_client_available_def move_server_available_def
    by (rule yields_bind_pair [OF calm_take_unmanaged [OF assms]]; auto split: option.splits intro: m)+
qed

lemma calm_send_confirm_connect [runs]: "calm w0 w \<Longrightarrow> yields (send_confirm_connect l c ip w) (calm w0)"
  unfolding send_confirm_connect_def Let_def
  by (rule yields_pair yields_bind [OF yields_True] yields_option yields_Inr [THEN iffD2] runs
      | erule (1) calm_pool_buffer)+

lemma calm_write_target [runs]: "calm w0 w \<Longrightarrow> yields (write_target self t w) (calm w0)"
  unfolding write_target_def
  by (rule yields_bind [OF yields_True]) (simp add: runs split: proxy_logic.splits)

lemma calm_verify_mgr:
  assumes "calm w0 w"
  shows "yields (verify_authentication_mgr self t s u c ip w) (\<lambda>(r, w'). calm w0 w')"
proof -
  have out: "yields (rbind m (\<lambda>w. Inr (x, w))) (\<lambda>(r, w'). calm w0 w')" if "yields m (calm w0)" for m x
    by (rule yields_bind [OF that]) simp
  have client: "yields (rbind (write_target self u v) (\<lambda>w.
      rbind (send_confirm_connect sl c ip w) (\<lambda>w.
      rbind (move_client_available c w) (\<lambda>w. Inr ((True, u), w))))) (\<lambda>(r, w'). calm w0 w')"
    if "calm w0 v" for sl u v
    by (rule yields_bind [OF calm_write_target [OF that]], rule yields_bind, erule calm_send_confirm_connect,
        rule out, erule calm_move)
  show ?thesis
    unfolding verify_authentication_mgr_def Let_def
    using assms
    by (auto intro!: yields_if yields_pair yields_bind [OF yields_True] yields_option out client runs
        split: proxy_logic.splits)
qed

lemma calm_echo [runs]: "calm w0 w \<Longrightarrow> yields (echo_authentication_res fuel z d ec w) (calm w0)"
  unfolding echo_authentication_res_def Let_def
  by (rule yields_pair yields_bind [OF yields_True] yields_option
      yields_Inr [THEN iffD2] runs | erule (1) calm_pool_buffer)+

lemma calm_store_default [runs]: "calm w0 w \<Longrightarrow> yields (store_default sid d w) (calm w0)"
  unfolding store_default_def
  by (rule yields_bind [OF yields_True]) (simp add: runs split: proxy_logic.splits)

lemma calm_verify [runs]:
  assumes "calm w0 w"
  shows "yields (verify_authentication fuel z sid d b cmd w) (calm w0)"
proof -
  have out: "yields (if verified
      then rbind (store_default sid d1 w) (\<lambda>w. echo_authentication_res fuel z d1 EC_Success w)
      else rbind (store_default sid d2 w) (\<lambda>w. echo_authentication_res fuel z d2 EC_ServerNotFound w)) (calm w0)"
    if "calm w0 w" for verified d1 d2 w
    using that by (auto intro!: yields_bind [OF calm_store_default] calm_echo)
  have ask: "yields (if cmd \<noteq> c then Inr ((False, t), w)
      else rbind (get_session h w) (\<lambda>hs. rbind (get_remote_ip h w) (\<lambda>ip.
        verify_authentication_mgr sid lt u t (s_uuid hs) ip w))) (\<lambda>(r, w'). calm w0 w')"
    if "calm w0 w" for c t h lt u w
    using that by (auto intro!: yields_bind [OF yields_True] calm_verify_mgr)
  show ?thesis
    unfolding verify_authentication_def Let_def
    by (rule yields_bind [OF yields_True], rule yields_bind [OF calm_store_default [OF assms]], rule yields_option,
        simp, rule yields_bind_pair2, erule ask, erule out)
qed

lemma calm_default_unwrap:
  "yields (default_unwrap fuel z sid l b h r w) (\<lambda>(x, w'). calm w w' \<and> same_block b (fst (snd x)))"
  unfolding default_unwrap_def Let_def
  by (rule yields_bind [OF calm_set_logic [OF calm_refl]], rule yields_if, simp, rule yields_bind [OF yields_True],
      rule yields_if, simp, rule yields_bind [where Q = "calm w"], rule yields_if, erule calm_verify, simp_all)

lemma calm_server_unwrap:
  "yields (server_unwrap sid l b h r w) (\<lambda>(x, w'). calm w w' \<and> same_block b (fst (snd x)))"
  unfolding server_unwrap_def Let_def
  by (rule yields_bind [OF calm_set_logic [OF calm_refl]])
    (auto intro!: yields_if yields_bind [OF yields_True])

lemma calm_client_unwrap:
  "yields (client_unwrap fuel z sid l b h r w) (\<lambda>(x, w'). calm w w' \<and> same_block b (fst (snd x)))"
  unfolding client_unwrap_def Let_def
  by (rule yields_bind [OF calm_set_logic [OF calm_refl]], rule yields_if, simp, rule yields_bind [OF yields_True],
      rule yields_if, simp, rule yields_if, simp, rule yields_bind_pair, erule calm_crypt_block)
    (auto intro!: yields_if yields_bind [OF yields_True] yields_option)

lemma calm_broadcast: "calm w0 w \<Longrightarrow> yields (rfold (broadcast_one l d m) is w) (calm w0)"
proof (induction "is" arbitrary: w)
  case (Cons i "is")
  have "yields (broadcast_one l d m i w) (calm w0)"
    unfolding broadcast_one_def Let_def
    using Cons.prems
    by (auto intro!: yields_bind [OF yields_True] yields_pair calm_send_managed intro: calm_pool_buffer)
  then show ?case by (simp add: yields_bind [OF _ Cons.IH])
qed simp

lemma calm_server_store: "yields (server_store fuel z l d h w) (\<lambda>(x, w'). calm w w')"
proof -
  have out: "yields (rbind m (\<lambda>w. Inr (True, w))) (\<lambda>(x, w'). calm w w')" if "yields m (calm w)" for m
    by (rule yields_bind [OF that]) simp
  show ?thesis
    unfolding server_store_def Let_def
    by (auto intro!: yields_if yields_bind [OF yields_True] yields_pair out calm_broadcast calm_send_managed
        intro: calm_pool_buffer [OF calm_refl])
qed

lemma calm_client_store: "yields (client_store fuel z l d w) (\<lambda>(x, w'). calm w w')"
proof -
  have out: "yields (rbind m (\<lambda>w. Inr (True, w))) (\<lambda>(x, w'). calm w w')" if "yields m (calm w)" for m
    by (rule yields_bind [OF that]) simp
  show ?thesis
    unfolding client_store_def Let_def
    by (auto intro!: yields_option yields_bind [OF yields_True] out calm_send_managed)
qed

interpretation plogic: session_logic "proxy_vt fuel z"
proof
  show "yields (vt_unwrap (proxy_vt fuel z) sid l db h r w) (\<lambda>(x, w'). calm w w' \<and> same_block db (fst (snd x)))"
    for sid l db h r w
    by (cases l) (simp_all add: proxy_vt_def calm_default_unwrap calm_server_unwrap calm_client_unwrap)
  show "yields (vt_store (proxy_vt fuel z) sid l b h w) (\<lambda>(x, w'). calm w w')" for sid l b h w
    by (cases l) (simp_all add: proxy_vt_def calm_server_store calm_client_store)
  show "yields (vt_wrap (proxy_vt fuel z) sid l b w) (\<lambda>(x, w'). calm w w')" for sid l b w
    by (simp add: proxy_vt_def calm_proxy_wrap)
qed

end
