(* ===== verification/Proxy_Run.thy ===== *)
theory Proxy_Run
  imports Proxy_Manager
begin

text \<open>
  The running proxy: starting, accepting, kicking and cleaning up (\<open>proxy_manager.cpp\<close>), and the
  proxy as a state machine whose steps are the handlers Asio calls, one at a time. What an
  external party decides (the bytes a peer sends, errors, the clock) is a parameter of the step.
\<close>

section \<open>Accepting\<close>

text \<open>The constructor of the manager; \<open>start\<close> starts the executors.\<close>

definition proxy_new :: "proxy_config \<Rightarrow> rand_state \<Rightarrow> proxy_env" where
  "proxy_new cfg rand =
     \<lparr>pm_config = cfg, pm_acceptor_executor = executor_new 1,
      pm_session_excutor = executor_new (ucast (cfg_session_thread_num cfg)),
      pm_server_sessions = [], pm_client_sessions = [], pm_un_managed_sessions = [],
      pm_rand = rand, pm_agent_sc = 1, pm_next_session = 0, pm_accepting = None,
      pm_clean_up_timer = False\<rparr>"

definition stop_proxy :: "proxy_env \<Rightarrow> proxy_env" where
  "stop_proxy e = e\<lparr>pm_acceptor_executor := executor_stop (pm_acceptor_executor e),
     pm_session_excutor := executor_stop (pm_session_excutor e)\<rparr>"

text \<open>
  The task \<open>accept_a_session\<close> posts: a new session with a default logic from the pool
  (\<open>stale\<close>: what its last user left in it), then the accept is started on it.
\<close>

definition accept_a_session ::
  "u64 \<Rightarrow> u64 \<Rightarrow> int \<Rightarrow> int \<Rightarrow> default_logic \<Rightarrow> proxy_world \<Rightarrow> proxy_world res" where
  "accept_a_session clock frame_count interval timeout stale w =
     (let e = w_env w; sid = pm_next_session e;
          (agent_uuid, sc) = agent_reset clock (pm_agent_sc e);
          (logic, rand) = default_reset stale (pm_rand e)
      in
      rbind (new_session (pm_session_excutor e) agent_uuid clock frame_count interval timeout (w_now w)) (\<lambda>s.
      let w = put_session sid s (upd_env (\<lambda>e. e\<lparr>pm_next_session := sid + 1, pm_agent_sc := sc,
                pm_rand := rand, pm_accepting := Some sid\<rparr>) w) in
      modify_session_logic apply_session sid (Default logic) w))"

text \<open>The handler of a finished accept; the next accept is another step.\<close>

definition accept_done :: "nat \<Rightarrow> zlib \<Rightarrow> bool \<Rightarrow> u32 \<Rightarrow> proxy_world \<Rightarrow> proxy_world res" where
  "accept_done fuel z ec ip w =
     (case pm_accepting (w_env w) of None \<Rightarrow> Inr w
      | Some sid \<Rightarrow>
        let w = upd_env (\<lambda>e. e\<lparr>pm_accepting := None\<rparr>) w in
        if ec then Inr (upd_env stop_proxy w)
        else
          rbind (upd_session sid (\<lambda>s. s\<lparr>s_open := True, s_remote_ip := Some ip\<rparr>) w) (\<lambda>w.
          rbind (get_session sid w) (\<lambda>s.
          let w = upd_env (\<lambda>e. e\<lparr>pm_un_managed_sessions := snd (hm_insert (pm_un_managed_sessions e) (s_uuid s) sid)\<rparr>) w in
          rbind (passively_connect_succ sid w) (\<lambda>w.
          start_tick (proxy_wrap fuel z) sid (uint (cfg_tick_interval (pm_config (w_env w))))
            (uint (cfg_keep_alive_timeout (pm_config (w_env w)))) w))))"

section \<open>Kicking and cleaning up\<close>

definition kick_one_client :: "u32 \<Rightarrow> proxy_world \<Rightarrow> (bool \<times> proxy_world) res" where
  "kick_one_client client_uid w =
     (case hm_try_get (pm_client_sessions (w_env w)) client_uid of None \<Rightarrow> Inr (False, w)
      | Some cln \<Rightarrow> rbind (kick cln w) (\<lambda>w. Inr (True, w)))"

text \<open>The handlers \<open>kick_server_peer\<close> passes; on a logic of another class the cast gives null.\<close>

definition kick_method :: "byte \<Rightarrow> (u32, nat) hash_map \<Rightarrow> proxy_world res \<Rightarrow> proxy_world res" where
  "kick_method server_type container st =
     rbind st (rfold (\<lambda>(key, sid) w.
       rbind (get_logic sid w) (\<lambda>l.
       case l of Client cl \<Rightarrow> if si_link_type (cl_server_info cl) = server_type then kick sid w else Inr w
       | _ \<Rightarrow> Inl NullDeref)) container)"

definition kick_self_method :: "byte \<Rightarrow> (u32, nat) hash_map \<Rightarrow> proxy_world res \<Rightarrow> proxy_world res" where
  "kick_self_method server_type container st =
     rbind st (rfold (\<lambda>(key, sid) w.
       rbind (get_logic sid w) (\<lambda>l. if get_session_type l = server_type then kick sid w else Inr w)) container)"

definition kick_server_peer :: "byte \<Rightarrow> proxy_world \<Rightarrow> (bool \<times> proxy_world) res" where
  "kick_server_peer server_type w =
     (let (clients, st) = hm_complex_operation (pm_client_sessions (w_env w)) (kick_method server_type) (Inr w) in
      rbind st (\<lambda>w.
      let w = upd_env (\<lambda>e. e\<lparr>pm_client_sessions := clients\<rparr>) w;
          (servers, st) = hm_complex_operation (pm_server_sessions (w_env w)) (kick_self_method server_type) (Inr w) in
      rbind st (\<lambda>w. Inr (False, upd_env (\<lambda>e. e\<lparr>pm_server_sessions := servers\<rparr>) w))))"

text \<open>\<open>kick_peer\<close> of the logics.\<close>

definition client_kick_peer :: "client_logic \<Rightarrow> proxy_world \<Rightarrow> proxy_world res" where
  "client_kick_peer l w =
     (let (head_buffer, w) = tiny_buffer w; (data_block, w) = temp_buffer w in
      case lock_holder (cl_session_holder l) w of None \<Rightarrow> Inr w
      | Some h \<Rightarrow>
          rbind (get_session h w) (\<lambda>hs.
          rbind (buf_put data_block (buffer_at data_block 0) (write_uint32 (s_uuid hs))) (\<lambda>data_block.
          let data_block = data_block\<lparr>buf_length := session_uid_size\<rparr>;
              head = get_a_head FRAME_KEY 0 0 (cmd_code Commands_Kick) False (cl_seq l)
          in
          rbind (payload data_block) (\<lambda>data.
          rbind (buf_put head_buffer (origin_buffer head_buffer 0) (head_bytes (seal_head head data))) (\<lambda>head_buffer.
          send_to_server_multi (cl_target_uid l) head_buffer data_block w)))))"

fun kick_peer :: "proxy_logic \<Rightarrow> proxy_world \<Rightarrow> proxy_world res" where
  "kick_peer (Default l) w = Inr w"
| "kick_peer (Server l) w = rbind (kick_server_peer (get_session_type (Server l)) w) (\<lambda>(b, w). Inr w)"
| "kick_peer (Client l) w = client_kick_peer l w"

text \<open>
  \<open>close_method\<close> erases the closed sessions from the container it is given, which is the
  handler's own copy. The sessions it looks at are those of the world \<open>w\<close>.
\<close>

definition close_method :: "proxy_world \<Rightarrow> (u32, nat) hash_map \<Rightarrow> unit \<Rightarrow> unit" where
  "close_method w container st =
     (let remaining = filter (\<lambda>(key, sid). case w_sessions w sid of None \<Rightarrow> True
                                | Some s \<Rightarrow> \<not> is_session_closed s) container
      in st)"

definition clean_up_closed_session :: "proxy_world \<Rightarrow> proxy_world" where
  "clean_up_closed_session w =
     (let (clients, _) = hm_complex_operation (pm_client_sessions (w_env w)) (close_method w) ();
          (servers, _) = hm_complex_operation (pm_server_sessions (w_env w)) (close_method w) ()
      in upd_env (\<lambda>e. e\<lparr>pm_client_sessions := clients, pm_server_sessions := servers,
                        pm_clean_up_timer := True\<rparr>) w)"

text \<open>\<open>start\<close>: the executors run, the clean-up timer is armed, an accept is begun.\<close>

definition start_proxy ::
  "u64 \<Rightarrow> u64 \<Rightarrow> int \<Rightarrow> int \<Rightarrow> default_logic \<Rightarrow> proxy_world \<Rightarrow> proxy_world res" where
  "start_proxy clock frame_count interval timeout stale w =
     (let w = upd_env (\<lambda>e. e\<lparr>pm_session_excutor := executor_start (pm_session_excutor e),
                             pm_acceptor_executor := executor_start (pm_acceptor_executor e),
                             pm_clean_up_timer := True\<rparr>) w
      in accept_a_session clock frame_count interval timeout stale w)"

section \<open>The steps\<close>

datatype proxy_event =
    Accepting u64 u64 int int default_logic
  | Accepted bool u32
  | ReadDone nat bool "byte list"
  | WriteDone nat bool
  | CloseTask nat
  | RetryTimer nat bool
  | TickTimer nat bool
  | CleanUp
  | Elapse nat

text \<open>
  When Asio may run a handler: something was started and not yet reported. A read stores no
  more than there is room for, reports an error with no bytes, and end of file is an error.
\<close>

fun enabled :: "proxy_event \<Rightarrow> proxy_world \<Rightarrow> bool" where
  "enabled (Accepting c f i t d) w \<longleftrightarrow> pm_accepting (w_env w) = None"
| "enabled (Accepted ec ip) w \<longleftrightarrow> pm_accepting (w_env w) \<noteq> None"
| "enabled (ReadDone sid ec bs) w \<longleftrightarrow>
     (case w_sessions w sid of None \<Rightarrow> False
      | Some s \<Rightarrow> s_reads s \<noteq> [] \<and> length bs \<le> unat (pr_room (hd (s_reads s))) \<and> (ec \<longrightarrow> bs = []))"
| "enabled (WriteDone sid ec) w \<longleftrightarrow>
     (case w_sessions w sid of None \<Rightarrow> False | Some s \<Rightarrow> s_writes s \<noteq> [])"
| "enabled (CloseTask sid) w \<longleftrightarrow>
     (case w_sessions w sid of None \<Rightarrow> False | Some s \<Rightarrow> s_closes s \<noteq> [])"
| "enabled (RetryTimer sid ec) w \<longleftrightarrow>
     (case w_sessions w sid of None \<Rightarrow> False
      | Some s \<Rightarrow> if ec then s_timer_cancelled s > 0 else s_timer s)"
| "enabled (TickTimer sid ec) w \<longleftrightarrow>
     (case w_sessions w sid of None \<Rightarrow> False
      | Some s \<Rightarrow> if ec then s_tick_cancelled s > 0 else s_tick_timer s)"
| "enabled CleanUp w \<longleftrightarrow> pm_clean_up_timer (w_env w)"
| "enabled (Elapse n) w \<longleftrightarrow> True"

fun proxy_handler :: "nat \<Rightarrow> zlib \<Rightarrow> proxy_event \<Rightarrow> proxy_world \<Rightarrow> proxy_world res" where
  "proxy_handler fuel z (Accepting c f i t d) w = accept_a_session c f i t d w"
| "proxy_handler fuel z (Accepted ec ip) w = accept_done fuel z ec ip w"
| "proxy_handler fuel z (ReadDone sid ec bs) w = read_done (proxy_vt fuel z) sid ec bs w"
| "proxy_handler fuel z (WriteDone sid ec) w = write_done sid ec w"
| "proxy_handler fuel z (CloseTask sid) w = close_task sid w"
| "proxy_handler fuel z (RetryTimer sid ec) w = retry_timer_done (proxy_vt fuel z) sid ec w"
| "proxy_handler fuel z (TickTimer sid ec) w = tick_timer_done (proxy_wrap fuel z) sid ec w"
| "proxy_handler fuel z CleanUp w = Inr (clean_up_closed_session w)"
| "proxy_handler fuel z (Elapse n) w = Inr (w\<lparr>w_now := w_now w + int n\<rparr>)"

inductive proxy_step :: "nat \<Rightarrow> zlib \<Rightarrow> proxy_world \<Rightarrow> proxy_event \<Rightarrow> proxy_world \<Rightarrow> bool"
  for fuel :: nat and z :: zlib where
  step: "enabled e w \<Longrightarrow> proxy_handler fuel z e w = Inr w' \<Longrightarrow> proxy_step fuel z w e w'"

definition proxy_init :: "proxy_world \<Rightarrow> bool" where
  "proxy_init w \<longleftrightarrow> w_sessions w = Map.empty \<and> (\<exists>cfg rand. w_env w = proxy_new cfg rand)"

inductive proxy_reachable :: "nat \<Rightarrow> zlib \<Rightarrow> proxy_world \<Rightarrow> bool" for fuel :: nat and z :: zlib where
  reach_start: "proxy_init w \<Longrightarrow> start_proxy c f i t d w = Inr w' \<Longrightarrow> proxy_reachable fuel z w'"
| reach_step: "proxy_reachable fuel z w \<Longrightarrow> proxy_step fuel z w e w' \<Longrightarrow> proxy_reachable fuel z w'"

inductive_cases proxy_stepE: "proxy_step fuel z w e w'"

end
