(* ===== verification/Proxy_Invariants.thy ===== *)
theory Proxy_Invariants
  imports Proxy_Run
begin

text \<open>
  What holds of the proxy in every state it can reach: who manages which session, and what the
  receive buffers and the reads in progress look like. \<open>still\<close> collects the operations that
  touch neither the manager nor the logics, \<open>managed\<close> is the invariant of the manager's maps,
  \<open>reading\<close> that of a session's receiving half.
\<close>

section \<open>Operations that touch neither manager nor logics\<close>

definition still :: "proxy_world \<Rightarrow> proxy_world \<Rightarrow> bool" where
  "still w w' \<longleftrightarrow> w_env w' = w_env w \<and>
     (\<forall>sid. map_option s_logic (w_sessions w' sid) = map_option s_logic (w_sessions w sid))"

named_theorems still_runs \<open>operations that are still\<close>

lemma still_refl [simp, intro]: "still w w"
  by (simp add: still_def)

lemma still_trans: "still w v \<Longrightarrow> still v u \<Longrightarrow> still w u"
  by (simp add: still_def)

lemma still_then: "still w0 w \<Longrightarrow> yields m (still w) \<Longrightarrow> yields m (still w0)"
  by (erule yields_mono) (erule still_trans)

lemma still_put: "w_sessions w sid = Some s \<Longrightarrow> s_logic s' = s_logic s \<Longrightarrow> still w (put_session sid s' w)"
  by (simp add: still_def)

lemma still_upd: "still w0 w \<Longrightarrow> (\<And>s. s_logic (f s) = s_logic s) \<Longrightarrow> yields (upd_session sid f w) (still w0)"
  by (rule yields_upd_session) (blast intro: still_trans still_put)

lemma still_pool_buffer: "still w0 w \<Longrightarrow> pool_buffer n w = (b, w') \<Longrightarrow> still w0 w'"
  by (drule pool_buffer_world) (simp add: still_def)

lemma still_update_time [still_runs]:
  "still w0 w \<Longrightarrow> yields (update_send_time sid w) (still w0)"
  "still w0 w \<Longrightarrow> yields (update_recv_time sid w) (still w0)"
  "still w0 w \<Longrightarrow> yields (start_write sid bs cb w) (still w0)"
  unfolding update_send_time_def update_recv_time_def start_write_def by (erule still_upd, simp)+

lemma still_close [still_runs]: "still w0 w \<Longrightarrow> yields (close_session sid e w) (still w0)"
  unfolding close_session_def
  by (rule yields_bind [OF yields_get_session]) (auto intro: still_trans intro!: still_put)

lemma still_kick [still_runs]: "still w0 w \<Longrightarrow> yields (kick sid w) (still w0)"
  unfolding kick_def by (rule still_close)

lemma still_crypt_block: "still w0 w \<Longrightarrow> yields (crypt_block info b n E w) (\<lambda>(b', w'). still w0 w')"
  unfolding crypt_block_def stack_box_def Let_def prod.case
  by (auto intro!: yields_bind [OF yields_True] simp: still_def)

lemma still_client_compress: "still w0 w \<Longrightarrow> yields (client_compress fuel z b w) (\<lambda>(r, w'). still w0 w')"
  unfolding client_compress_def Let_def
  by (rule yields_step yields_payload yields_True | erule still_pool_buffer | simp)+

lemma still_proxy_wrap:
  assumes "still w0 w"
  shows "yields (proxy_wrap fuel z sid l b w) (\<lambda>(b', w'). still w0 w')"
proof (cases l)
  case (Client cl)
  show ?thesis unfolding Client proxy_wrap.simps client_wrap_def Let_def
    by (rule yields_bind_pair [OF still_client_compress [OF assms]], rule yields_option, simp add: assms,
        rule yields_pair, rule yields_bind_pair, erule still_crypt_block)
      (auto intro!: yields_bind [OF yields_True])
qed (auto intro: yields_bind [OF yields_True] simp: assms)

lemma still_async_send [still_runs]:
  assumes "still w0 w"
  shows "yields (async_send (proxy_wrap fuel z) sid b cb w) (still w0)"
  unfolding async_send_def
  by (rule yields_bind [OF yields_True], rule yields_if, simp add: assms,
      rule yields_bind [OF still_update_time(1) [OF assms]], rule yields_option, simp,
      rule yields_bind_pair, erule still_proxy_wrap, rule yields_bind [OF yields_True], erule still_update_time(3))

lemma still_async_send_multi [still_runs]:
  assumes "still w0 w"
  shows "yields (async_send_multi sid h m cb w) (still w0)"
  unfolding async_send_multi_def
  by (rule yields_bind [OF yields_True], rule yields_if, simp add: assms,
      rule yields_bind [OF still_update_time(1) [OF assms]])
    (auto intro!: yields_bind [OF yields_True] still_update_time(3) split: option.splits)

lemma still_send_managed [still_runs]:
  assumes "still w0 w"
  shows "yields (send_to_server fuel z t m w) (still w0)" "yields (send_to_client fuel z t m w) (still w0)"
    "yields (send_to_server_multi t h m w) (still w0)" "yields (send_to_client_multi t h m w) (still w0)"
  using assms
  by (simp_all add: send_to_server_def send_to_client_def send_to_server_multi_def
      send_to_client_multi_def still_runs split: option.splits)

lemma still_echo [still_runs]: "still w0 w \<Longrightarrow> yields (echo_authentication_res fuel z d ec w) (still w0)"
  unfolding echo_authentication_res_def Let_def
  by (rule yields_pair yields_bind [OF yields_True] yields_option
      yields_Inr [THEN iffD2] still_runs | erule (1) still_pool_buffer)+

lemma still_broadcast: "still w0 w \<Longrightarrow> yields (rfold (broadcast_one l d m) is w) (still w0)"
proof (induction "is" arbitrary: w)
  case (Cons i "is")
  have "yields (broadcast_one l d m i w) (still w0)"
    unfolding broadcast_one_def Let_def
    using Cons.prems
    by (auto intro!: yields_bind [OF yields_True] yields_pair still_send_managed intro: still_pool_buffer)
  then show ?case by (simp add: yields_bind [OF _ Cons.IH])
qed simp

lemma still_proxy_store: "yields (proxy_store fuel z sid l d h w) (\<lambda>(x, w'). still w w')"
proof -
  have out: "yields (rbind m (\<lambda>w. Inr (True, w))) (\<lambda>(x, w'). still w w')" if "yields m (still w)" for m
    by (rule yields_bind [OF that]) simp
  show ?thesis
    by (cases l)
      (auto simp: server_store_def client_store_def Let_def
        intro!: yields_if yields_bind [OF yields_True] yields_pair yields_option out still_broadcast still_send_managed
        intro: still_pool_buffer [OF still_refl])
qed

section \<open>The manager's maps\<close>

fun logic_ok :: "(u32, nat) hash_map \<Rightarrow> nat \<Rightarrow> u32 \<Rightarrow> proxy_logic option \<Rightarrow> bool" where
  "logic_ok servers sid uid None \<longleftrightarrow> False"
| "logic_ok servers sid uid (Some (Default d)) \<longleftrightarrow> dl_session_holder d = Some sid"
| "logic_ok servers sid uid (Some (Server l)) \<longleftrightarrow> sl_session_holder l = Some sid \<and> (uid, sid) \<in> set servers"
| "logic_ok servers sid uid (Some (Client l)) \<longleftrightarrow> False"

text \<open>
  Every unmanaged entry names a session by its uid, every entry of the servers names one with
  a server logic; there are no clients; and every session's logic is a default one or a
  server's, in the latter case under its uid among the servers.
\<close>

definition managed :: "nat option \<times> nat \<Rightarrow> proxy_world \<Rightarrow> bool" where
  "managed k w \<longleftrightarrow> (pm_accepting (w_env w), pm_next_session (w_env w)) = k \<and>
     pm_client_sessions (w_env w) = [] \<and> hm_inv (pm_server_sessions (w_env w)) \<and>
     (\<forall>(uid, sid) \<in> set (pm_un_managed_sessions (w_env w)). \<exists>s. w_sessions w sid = Some s \<and> s_uuid s = uid) \<and>
     (\<forall>(uid, sid) \<in> set (pm_server_sessions (w_env w)). \<exists>s l. w_sessions w sid = Some s \<and> s_uuid s = uid
        \<and> s_logic s = Some (Server l)) \<and>
     (\<forall>sid s. w_sessions w sid = Some s \<longrightarrow> logic_ok (pm_server_sessions (w_env w)) sid (s_uuid s) (s_logic s))"

lemma managed_clients: "managed k w \<Longrightarrow> pm_client_sessions (w_env w) = []"
  by (simp add: managed_def)

lemma managed_logic:
  "managed k w \<Longrightarrow> w_sessions w sid = Some s \<Longrightarrow> logic_ok (pm_server_sessions (w_env w)) sid (s_uuid s) (s_logic s)"
  by (simp add: managed_def)

lemma managed_unmanaged:
  "managed k w \<Longrightarrow> (uid, sid) \<in> set (pm_un_managed_sessions (w_env w)) \<Longrightarrow>
   \<exists>s. w_sessions w sid = Some s \<and> s_uuid s = uid"
  by (auto simp: managed_def)

lemma managed_server:
  "managed k w \<Longrightarrow> (uid, sid) \<in> set (pm_server_sessions (w_env w)) \<Longrightarrow>
   \<exists>s l. w_sessions w sid = Some s \<and> s_uuid s = uid \<and> s_logic s = Some (Server l)"
  by (fastforce simp: managed_def)

lemma managedI:
  assumes "(pm_accepting (w_env w), pm_next_session (w_env w)) = k" "pm_client_sessions (w_env w) = []" "hm_inv (pm_server_sessions (w_env w))"
    and "\<And>uid sid. (uid, sid) \<in> set (pm_un_managed_sessions (w_env w)) \<Longrightarrow>
      \<exists>s. w_sessions w sid = Some s \<and> s_uuid s = uid"
    and "\<And>uid sid. (uid, sid) \<in> set (pm_server_sessions (w_env w)) \<Longrightarrow>
      \<exists>s l. w_sessions w sid = Some s \<and> s_uuid s = uid \<and> s_logic s = Some (Server l)"
    and "\<And>sid s. w_sessions w sid = Some s \<Longrightarrow>
      logic_ok (pm_server_sessions (w_env w)) sid (s_uuid s) (s_logic s)"
  shows "managed k w"
  using assms unfolding managed_def by (simp add: split_beta)

text \<open>The sessions as the invariant sees them: their uids and logics.\<close>

definition same_uids :: "proxy_world \<Rightarrow> proxy_world \<Rightarrow> bool" where
  "same_uids w w' \<longleftrightarrow>
     (\<forall>sid. map_option (\<lambda>s. (s_uuid s, s_logic s)) (w_sessions w' sid) = map_option (\<lambda>s. (s_uuid s, s_logic s)) (w_sessions w sid))"

lemma same_uids_at:
  "same_uids w w' \<Longrightarrow> w_sessions w sid = Some s \<Longrightarrow>
   \<exists>s'. w_sessions w' sid = Some s' \<and> s_uuid s' = s_uuid s \<and> s_logic s' = s_logic s"
  unfolding same_uids_def by (drule spec [of _ sid]) (auto simp: map_option_case split: option.splits)

lemma same_uids_sym: "same_uids w w' \<Longrightarrow> same_uids w' w"
  by (simp add: same_uids_def)

lemma managed_same:
  assumes "managed k w" "same_uids w w'" "w_env w' = w_env w"
  shows "managed k w'"
proof -
  have "\<exists>s. w_sessions w' sid = Some s \<and> s_uuid s = uid"
    if "(uid, sid) \<in> set (pm_un_managed_sessions (w_env w))" for uid sid
    using managed_unmanaged [OF assms(1) that] same_uids_at [OF assms(2)] by metis
  moreover have "\<exists>s l. w_sessions w' sid = Some s \<and> s_uuid s = uid \<and> s_logic s = Some (Server l)"
    if "(uid, sid) \<in> set (pm_server_sessions (w_env w))" for uid sid
    using managed_server [OF assms(1) that] same_uids_at [OF assms(2)] by metis
  moreover have "logic_ok (pm_server_sessions (w_env w)) sid (s_uuid s) (s_logic s)"
    if "w_sessions w' sid = Some s" for sid s
    using managed_logic [OF assms(1)] same_uids_at [OF same_uids_sym [OF assms(2)] that] by metis
  ultimately show ?thesis using assms(1,3) by (intro managedI) (simp_all add: managed_def)
qed

lemma managed_still: "managed k w \<Longrightarrow> calm w w' \<Longrightarrow> still w w' \<Longrightarrow> managed k w'"
proof (rule managed_same)
  assume "calm w w'" "still w w'"
  then show "same_uids w w'" unfolding same_uids_def
  proof (intro allI)
    fix sid
    have "map_option s_logic (w_sessions w' sid) = map_option s_logic (w_sessions w sid)"
      using \<open>still w w'\<close> by (simp add: still_def)
    moreover have "rel_option calm_session (w_sessions w sid) (w_sessions w' sid)"
      using \<open>calm w w'\<close> by (simp add: calm_def)
    ultimately show "map_option (\<lambda>s. (s_uuid s, s_logic s)) (w_sessions w' sid)
        = map_option (\<lambda>s. (s_uuid s, s_logic s)) (w_sessions w sid)"
      by (cases "w_sessions w sid"; cases "w_sessions w' sid") (auto simp: calm_session_def)
  qed
qed (auto simp: still_def)

lemma managed_upd:
  assumes "managed k w" "\<And>s. s_logic (f s) = s_logic s \<and> s_uuid (f s) = s_uuid s"
  shows "yields (upd_session sid f w) (managed k)"
  by (rule yields_upd_session, rule managed_same [OF assms(1)]) (auto simp: same_uids_def assms(2))

text \<open>A default logic may be replaced by another one with the same holder, a server's likewise.\<close>

lemma managed_set_logic:
  assumes "managed k w" "w_sessions w sid = Some s"
    and "logic_ok (pm_server_sessions (w_env w)) sid (s_uuid s) (Some l)"
    and "(\<exists>sl. s_logic s = Some (Server sl)) \<longrightarrow> (\<exists>sl. l = Server sl)"
  shows "managed k (put_session sid (s\<lparr>s_logic := Some l\<rparr>) w)"
proof (rule managedI)
  let ?w = "put_session sid (s\<lparr>s_logic := Some l\<rparr>) w"
  show "(pm_accepting (w_env ?w), pm_next_session (w_env ?w)) = k"
    using assms(1) by (simp add: managed_def)
  show "pm_client_sessions (w_env ?w) = []" "hm_inv (pm_server_sessions (w_env ?w))"
    using assms(1) by (simp_all add: managed_def)
  show "\<exists>s. w_sessions ?w i = Some s \<and> s_uuid s = uid"
    if "(uid, i) \<in> set (pm_un_managed_sessions (w_env ?w))" for uid i
    using managed_unmanaged [OF assms(1), of uid i] that assms(2) by auto
  show "\<exists>s l. w_sessions ?w i = Some s \<and> s_uuid s = uid \<and> s_logic s = Some (Server l)"
    if "(uid, i) \<in> set (pm_server_sessions (w_env ?w))" for uid i
    using managed_server [OF assms(1), of uid i] that assms(2,4) by auto
  show "logic_ok (pm_server_sessions (w_env ?w)) i (s_uuid t) (s_logic t)"
    if "w_sessions ?w i = Some t" for i t
    using that assms(3) managed_logic [OF assms(1), of i] by (auto split: if_splits)
qed

section \<open>The manager's operations keep the maps in order\<close>

lemma upd_env_same [simp]: "upd_env (\<lambda>e. e) w = w"
  by (simp add: upd_env_def)

lemma upd_env_servers [simp]:
  "upd_env (pm_server_sessions_update (\<lambda>_. pm_server_sessions (w_env w))) w = w"
  by (simp add: upd_env_def)

lemma get_logic_Inr: "get_logic sid w = Inr l \<longleftrightarrow> (\<exists>s. w_sessions w sid = Some s \<and> s_logic s = Some l)"
  by (auto simp: get_logic_def rbind_eq_Inr split: option.splits)

lemma take_unmanaged_found:
  assumes "managed k w" "take_unmanaged uid w = Inr (Some (sid, d), w')"
  shows "w' = w \<and> (\<exists>s. w_sessions w sid = Some s \<and> s_uuid s = uid \<and> s_logic s = Some (Default d))"
proof -
  have un: "map_of (pm_un_managed_sessions (w_env w)) uid = Some sid" and g: "get_logic sid w = Inr (Default d)" "w' = w"
    using assms(2) by (auto simp: take_unmanaged_def hm_erase_noop rbind_eq_Inr Let_def
        split: option.splits if_splits proxy_logic.splits)
  from map_of_SomeD [OF un] obtain s where "w_sessions w sid = Some s" "s_uuid s = uid"
    using managed_unmanaged [OF assms(1)] by blast
  with g show ?thesis by (auto simp: get_logic_Inr)
qed

lemma take_unmanaged_none:
  "take_unmanaged uid w = Inr (None, w') \<Longrightarrow> w' = w"
  by (auto simp: take_unmanaged_def hm_erase_noop rbind_eq_Inr Let_def split: option.splits if_splits proxy_logic.splits)

lemma managed_set_default:
  assumes "managed k w" "dl_session_holder d = Some sid" "get_logic sid w = Inr (Default d')"
  shows "yields (set_logic sid (Default d) w) (managed k)"
proof -
  obtain s where s: "w_sessions w sid = Some s" "s_logic s = Some (Default d')"
    using assms(3) by (auto simp: get_logic_Inr)
  then show ?thesis
    using managed_set_logic [OF assms(1) s(1), of "Default d"] assms(2)
    by (simp add: set_logic_def yields_def upd_session_Inr)
qed

lemma managed_store_default:
  assumes "managed k w" "dl_session_holder d = Some sid"
  shows "yields (store_default sid d w) (managed k)"
  unfolding store_default_def
proof (rule yields_bind [where Q = "\<lambda>l. get_logic sid w = Inr l"])
  show "yields (get_logic sid w) (\<lambda>l. get_logic sid w = Inr l)" by (simp add: yields_def)
  show "yields (case l of Default _ \<Rightarrow> set_logic sid (Default d) w | _ \<Rightarrow> Inr w) (managed k)"
    if "get_logic sid w = Inr l" for l
    using that assms managed_set_default [OF assms] by (cases l) auto
qed

text \<open>A session whose uid is new among the servers becomes one.\<close>

lemma managed_promoted:
  assumes m: "managed k w" and new: "\<not> hm_contains_key (pm_server_sessions (w_env w)) uid"
    and s: "w_sessions w sid = Some s" "s_uuid s = uid" "s_logic s = Some (Default d)" and l: "sl_session_holder l = Some sid"
  shows "managed k (upd_env (\<lambda>e. e\<lparr>pm_server_sessions := snd (hm_insert (pm_server_sessions e) uid sid)\<rparr>)
    (put_session sid (s\<lparr>s_logic := Some (Server l)\<rparr>) w))"
proof (rule managedI)
  let ?servers = "pm_server_sessions (w_env w)"
  let ?w = "upd_env (\<lambda>e. e\<lparr>pm_server_sessions := snd (hm_insert (pm_server_sessions e) uid sid)\<rparr>)
    (put_session sid (s\<lparr>s_logic := Some (Server l)\<rparr>) w)"
  have ins: "hm_insert ?servers uid sid = (True, (uid, sid) # ?servers)"
    by (rule hm_insert_new) (use new in \<open>simp add: hm_contains_key_def\<close>)
  have env: "pm_server_sessions (w_env ?w) = (uid, sid) # ?servers"
    "pm_un_managed_sessions (w_env ?w) = pm_un_managed_sessions (w_env w)"
    "pm_client_sessions (w_env ?w) = pm_client_sessions (w_env w)" by (simp_all add: upd_env_def ins)
  have ses: "w_sessions ?w = (w_sessions w)(sid \<mapsto> s\<lparr>s_logic := Some (Server l)\<rparr>)" by (simp add: upd_env_def)
  have old: "sid' \<noteq> sid" if e: "(uid', sid') \<in> set ?servers" for uid' sid'
    using managed_server [OF m e] s(1,3) by auto
  show "(pm_accepting (w_env ?w), pm_next_session (w_env ?w)) = k" using m by (simp add: upd_env_def managed_def)
  show "pm_client_sessions (w_env ?w) = []" unfolding env using m by (simp add: managed_def)
  show "hm_inv (pm_server_sessions (w_env ?w))"
    unfolding env(1) using hm_inv_insert [of ?servers uid sid] m by (simp add: ins managed_def)
  show "\<exists>s. w_sessions ?w i = Some s \<and> s_uuid s = u"
    if "(u, i) \<in> set (pm_un_managed_sessions (w_env ?w))" for u i
    using managed_unmanaged [OF m, of u i] that s(1) unfolding env ses by auto
  show "\<exists>s l. w_sessions ?w i = Some s \<and> s_uuid s = u \<and> s_logic s = Some (Server l)"
    if "(u, i) \<in> set (pm_server_sessions (w_env ?w))" for u i
    using managed_server [OF m, of u i] that s(2) old [of u i] unfolding env ses by auto
  show "logic_ok (pm_server_sessions (w_env ?w)) i (s_uuid t) (s_logic t)" if t: "w_sessions ?w i = Some t" for i t
  proof (cases "i = sid")
    case True
    then show ?thesis using t s(2) l unfolding env ses by auto
  next
    case False
    then have "logic_ok ?servers i (s_uuid t) (s_logic t)" using t managed_logic [OF m] unfolding ses by simp
    then show ?thesis unfolding env(1)
      by (cases "(?servers, i, s_uuid t, s_logic t)" rule: logic_ok.cases) auto
  qed
qed

lemma managed_move_server:
  assumes m: "managed k w" and new: "\<not> hm_contains_key (pm_server_sessions (w_env w)) uid"
  shows "yields (move_server_available uid w) (managed k)"
proof -
  have found: "managed k (upd_env (\<lambda>e. e\<lparr>pm_server_sessions := snd (hm_insert (pm_server_sessions e) uid sid)\<rparr>) w1)"
    if r: "take_unmanaged uid w = Inr (Some (sid, d), w0)"
      and w1: "modify_session_logic apply_session sid (Server (trans_to_server d)) w0 = Inr w1" for sid d w0 w1
  proof -
    from take_unmanaged_found [OF m r] obtain s where s: "w0 = w" "w_sessions w sid = Some s" "s_uuid s = uid"
        "s_logic s = Some (Default d)" by blast
    then have "w1 = put_session sid (s\<lparr>s_logic := Some (Server ((trans_to_server d)\<lparr>sl_session_holder := Some sid\<rparr>))\<rparr>) w"
      using w1 by (auto simp: modify_session_logic_def upd_session_Inr)
    with managed_promoted [OF m new s(2-4)] show ?thesis by simp
  qed
  show ?thesis
    unfolding move_server_available_def yields_def
    by (auto simp: rbind_eq_Inr dest: take_unmanaged_none split: option.splits intro: found m)
qed

lemma managed_verify_mgr:
  assumes "managed k w"
  shows "yields (verify_authentication_mgr self t s u c ip w) (\<lambda>(r, w'). managed k w')"
  unfolding verify_authentication_mgr_def hm_complex_operation_def Let_def prod.case
  using assms
  by (auto intro!: yields_if yields_bind [OF managed_move_server])

lemma managed_verify:
  assumes m: "managed k w" and h: "dl_session_holder d = Some sid"
  shows "yields (verify_authentication fuel z sid d b cmd w) (managed k)"
proof -
  have echo: "yields (echo_authentication_res fuel z d' ec v) (managed k)" if "managed k v" for d' ec v
    by (rule yields_mono [OF yields_conj [OF calm_echo [OF calm_refl] still_echo [OF still_refl]]])
      (use managed_still [OF that] in blast)
  have out: "yields (if verified
      then rbind (store_default sid d1 w) (\<lambda>w. echo_authentication_res fuel z d1 EC_Success w)
      else rbind (store_default sid d2 w) (\<lambda>w. echo_authentication_res fuel z d2 EC_ServerNotFound w)) (managed k)"
    if "managed k w" "dl_session_holder d1 = Some sid" "dl_session_holder d2 = Some sid" for verified d1 d2 w
    using that by (auto intro!: yields_bind [OF managed_store_default] echo)
  have ask: "yields (if cmd \<noteq> c then Inr ((False, t), w)
      else rbind (get_session h w) (\<lambda>hs. rbind (get_remote_ip h w) (\<lambda>ip.
        verify_authentication_mgr sid lt u t (s_uuid hs) ip w))) (\<lambda>(r, w'). managed k w')"
    if "managed k w" for c t h lt u w
    using that by (auto intro!: yields_bind [OF yields_True] managed_verify_mgr)
  have st: "yields (store_default sid (d\<lparr>dl_server_info := i\<rparr>) w) (managed k)" for i
    by (rule managed_store_default [OF m]) (simp add: h)
  show ?thesis
    unfolding verify_authentication_def Let_def
    by (rule yields_bind [OF yields_True], rule yields_bind [OF st], rule yields_option,
        simp, rule yields_bind_pair2, erule ask, rule out) (simp_all add: h)
qed

section \<open>The logics keep the maps in order, and the proxy never refuses a packet\<close>

lemma managed_unwrap:
  assumes m: "managed k w" and l: "get_logic sid w = Inr l"
  shows "yields (proxy_unwrap fuel z sid l b h r w) (\<lambda>(x, w'). managed k w')"
proof (cases l)
  case (Default d)
  have hd: "dl_session_holder d = Some sid"
    using l managed_logic [OF m, of sid] Default by (auto simp: get_logic_Inr)
  let ?d = "d\<lparr>dl_seq := dl_seq d + 1\<rparr>"
  have s: "yields (set_logic sid (Default ?d) w) (managed k)"
    by (rule managed_set_default [OF m]) (use hd l Default in simp_all)
  have v: "yields (if c then verify_authentication fuel z sid ?d b cmd v else Inr v) (managed k)"
    if "managed k v" for v c cmd
    using that by (simp add: managed_verify hd)
  show ?thesis unfolding Default proxy_unwrap.simps default_unwrap_def Let_def
    by (rule yields_bind [OF s], rule yields_if, simp, rule yields_bind [OF yields_True],
        rule yields_if, simp, rule yields_bind, erule v, simp)
next
  case (Server sl)
  obtain s where s: "w_sessions w sid = Some s" "s_logic s = Some (Server sl)"
    using l Server by (auto simp: get_logic_Inr)
  let ?l = "Server (sl\<lparr>sl_seq := sl_seq sl + 1\<rparr>)"
  have "managed k (put_session sid (s\<lparr>s_logic := Some ?l\<rparr>) w)"
    by (rule managed_set_logic [OF m s(1)]) (use managed_logic [OF m s(1)] s(2) in auto)
  then have s': "yields (set_logic sid ?l w) (managed k)"
    using s(1) by (simp add: set_logic_def yields_def upd_session_Inr)
  show ?thesis unfolding Server proxy_unwrap.simps server_unwrap_def Let_def
    by (rule yields_bind [OF s']) (auto intro!: yields_if yields_bind [OF yields_True])
next
  case (Client cl)
  then show ?thesis using l managed_logic [OF m, of sid] by (auto simp: get_logic_Inr)
qed

lemma store_accepts:
  "(\<And>cl. l \<noteq> Client cl) \<Longrightarrow> yields (proxy_store fuel z sid l d h w) (\<lambda>(x, w'). x)"
  by (cases l)
    (auto simp: server_store_def Let_def intro!: yields_if yields_bind [OF yields_True] yields_pair)

lemma managed_hand_over:
  assumes m: "managed k w"
  shows "yields (hand_over (proxy_vt fuel z) sid h db w) (\<lambda>(x, w'). managed k w' \<and> fst x \<noteq> Some False)"
proof -
  obtain ub w1 where tb: "temp_buffer w = (ub, w1)" by fastforce
  have m1: "managed k w1"
    using managed_still [OF m calm_pool_buffer [OF calm_refl tb] still_pool_buffer [OF still_refl tb]] .
  have logic: "yields (get_logic sid v) (\<lambda>l. get_logic sid v = Inr l)" for v
    by (simp add: yields_def)
  have store: "yields (proxy_store fuel z sid l r h v) (\<lambda>(x, w'). managed k w' \<and> x)"
    if v: "managed k v" and l: "get_logic sid v = Inr l" for l r v
  proof -
    have nc: "l \<noteq> Client cl" for cl
      using l managed_logic [OF v, of sid] by (auto simp: get_logic_Inr)
    have c: "yields (proxy_store fuel z sid l r h v) (\<lambda>(x, w'). calm v w')"
      using plogic.store_calm [of fuel z sid l r h v] by (simp add: proxy_vt_def)
    show ?thesis
      by (rule yields_mono [OF yields_conj [OF yields_conj [OF c still_proxy_store] store_accepts [OF nc]]])
        (use managed_still [OF v] in auto)
  qed
  have rest: "yields (if \<not> ok then Inr ((None, db'), v)
        else rbind (get_logic sid v) (\<lambda>l. rbind (proxy_store fuel z sid l r h v)
          (\<lambda>(stored, w). Inr ((Some stored, db'), w)))) (\<lambda>(x, w'). managed k w' \<and> fst x \<noteq> Some False)"
    if "managed k v" for ok db' r v
    by (rule yields_if, simp add: that, rule yields_bind [OF logic], rule yields_bind_pair [OF store [OF that]])
      auto
  show ?thesis
    unfolding hand_over_def tb Let_def prod.case proxy_vt_def vtable.simps
  proof (rule yields_bind [OF logic], rule yields_bind_pair [OF managed_unwrap [OF m1]])
    fix l and x :: "bool \<times> reusable_buffer \<times> reusable_buffer" and v :: proxy_world
    assume v: "managed k v"
    obtain ok db' r where x: "x = (ok, db', r)" by (cases x)
    show "yields ((case x of (ok, data_block, unwrap_data) \<Rightarrow> \<lambda>w.
        if \<not> ok then Inr ((None, data_block), w)
        else rbind (get_logic sid w) (\<lambda>l. rbind (proxy_store fuel z sid l unwrap_data h w)
          (\<lambda>(stored, w). Inr ((Some stored, data_block), w)))) v)
        (\<lambda>(x, w'). managed k w' \<and> fst x \<noteq> Some False)"
      unfolding x prod.case by (rule rest [OF v])
  qed
qed

section \<open>The receiving half of a session\<close>

text \<open>
  The receive buffer is in order, the retry timer is not in use, a closed session has no
  socket, and at most one read is in progress, which may fill exactly what is free behind the
  bytes that are there.
\<close>

definition reading :: "'l session \<Rightarrow> bool" where
  "reading s \<longleftrightarrow>
     recv_good (s_recv s) \<and> \<not> s_timer s \<and> s_timer_cancelled s = 0 \<and>
     (s_state s = CLOSE_DONE \<longrightarrow> \<not> s_open s) \<and>
     (s_reads s = [] \<or>
      (\<exists>name b. s_recv s = Some (name, b) \<and>
         s_reads s = [\<lparr>pr_buffer = name, pr_pos = buf_length b, pr_room = ONCE_BUFFER_SIZE - buf_length b\<rparr>]))"

text \<open>A session waiting to be accepted.\<close>

definition fresh :: "'l session \<Rightarrow> bool" where
  "fresh s \<longleftrightarrow> s_state s = INIT \<and> \<not> s_open s \<and> s_reads s = [] \<and> s_recv s = None"

definition world_ok :: "nat option \<times> nat \<Rightarrow> proxy_world \<Rightarrow> bool" where
  "world_ok k w \<longleftrightarrow> managed k w \<and>
     (\<forall>sid s. w_sessions w sid = Some s \<longrightarrow> reading s \<and> sid < snd k) \<and>
     (\<forall>a. fst k = Some a \<longrightarrow> (\<exists>s. w_sessions w a = Some s \<and> fresh s))"

lemma reading_calm: "reading s \<Longrightarrow> calm_session s s' \<Longrightarrow> reading s'"
  by (simp add: reading_def calm_session_def)

lemma fresh_calm: "fresh s \<Longrightarrow> calm_session s s' \<Longrightarrow> fresh s'"
  by (simp add: fresh_def calm_session_def)

lemma world_ok_session: "world_ok k w \<Longrightarrow> w_sessions w sid = Some s \<Longrightarrow> reading s"
  by (simp add: world_ok_def)

lemma world_ok_managed: "world_ok k w \<Longrightarrow> managed k w"
  by (simp add: world_ok_def)

lemma world_ok_calm:
  assumes ok: "world_ok k w" and c: "calm w w'" and m: "managed k w'"
  shows "world_ok k w'"
  unfolding world_ok_def
proof (intro conjI allI impI m)
  fix sid s' assume s': "w_sessions w' sid = Some s'"
  then obtain s where s: "w_sessions w sid = Some s"
    using calm_session_none [OF c, of sid] by fastforce
  with calm_session_at [OF c s] s' have "calm_session s s'" by simp
  with s show "reading s'" using ok reading_calm by (auto simp: world_ok_def)
  show "sid < snd k" using s ok by (simp add: world_ok_def)
next
  fix a assume "fst k = Some a"
  then obtain s where s: "w_sessions w a = Some s" "fresh s" using ok by (auto simp: world_ok_def)
  from calm_session_at [OF c s(1)] show "\<exists>s. w_sessions w' a = Some s \<and> fresh s"
    using fresh_calm [OF s(2)] by blast
qed

lemma world_ok_put:
  assumes ok: "world_ok k w" and s: "w_sessions w sid = Some s"
    and "s_uuid s' = s_uuid s" "s_logic s' = s_logic s" "reading s'" "fst k = Some sid \<Longrightarrow> fresh s'"
  shows "world_ok k (put_session sid s' w)"
proof -
  have "managed k (put_session sid s' w)"
    by (rule managed_same [OF world_ok_managed [OF ok]]) (simp_all add: same_uids_def s assms(3,4))
  then show ?thesis using assms by (auto simp: world_ok_def)
qed

lemma world_ok_still:
  assumes "world_ok k w" "yields m (calm w)" "yields m (still w)"
  shows "yields m (world_ok k)"
  by (rule yields_mono [OF yields_conj [OF assms(2,3)]])
    (use world_ok_calm [OF assms(1)] managed_still [OF world_ok_managed [OF assms(1)]] in blast)

section \<open>The packet loop\<close>

lemma not_accepting: "world_ok k w \<Longrightarrow> w_sessions w sid = Some s \<Longrightarrow> \<not> fresh s \<Longrightarrow> fst k \<noteq> Some sid"
  by (auto simp: world_ok_def)

definition idle :: "nat option \<times> nat \<Rightarrow> nat \<Rightarrow> proxy_world \<Rightarrow> bool" where
  "idle k sid w \<longleftrightarrow> world_ok k w \<and> fst k \<noteq> Some sid \<and> (\<exists>s. w_sessions w sid = Some s \<and> s_reads s = [])"

lemma idle_pick:
  assumes idle: "idle k sid w" and db: "block_ok db"
  shows "yields (pick_a_entire_msg (proxy_vt fuel z) sid db w) (\<lambda>(x, w'). idle k sid w' \<and> (fst x \<longrightarrow> block_ok (snd x)))"
proof -
  obtain s where ok: "world_ok k w" and na: "fst k \<noteq> Some sid" and s: "w_sessions w sid = Some s" "s_reads s = []"
    using idle by (auto simp: idle_def)
  have r: "reading s" using world_ok_session [OF ok s(1)] .
  then have good: "recv_good (s_recv s)" by (simp add: reading_def)
  show ?thesis
  proof (cases "fst (split_frames (recv_content (s_recv s)))")
    case Nil
    then show ?thesis using pick_nothing [OF s(1) good] idle by simp
  next
    case (Cons f fs)
    obtain h body where "f = (h, body)" by (cases f)
    with Cons have split: "split_frames (recv_content (s_recv s)) = ((h, body) # fs, snd (split_frames (recv_content (s_recv s))))"
      by (metis prod.collapse)
    have "idle k sid w' \<and> (again \<longrightarrow> block_ok db')"
      if run: "pick_a_entire_msg (proxy_vt fuel z) sid db w = Inr ((again, db'), w')" for again db' w'
      using s(1) good db split run
    proof (cases rule: plogic.pick_round)
      case (moved v w1 s1 r')
      have m1: "managed k w1" and c1: "calm w w1"
        using yieldsD [OF moved(3) managed_hand_over [OF world_ok_managed [OF ok]]]
          yieldsD [OF moved(3) plogic.hand_over_calm] by simp_all
      have ok1: "world_ok k w1" using world_ok_calm [OF ok c1 m1] .
      have "reading (s1\<lparr>s_recv := r'\<rparr>)"
        using reading_calm [OF r moved(10)] moved(7,10) s(2) by (simp add: reading_def calm_session_def)
      then have "world_ok k w'"
        unfolding moved(6) by (intro world_ok_put [OF ok1 moved(5)]) (use na in simp_all)
      moreover have "s_reads s1 = []" using moved(10) s(2) by (simp add: calm_session_def)
      ultimately show ?thesis using moved(2,6) na by (simp add: idle_def)
    next
      case (refused w1 s1)
      then show ?thesis
        using yieldsD [OF refused(2) managed_hand_over [OF world_ok_managed [OF ok]]] by simp
    qed
    then show ?thesis by (auto simp: yields_def)
  qed
qed

lemma idle_loop:
  "idle k sid w \<Longrightarrow> block_ok db \<Longrightarrow> yields (pick_loop n (proxy_vt fuel z) sid db w) (idle k sid)"
proof (induction n arbitrary: db w)
  case (Suc n)
  show ?case unfolding pick_loop.simps
    by (rule yields_bind_pair2 [OF idle_pick [OF Suc.prems]]) (auto intro: Suc.IH)
qed simp

lemma world_ok_recv_loop:
  assumes "idle k sid w"
  shows "yields (async_recv_loop sid w) (world_ok k)"
proof -
  obtain s where ok: "world_ok k w" and na: "fst k \<noteq> Some sid" and s: "w_sessions w sid = Some s" "s_reads s = []"
    using assms by (auto simp: idle_def)
  have r: "reading s" using world_ok_session [OF ok s(1)] .
  obtain b w1 where tb: "temp_buffer w = (b, w1)" by fastforce
  have b: "buf_SIZE b = ONCE_BUFFER_SIZE" "buf_offset b = 0" "buf_length b = 0"
    using pool_buffer_block [OF tb] by simp_all
  have c1: "calm w w1" "still w w1"
    using calm_pool_buffer [OF calm_refl tb] still_pool_buffer [OF still_refl tb] by simp_all
  then have ok1: "world_ok k w1"
    using world_ok_calm [OF ok] managed_still [OF world_ok_managed [OF ok]] by blast
  have s1: "w_sessions w1 sid = Some s" using pool_buffer_world [OF tb] s(1) by simp
  have new: "world_ok k (put_session sid (s\<lparr>s_recv := Some (w_alloc w, b), s_reads :=
      [\<lparr>pr_buffer = w_alloc w, pr_pos = 0, pr_room = ONCE_BUFFER_SIZE\<rparr>]\<rparr>) w1)"
    by (rule world_ok_put [OF ok1 s1]) (use r b na in \<open>simp_all add: reading_def recv_ok_def\<close>)
  have old: "world_ok k (put_session sid (s\<lparr>s_recv := Some (name, c), s_reads :=
      [\<lparr>pr_buffer = name, pr_pos = buf_length c, pr_room = ONCE_BUFFER_SIZE - buf_length c\<rparr>]\<rparr>) w)"
    if "s_recv s = Some (name, c)" for name c
    by (rule world_ok_put [OF ok s(1)]) (use r that na in \<open>simp_all add: reading_def\<close>)
  have block: "buf_SIZE c = ONCE_BUFFER_SIZE \<and> buf_offset c = 0" if "s_recv s = Some (name, c)" for name c
    using r that by (simp add: reading_def recv_ok_def)
  show ?thesis
    unfolding async_recv_loop_def tb
    by (rule yields_bind [OF yields_get_session])
      (use new old ok block in \<open>auto simp: s Let_def buffer_at_def available_capacity_def b split: option.splits\<close>)
qed

lemma idle_pool_buffer:
  assumes "idle k sid w" "pool_buffer n w = (b, w1)"
  shows "idle k sid w1"
proof -
  have ok: "world_ok k w" using assms by (simp add: idle_def)
  have "calm w w1" "still w w1"
    using calm_pool_buffer [OF calm_refl assms(2)] still_pool_buffer [OF still_refl assms(2)] by simp_all
  then have "world_ok k w1"
    using world_ok_calm [OF ok] managed_still [OF world_ok_managed [OF ok]] by blast
  then show ?thesis using assms(1) pool_buffer_world [OF assms(2)] by (simp add: idle_def)
qed

lemma world_ok_pick:
  assumes "idle k sid w"
  shows "yields (pick_entire_msgs (proxy_vt fuel z) sid w) (world_ok k)"
proof -
  obtain b w1 where tb: "temp_buffer w = (b, w1)" by fastforce
  have "block_ok b" using pool_buffer_block [OF tb] by (simp add: block_ok_def)
  with idle_pool_buffer [OF assms tb] show ?thesis
    unfolding pick_entire_msgs_def tb Let_def prod.case
    by (intro yields_bind [OF idle_loop] world_ok_recv_loop)
qed

section \<open>Every handler keeps the invariant\<close>

lemma world_ok_upd:
  assumes ok: "world_ok k w"
    and f: "\<And>s. w_sessions w sid = Some s \<Longrightarrow> reading s \<Longrightarrow>
      s_uuid (f s) = s_uuid s \<and> s_logic (f s) = s_logic s \<and> reading (f s) \<and> (fresh s \<longrightarrow> fresh (f s))"
  shows "yields (upd_session sid f w) (world_ok k)"
proof (rule yields_upd_session)
  fix s assume s: "w_sessions w sid = Some s"
  have r: "reading s" using world_ok_session [OF ok s] .
  show "world_ok k (put_session sid (f s) w)"
    by (rule world_ok_put [OF ok s]) (use f [OF s r] ok s in \<open>auto simp: world_ok_def\<close>)
qed

lemma world_ok_close: "world_ok k w \<Longrightarrow> yields (close_session sid e w) (world_ok k)"
  by (rule world_ok_still [OF _ calm_close_session [OF calm_refl] still_close [OF still_refl]])

lemma world_ok_kick: "world_ok k w \<Longrightarrow> yields (kick sid w) (world_ok k)"
  unfolding kick_def by (rule world_ok_close)

lemma world_ok_close_task: "world_ok k w \<Longrightarrow> yields (close_task sid w) (world_ok k)"
  unfolding close_task_def
  by (erule world_ok_upd)
    (auto simp: close_task_session_def clear_all_timer_def reading_def fresh_def Let_def)

lemma world_ok_write_done: "world_ok k w \<Longrightarrow> yields (write_done sid ec w) (world_ok k)"
  unfolding write_done_def
proof (rule yields_bind [OF yields_get_session])
  fix s assume ok: "world_ok k w" and s: "w_sessions w sid = Some s"
  have "world_ok k (put_session sid (s\<lparr>s_writes := ws\<rparr>) w)" for ws
    by (rule world_ok_put [OF ok s]) (use world_ok_session [OF ok s] ok s in \<open>auto simp: reading_def fresh_def world_ok_def\<close>)
  then show "yields (case s_writes s of [] \<Rightarrow> Inr w
     | pw # rest \<Rightarrow>
       let w = put_session sid (s\<lparr>s_writes := rest\<rparr>) w in
       if ec then close_session sid False w
       else (case pw_callback pw of
               NoCallback \<Rightarrow> Inr w
             | KickHolder None \<Rightarrow> Inr w
             | KickHolder (Some h) \<Rightarrow> (if w_sessions w h = None then Inr w else kick h w))) (world_ok k)"
    by (auto simp: ok Let_def world_ok_close world_ok_kick split: list.splits send_callback.splits option.splits)
qed

lemma world_ok_send: "world_ok k w \<Longrightarrow> yields (async_send (proxy_wrap fuel z) sid b cb w) (world_ok k)"
  by (rule world_ok_still [OF _ calm_send [OF calm_refl] still_async_send [OF still_refl]])

lemma world_ok_tick_alive: "world_ok k w \<Longrightarrow> yields (tick_alive (proxy_wrap fuel z) sid w) (world_ok k)"
proof -
  assume ok: "world_ok k w"
  obtain b w1 where tb: "temp_buffer w = (b, w1)" by fastforce
  have "calm w w1" "still w w1"
    using calm_pool_buffer [OF calm_refl tb] still_pool_buffer [OF still_refl tb] by simp_all
  then have "world_ok k w1"
    using world_ok_calm [OF ok] managed_still [OF world_ok_managed [OF ok]] by blast
  then show ?thesis unfolding tick_alive_def tb Let_def prod.case
    by (intro yields_bind [OF yields_get_session] yields_if) (simp_all add: ok world_ok_kick world_ok_send)
qed

lemma world_ok_fixed_tick: "world_ok k w \<Longrightarrow> yields (fixed_tick (proxy_wrap fuel z) sid w) (world_ok k)"
  unfolding fixed_tick_def Let_def
proof (rule yields_bind [OF yields_get_session], rule yields_bind [OF yields_True], rule yields_pair)
  fix s and x :: "bool \<times> u64" and eff count assume ok: "world_ok k w" and s: "w_sessions w sid = Some s"
  have ok': "world_ok k (put_session sid (s\<lparr>s_frame_count := count\<rparr>) w)"
    by (rule world_ok_put [OF ok s]) (use world_ok_session [OF ok s] ok s in \<open>auto simp: reading_def fresh_def world_ok_def\<close>)
  have arm: "yields (upd_session sid arm_tick_timer v) (world_ok k)" if "world_ok k v" for v
    by (rule world_ok_upd [OF that]) (auto simp: arm_tick_timer_def reading_def fresh_def)
  show "yields (rbind (if eff then tick_alive (proxy_wrap fuel z) sid (put_session sid (s\<lparr>s_frame_count := count\<rparr>) w)
        else Inr (put_session sid (s\<lparr>s_frame_count := count\<rparr>) w)) (\<lambda>w. upd_session sid arm_tick_timer w)) (world_ok k)"
    by (rule yields_bind [where Q = "world_ok k"]) (use ok' arm world_ok_tick_alive in auto)
qed

lemma world_ok_tick_timer: "world_ok k w \<Longrightarrow> yields (tick_timer_done (proxy_wrap fuel z) sid ec w) (world_ok k)"
  unfolding tick_timer_done_def
  by (rule yields_bind [OF world_ok_upd [where k = k] world_ok_fixed_tick]) (auto simp: reading_def fresh_def)

lemma world_ok_start_tick: "world_ok k w \<Longrightarrow> yields (start_tick (proxy_wrap fuel z) sid i t w) (world_ok k)"
  unfolding start_tick_def update_send_time_def update_recv_time_def
  by (rule yields_bind [OF world_ok_upd [where k = k] yields_bind [OF world_ok_upd [where k = k]
        yields_bind [OF world_ok_upd [where k = k] world_ok_fixed_tick]]])
    (auto simp: reading_def fresh_def)

text \<open>A finished read: the bytes go where the free room is, and the loop runs with no read in progress.\<close>

lemma deliver_in_room:
  assumes "recv_ok b" "length bs \<le> unat (ONCE_BUFFER_SIZE - buf_length b)"
  shows "\<exists>b'. deliver_read \<lparr>pr_buffer = name, pr_pos = buf_length b, pr_room = r\<rparr> bs (name, b) = Inr (name, b')
    \<and> recv_ok b' \<and> recv_bytes b' = recv_bytes b @ bs"
proof -
  let ?n = "unat (buf_length b)"
  have le: "?n \<le> 65536" using assms(1) by (simp add: recv_ok_def)
  then have room: "?n + length bs \<le> 65536"
    using assms(2) by (subst (asm) unat_sub_small) simp_all
  have len: "unat (buf_length b + of_nat (length bs)) = ?n + length bs"
    using room by (subst unat_add_small) (simp_all add: unat_of_nat_small)
  let ?b = "b\<lparr>buf_bytes := mem_write (buf_bytes b) ?n bs\<rparr>"
  have put: "(if bs = [] then Inr b else if name = name then buf_put b (buf_length b) bs else Inl StaleBuffer) = Inr ?b"
    using assms(1) room by (simp add: buf_put_def recv_ok_def)
  let ?b' = "?b\<lparr>buf_length := buf_length b + of_nat (length bs)\<rparr>"
  have "recv_bytes ?b' = recv_bytes b @ bs"
    by (simp add: recv_bytes_def len mem_read_append mem_simps)
  moreover have "recv_ok ?b'" using assms(1) room len by (simp add: recv_ok_def)
  moreover have "deliver_read \<lparr>pr_buffer = name, pr_pos = buf_length b, pr_room = r\<rparr> bs (name, b) = Inr (name, ?b')"
    unfolding deliver_read_def Let_def prod.case pending_read.simps put rbind_Inr by simp
  ultimately show ?thesis by blast
qed

text \<open>The buffer never holds more packets than the loop has fuel for.\<close>

lemma pick_fuel_enough: "recv_good r \<Longrightarrow> length (recv_content r) < PROTO_HEAD_SIZE * pick_fuel"
  by (cases r rule: recv_content.cases) (simp_all add: recv_ok_def)

text \<open>
  What a finished read does before it looks for packets, whatever the logic: the read is no longer in
  progress, the time is noted, an error posts a close, and the bytes are in the buffer.
\<close>

lemma read_done_picks:
  assumes s: "w_sessions w sid = Some s" "s_recv s = Some (name, b)" "recv_ok b"
    and rd: "s_reads s = \<lparr>pr_buffer = name, pr_pos = buf_length b, pr_room = n\<rparr> # rest"
      "length bs \<le> unat (ONCE_BUFFER_SIZE - buf_length b)"
  shows "\<exists>t cs b'. read_done vt sid ec bs w = pick_entire_msgs vt sid (put_session sid t w)
    \<and> recv_ok b' \<and> recv_bytes b' = recv_bytes b @ bs
    \<and> t = s\<lparr>s_reads := rest, s_last_recv_time := w_now w, s_closes := cs, s_recv := Some (name, b')\<rparr>
    \<and> (\<not> ec \<longrightarrow> t = s\<lparr>s_reads := rest, s_last_recv_time := w_now w, s_recv := Some (name, b')\<rparr>)"
proof -
  obtain b' where dl: "deliver_read \<lparr>pr_buffer = name, pr_pos = buf_length b, pr_room = n\<rparr> bs (name, b) = Inr (name, b')"
      "recv_ok b'" "recv_bytes b' = recv_bytes b @ bs" using deliver_in_room [OF s(3) rd(2)] by blast
  let ?s = "s\<lparr>s_reads := rest, s_last_recv_time := w_now w\<rparr>"
  define u where "u = (if ec \<and> s_state s \<noteq> CLOSE_DONE then ?s\<lparr>s_closes := s_closes s @ [False]\<rparr> else ?s)"
  have u: "s_recv u = Some (name, b)" "u = ?s\<lparr>s_closes := s_closes u\<rparr>" "\<not> ec \<longrightarrow> u = ?s"
    using s(2) by (simp_all add: u_def)
  have cl: "(if ec then close_session sid False (put_session sid ?s w) else Inr (put_session sid ?s w)) = Inr (put_session sid u w)"
    by (simp add: u_def close_session_def put_session_def get_session_def)
  have up: "update_recv_time sid (put_session sid (s\<lparr>s_reads := rest\<rparr>) w) = Inr (put_session sid ?s w)"
    by (simp add: update_recv_time_def upd_session_def put_session_def get_session_def)
  have gs: "get_session sid w = Inr s" "get_session sid (put_session sid u w) = Inr u" using s(1) by simp_all
  have "read_done vt sid ec bs w = pick_entire_msgs vt sid (put_session sid (u\<lparr>s_recv := Some (name, b')\<rparr>) (put_session sid u w))"
    unfolding read_done_def gs(1) rbind_Inr rd(1) list.case Let_def up cl gs(2) u(1) option.case dl(1) ..
  then have "read_done vt sid ec bs w = pick_entire_msgs vt sid (put_session sid (u\<lparr>s_recv := Some (name, b')\<rparr>) w)"
    by (simp add: put_session_def)
  moreover have "u\<lparr>s_recv := r\<rparr> = s\<lparr>s_reads := rest, s_last_recv_time := w_now w, s_closes := s_closes u, s_recv := r\<rparr>" for r
    by (subst u(2)) simp
  ultimately show ?thesis using dl(2,3) u(3)
    by (intro exI [of _ "u\<lparr>s_recv := Some (name, b')\<rparr>"] exI [of _ "s_closes u"] exI [of _ b']) auto
qed

text \<open>In the proxy the loop then starts in a good state.\<close>

lemma read_done_starts:
  assumes ok: "world_ok k w" and s: "w_sessions w sid = Some s" and en: "enabled (ReadDone sid ec bs) w"
  shows "\<exists>t cs r. read_done (proxy_vt fuel z) sid ec bs w = pick_entire_msgs (proxy_vt fuel z) sid (put_session sid t w)
    \<and> idle k sid (put_session sid t w) \<and> recv_content r = recv_content (s_recv s) @ bs
    \<and> t = s\<lparr>s_reads := [], s_last_recv_time := w_now w, s_closes := cs, s_recv := r\<rparr>"
proof -
  have rd: "s_reads s \<noteq> []" "length bs \<le> unat (pr_room (hd (s_reads s)))" using en s by simp_all
  have r: "reading s" using world_ok_session [OF ok s] .
  then obtain name b where nb: "s_recv s = Some (name, b)" "recv_ok b"
      "s_reads s = [\<lparr>pr_buffer = name, pr_pos = buf_length b, pr_room = ONCE_BUFFER_SIZE - buf_length b\<rparr>]"
    using rd(1) by (auto simp: reading_def)
  have na: "fst k \<noteq> Some sid" using not_accepting [OF ok s] rd(1) by (auto simp: fresh_def)
  have "length bs \<le> unat (ONCE_BUFFER_SIZE - buf_length b)" using rd(2) nb(3) by simp
  from read_done_picks [OF s nb this, of "proxy_vt fuel z" ec] obtain t cs b' where
    t: "read_done (proxy_vt fuel z) sid ec bs w = pick_entire_msgs (proxy_vt fuel z) sid (put_session sid t w)"
      "recv_ok b'" "recv_bytes b' = recv_bytes b @ bs"
      "t = s\<lparr>s_reads := [], s_last_recv_time := w_now w, s_closes := cs, s_recv := Some (name, b')\<rparr>" by blast
  have "world_ok k (put_session sid t w)"
    by (rule world_ok_put [OF ok s]) (use r na t(2,4) in \<open>simp_all add: reading_def\<close>)
  then have "idle k sid (put_session sid t w)" using na t(4) by (simp add: idle_def)
  with t nb(1) show ?thesis
    by (intro exI [of _ t] exI [of _ cs] exI [of _ "Some (name, b')"]) simp
qed

lemma world_ok_read_done:
  assumes ok: "world_ok k w" and en: "enabled (ReadDone sid ec bs) w"
  shows "yields (read_done (proxy_vt fuel z) sid ec bs w) (world_ok k)"
proof -
  obtain s where "w_sessions w sid = Some s" using en by (auto split: option.splits)
  from read_done_starts [OF ok this en, of fuel z] show ?thesis using world_ok_pick by fastforce
qed

section \<open>Accepting, and all reachable states\<close>

lemma world_ok_accept:
  assumes ok: "world_ok (None, n) w"
  shows "yields (accept_a_session c f i t stale w) (world_ok (Some n, Suc n))"
proof -
  let ?e = "w_env w"
  obtain au sc where ag: "agent_reset c (pm_agent_sc ?e) = (au, sc)" by fastforce
  obtain d rand where d: "default_reset stale (pm_rand ?e) = (d, rand)" by fastforce
  have m: "managed (None, n) w" using world_ok_managed [OF ok] .
  have n: "pm_next_session ?e = n" "pm_accepting ?e = None" using m by (auto simp: managed_def)
  have free: "w_sessions w n = None" using ok by (cases "w_sessions w n") (auto simp: world_ok_def)
  have new: "yields (new_session ex au c f i t now) (\<lambda>s. fresh s \<and> reading s)" for ex now
    unfolding new_session_def
    by (rule yields_bind [OF yields_True]) (simp add: fresh_def reading_def)
  have "world_ok (Some n, Suc n) (put_session n (s\<lparr>s_logic := Some (apply_session n (Default d))\<rparr>)
      (put_session n s (upd_env (\<lambda>e. e\<lparr>pm_next_session := n + 1, pm_agent_sc := sc, pm_rand := rand,
        pm_accepting := Some n\<rparr>) w)))"
    (is "world_ok _ ?w") if s: "fresh s" "reading s" for s
  proof -
    let ?s = "s\<lparr>s_logic := Some (apply_session n (Default d))\<rparr>"
    have ses: "w_sessions ?w = (w_sessions w)(n \<mapsto> ?s)" by (simp add: upd_env_def)
    have env: "pm_server_sessions (w_env ?w) = pm_server_sessions ?e"
      "pm_un_managed_sessions (w_env ?w) = pm_un_managed_sessions ?e"
      "pm_client_sessions (w_env ?w) = pm_client_sessions ?e"
      "pm_accepting (w_env ?w) = Some n" "pm_next_session (w_env ?w) = Suc n"
      by (simp_all add: upd_env_def)
    have "managed (Some n, Suc n) ?w"
    proof (rule managedI)
      show "(pm_accepting (w_env ?w), pm_next_session (w_env ?w)) = (Some n, Suc n)" by (simp only: env)
      show "pm_client_sessions (w_env ?w) = []" "hm_inv (pm_server_sessions (w_env ?w))"
        unfolding env using m by (simp_all add: managed_def)
      show "\<exists>s. w_sessions ?w j = Some s \<and> s_uuid s = u"
        if "(u, j) \<in> set (pm_un_managed_sessions (w_env ?w))" for u j
        using managed_unmanaged [OF m, of u j] that free unfolding env ses by auto
      show "\<exists>s l. w_sessions ?w j = Some s \<and> s_uuid s = u \<and> s_logic s = Some (Server l)"
        if "(u, j) \<in> set (pm_server_sessions (w_env ?w))" for u j
        using managed_server [OF m, of u j] that free unfolding env ses by auto
      show "logic_ok (pm_server_sessions (w_env ?w)) j (s_uuid x) (s_logic x)"
        if "w_sessions ?w j = Some x" for j x
        using that managed_logic [OF m, of j] unfolding env ses by (auto split: if_splits)
    qed
    moreover have "\<forall>j x. w_sessions ?w j = Some x \<longrightarrow> reading x \<and> j < Suc n"
      unfolding ses using ok s(2) by (auto simp: world_ok_def reading_def less_Suc_eq)
    moreover have "\<exists>x. w_sessions ?w n = Some x \<and> fresh x"
      unfolding ses using s(1) by (simp add: fresh_def)
    ultimately show ?thesis by (simp add: world_ok_def)
  qed
  then show ?thesis
    unfolding accept_a_session_def Let_def ag d prod.case n
    by (intro yields_bind [OF new])
      (auto simp: modify_session_logic_def yields_def upd_session_Inr)
qed

lemma world_ok_recv_loop_new:
  assumes "world_ok k w" "fst k \<noteq> Some sid" "w_sessions w sid = Some s" "s_reads s = []"
  shows "yields (async_recv_loop sid w) (world_ok k)"
  by (rule world_ok_recv_loop) (use assms in \<open>simp add: idle_def\<close>)

lemma world_ok_env:
  assumes ok: "world_ok k w"
    and "pm_server_sessions (f (w_env w)) = pm_server_sessions (w_env w)"
    and "pm_client_sessions (f (w_env w)) = pm_client_sessions (w_env w)"
    and "\<And>u i. (u, i) \<in> set (pm_un_managed_sessions (f (w_env w))) \<Longrightarrow>
      (u, i) \<in> set (pm_un_managed_sessions (w_env w)) \<or> (\<exists>s. w_sessions w i = Some s \<and> s_uuid s = u)"
    and "pm_next_session (f (w_env w)) = snd k" "pm_accepting (f (w_env w)) = a" "a = None \<or> a = fst k"
  shows "world_ok (a, snd k) (upd_env f w)"
proof -
  have m: "managed k w" using world_ok_managed [OF ok] .
  have "managed (a, snd k) (upd_env f w)"
  proof (rule managedI)
    show "\<exists>s. w_sessions (upd_env f w) i = Some s \<and> s_uuid s = u"
      if "(u, i) \<in> set (pm_un_managed_sessions (w_env (upd_env f w)))" for u i
      using assms(4) [of u i] that managed_unmanaged [OF m, of u i] by (auto simp: upd_env_def)
    show "\<exists>s l. w_sessions (upd_env f w) i = Some s \<and> s_uuid s = u \<and> s_logic s = Some (Server l)"
      if "(u, i) \<in> set (pm_server_sessions (w_env (upd_env f w)))" for u i
      using that managed_server [OF m, of u i] assms(2) by (simp add: upd_env_def)
    show "logic_ok (pm_server_sessions (w_env (upd_env f w))) i (s_uuid x) (s_logic x)"
      if "w_sessions (upd_env f w) i = Some x" for i x
      using that managed_logic [OF m, of i] assms(2) by (simp add: upd_env_def)
  qed (use m assms in \<open>auto simp: upd_env_def managed_def\<close>)
  then show ?thesis using ok assms(7) by (auto simp: world_ok_def upd_env_def)
qed

lemma hm_insert_set: "set (snd (hm_insert m k v)) \<subseteq> insert (k, v) (set m)"
  by (auto simp: hm_insert_def hm_insert_locked_def um_insert_def)

lemma world_ok_opened:
  assumes ok: "world_ok (None, n) w" and s: "w_sessions w sid = Some s" "fresh s"
  shows "world_ok (None, n) (put_session sid (s\<lparr>s_open := True, s_remote_ip := Some ip\<rparr>) w)"
  by (rule world_ok_put [OF ok s(1)]) (use s(2) world_ok_session [OF ok s(1)] in \<open>simp_all add: fresh_def reading_def\<close>)

lemma world_ok_registered:
  assumes ok: "world_ok (None, n) w" and s: "w_sessions w sid = Some s"
  shows "world_ok (None, n)
    (upd_env (\<lambda>e. e\<lparr>pm_un_managed_sessions := snd (hm_insert (pm_un_managed_sessions e) (s_uuid s) sid)\<rparr>) w)"
proof -
  have "pm_next_session (w_env w) = n" "pm_accepting (w_env w) = None"
    using world_ok_managed [OF ok] by (simp_all add: managed_def)
  then show ?thesis
    by (intro world_ok_env [where k = "(None, n)", OF ok, simplified])
      (use s hm_insert_set [of "pm_un_managed_sessions (w_env w)" "s_uuid s" sid] in auto)
qed

lemma world_ok_passive:
  assumes "world_ok (None, n) w" "w_sessions w sid = Some s" "s_reads s = []"
  shows "yields (passively_connect_succ sid w) (world_ok (None, n))"
  unfolding passively_connect_succ_def
proof (rule yields_bind [where Q = "idle (None, n) sid"])
  have "world_ok (None, n) (put_session sid (s\<lparr>s_state := CONNECTING\<rparr>) w)"
    by (rule world_ok_put [OF assms(1,2)]) (use world_ok_session [OF assms(1,2)] in \<open>simp_all add: reading_def\<close>)
  then show "yields (upd_session sid (\<lambda>s. s\<lparr>s_state := CONNECTING\<rparr>) w) (idle (None, n) sid)"
    using assms by (auto simp: yields_def upd_session_Inr idle_def)
qed (rule world_ok_recv_loop)

lemma world_ok_accept_done:
  assumes ok: "world_ok k w"
  shows "yields (accept_done fuel z ec ip w) (\<lambda>w'. \<exists>a. world_ok (a, snd k) w')"
proof (cases "pm_accepting (w_env w)")
  case None
  then show ?thesis using ok by (auto simp: accept_done_def) (metis prod.collapse)
next
  case (Some sid)
  have m: "managed k w" using world_ok_managed [OF ok] .
  then have k: "k = (Some sid, snd k)" "pm_next_session (w_env w) = snd k"
    using Some by (auto simp: managed_def)
  let ?w = "upd_env (\<lambda>e. e\<lparr>pm_accepting := None\<rparr>) w" and ?k = "(None, snd k)"
  have ok1: "world_ok ?k ?w"
    by (rule world_ok_env [OF ok]) (use k in simp_all)
  then have stop: "world_ok ?k (upd_env stop_proxy ?w)"
    by (rule world_ok_env [where k = ?k, simplified])
      (use k in \<open>simp_all add: stop_proxy_def upd_env_def\<close>)
  obtain s where s: "w_sessions w sid = Some s" "fresh s" using ok k(1) by (metis world_ok_def fst_conv)
  have up: "yields (upd_session sid (\<lambda>s. s\<lparr>s_open := True, s_remote_ip := Some ip\<rparr>) ?w)
      (\<lambda>w'. world_ok ?k w' \<and> (\<exists>t. w_sessions w' sid = Some t \<and> s_reads t = []))"
    by (rule yields_upd_session)
      (use s world_ok_opened [OF ok1, of sid s ip] in \<open>auto simp: upd_env_def fresh_def\<close>)
  have "yields (accept_done fuel z ec ip w) (world_ok ?k)"
    unfolding accept_done_def Some option.case Let_def
  proof (rule yields_if)
    show "yields (Inr (upd_env stop_proxy ?w)) (world_ok ?k)" using stop by simp
    show "yields (rbind (upd_session sid (\<lambda>s. s\<lparr>s_open := True, s_remote_ip := Some ip\<rparr>) ?w) (\<lambda>w.
          rbind (get_session sid w) (\<lambda>s.
          rbind (passively_connect_succ sid (upd_env (\<lambda>e. e\<lparr>pm_un_managed_sessions := snd (hm_insert (pm_un_managed_sessions e) (s_uuid s) sid)\<rparr>) w)) (\<lambda>w.
          start_tick (proxy_wrap fuel z) sid (uint (cfg_tick_interval (pm_config (w_env w))))
            (uint (cfg_keep_alive_timeout (pm_config (w_env w)))) w)))) (world_ok ?k)"
      by (rule yields_bind [OF up], rule yields_bind [OF yields_get_session], rule yields_bind,
          rule world_ok_passive, rule world_ok_registered)
        (auto simp: upd_env_def intro: world_ok_start_tick)
  qed
  then show ?thesis by (rule yields_mono) blast
qed

lemma world_ok_cleanup: "world_ok k w \<Longrightarrow> world_ok k (clean_up_closed_session w)"
proof -
  assume ok: "world_ok k w"
  then have k: "pm_accepting (w_env w) = fst k" "pm_next_session (w_env w) = snd k"
    using world_ok_managed [OF ok] by (auto simp: managed_def)
  have "world_ok (fst k, snd k) (clean_up_closed_session w)"
    unfolding clean_up_closed_session_def hm_complex_operation_def Let_def prod.case
    by (rule world_ok_env [OF ok]) (use k in simp_all)
  then show ?thesis by simp
qed

lemma world_ok_elapse: "world_ok k w \<Longrightarrow> world_ok k (w\<lparr>w_now := t\<rparr>)"
  by (simp add: world_ok_def managed_def)

lemma world_ok_retry:
  assumes "world_ok k w" "enabled (RetryTimer sid ec) w"
  shows False
  using assms world_ok_session [OF assms(1), of sid]
  by (auto simp: reading_def split: option.splits if_splits)

definition proxy_inv :: "proxy_world \<Rightarrow> bool" where
  "proxy_inv w \<longleftrightarrow> (\<exists>k. world_ok k w)"

lemma proxy_invI: "world_ok k w \<Longrightarrow> proxy_inv w"
  unfolding proxy_inv_def by blast

lemma proxy_inv_step:
  assumes inv: "proxy_inv w" and step: "proxy_step fuel z w e w'"
  shows "proxy_inv w'"
proof -
  obtain k where ok: "world_ok k w" using inv unfolding proxy_inv_def by blast
  obtain en: "enabled e w" and run: "proxy_handler fuel z e w = Inr w'"
    using step by (auto elim: proxy_stepE)
  have k: "pm_accepting (w_env w) = fst k" using world_ok_managed [OF ok] by (auto simp: managed_def)
  show ?thesis
  proof (cases e)
    case (Accepting c f i t d)
    then have "k = (None, snd k)" using en k by (metis enabled.simps(1) prod.collapse)
    with ok have "world_ok (None, snd k) w" by simp
    from yieldsD [OF _ world_ok_accept [OF this], of c f i t d w'] show ?thesis
      using run Accepting by (auto intro: proxy_invI)
  next
    case (Accepted ec ip)
    from yieldsD [OF _ world_ok_accept_done [OF ok], of fuel z ec ip w'] show ?thesis
      using run Accepted by (auto intro: proxy_invI)
  next
    case (ReadDone sid ec bs)
    from yieldsD [OF _ world_ok_read_done [OF ok], of fuel z sid ec bs w'] show ?thesis
      using en run ReadDone by (metis proxy_handler.simps(3) proxy_invI)
  next
    case (WriteDone sid ec)
    from yieldsD [OF _ world_ok_write_done [OF ok], of sid ec w'] show ?thesis
      using run WriteDone by (auto intro: proxy_invI)
  next
    case (CloseTask sid)
    from yieldsD [OF _ world_ok_close_task [OF ok], of sid w'] show ?thesis
      using run CloseTask by (auto intro: proxy_invI)
  next
    case (RetryTimer sid ec)
    then show ?thesis using world_ok_retry [OF ok] en by metis
  next
    case (TickTimer sid ec)
    from yieldsD [OF _ world_ok_tick_timer [OF ok, where fuel = fuel and z = z and sid = sid and ec = ec]] show ?thesis
      using run TickTimer by (auto intro: proxy_invI)
  next
    case CleanUp
    then show ?thesis using run world_ok_cleanup [OF ok] by (auto intro: proxy_invI)
  next
    case (Elapse n)
    then show ?thesis using run world_ok_elapse [OF ok] by (auto intro: proxy_invI)
  qed
qed

lemma proxy_inv_start:
  assumes "proxy_init w" "start_proxy c f i t d w = Inr w'"
  shows "proxy_inv w'"
proof -
  let ?w = "upd_env (\<lambda>e. e\<lparr>pm_session_excutor := executor_start (pm_session_excutor e),
      pm_acceptor_executor := executor_start (pm_acceptor_executor e), pm_clean_up_timer := True\<rparr>) w"
  have "world_ok (None, 0) ?w"
    using assms(1) by (auto simp: proxy_init_def proxy_new_def world_ok_def managed_def upd_env_def)
  from yieldsD [OF _ world_ok_accept [OF this], of c f i t d w'] show ?thesis
    using assms(2) by (auto simp: start_proxy_def intro: proxy_invI)
qed

lemma proxy_reachable_inv: "proxy_reachable fuel z w \<Longrightarrow> proxy_inv w"
  by (induction rule: proxy_reachable.induct) (auto intro: proxy_inv_start proxy_inv_step)

end
