(* ===== verification/Session_Life.thy ===== *)
theory Session_Life
  imports Proxy_Invariants
begin

text \<open>
  The life of a session, as its state and its socket tell it: waiting to be accepted, talking, half
  closed by a kick, gone. The abstract machine knows only the phase of every session and five kinds of
  events; every step of the proxy is one of them, and the phases of all its sessions move as the
  machine says.
\<close>

section \<open>The abstract machine\<close>

datatype phase = Waiting | Talking | Half_Closed | Gone

datatype life_event = Born nat | Talks nat | Half_Closes nat | Closes nat | Stays

inductive life_moves :: "(nat \<Rightarrow> phase option) \<Rightarrow> life_event \<Rightarrow> (nat \<Rightarrow> phase option) \<Rightarrow> bool" where
  born: "m sid = None \<Longrightarrow> life_moves m (Born sid) (m(sid \<mapsto> Waiting))"
| talks: "m sid = Some Waiting \<Longrightarrow> life_moves m (Talks sid) (m(sid \<mapsto> Talking))"
| half_closes: "m sid = Some Talking \<Longrightarrow> life_moves m (Half_Closes sid) (m(sid \<mapsto> Half_Closed))"
| closes: "m sid = Some Talking \<or> m sid = Some Half_Closed \<Longrightarrow> life_moves m (Closes sid) (m(sid \<mapsto> Gone))"
| stays: "life_moves m Stays m"

inductive_simps life_moves_simps [simp]:
  "life_moves m (Born sid) m'" "life_moves m (Talks sid) m'" "life_moves m (Half_Closes sid) m'"
  "life_moves m (Closes sid) m'" "life_moves m Stays m'"

fun life_run :: "(nat \<Rightarrow> phase option) \<Rightarrow> life_event list \<Rightarrow> (nat \<Rightarrow> phase option) \<Rightarrow> bool" where
  "life_run m [] m' \<longleftrightarrow> m' = m"
| "life_run m (l # ls) m' \<longleftrightarrow> (\<exists>v. life_moves m l v \<and> life_run v ls m')"

text \<open>A session never goes back to an earlier phase, and gone it stays gone.\<close>

fun age :: "phase \<Rightarrow> nat" where
  "age Waiting = 0"
| "age Talking = 1"
| "age Half_Closed = 2"
| "age Gone = 3"

lemma life_moves_ages:
  "life_moves m l m' \<Longrightarrow> m sid = Some p \<Longrightarrow> \<exists>p'. m' sid = Some p' \<and> age p \<le> age p' \<and> (p = Gone \<longrightarrow> p' = Gone)"
  by (cases l) auto

text \<open>The name of the next session is not in use.\<close>

lemma unused_name: "proxy_inv w \<Longrightarrow> w_sessions w (pm_next_session (w_env w)) = None"
  by (cases "w_sessions w (pm_next_session (w_env w))")
    (auto simp: proxy_inv_def world_ok_def managed_def)

section \<open>The phases of the proxy's sessions\<close>

fun phase_of :: "StateSocket \<times> bool \<Rightarrow> phase option" where
  "phase_of (INIT, False) = Some Waiting"
| "phase_of (CONNECTING, True) = Some Talking"
| "phase_of (TO_CLOSE, True) = Some Half_Closed"
| "phase_of (CLOSE_DONE, False) = Some Gone"
| "phase_of _ = None"

definition phases :: "proxy_world \<Rightarrow> nat \<Rightarrow> phase option" where
  "phases w sid = Option.bind (lives w sid) phase_of"

text \<open>What a step is for the phases: an accepted connection, or a close task that finds a socket.\<close>

definition close_event :: "nat \<Rightarrow> bool \<Rightarrow> proxy_logic session \<Rightarrow> life_event" where
  "close_event sid elegantly s =
     (if \<not> s_open s \<or> elegantly \<and> s_state s = TO_CLOSE then Stays
      else if elegantly then Half_Closes sid else Closes sid)"

fun event_life :: "proxy_event \<Rightarrow> proxy_world \<Rightarrow> life_event" where
  "event_life (Accepting c f i t d) w = Born (pm_next_session (w_env w))"
| "event_life (Accepted ec ip) w =
     (case pm_accepting (w_env w) of None \<Rightarrow> Stays | Some sid \<Rightarrow> if ec then Stays else Talks sid)"
| "event_life (CloseTask sid) w =
     (case w_sessions w sid of None \<Rightarrow> Stays | Some s \<Rightarrow> close_event sid (hd (s_closes s)) s)"
| "event_life e w = Stays"

text \<open>The states and sockets after each of them.\<close>

fun life_effect :: "life_event \<Rightarrow> (nat \<Rightarrow> (StateSocket \<times> bool) option) \<Rightarrow> nat \<Rightarrow> (StateSocket \<times> bool) option" where
  "life_effect (Born sid) m = m(sid \<mapsto> (INIT, False))"
| "life_effect (Talks sid) m = m(sid \<mapsto> (CONNECTING, True))"
| "life_effect (Half_Closes sid) m = m(sid \<mapsto> (TO_CLOSE, True))"
| "life_effect (Closes sid) m = m(sid \<mapsto> (CLOSE_DONE, False))"
| "life_effect Stays m = m"

lemma lives_upd_env [simp]: "lives (upd_env f w) = lives w"
  by (simp add: lives_def fun_eq_iff upd_env_def)

lemma lives_world [simp]: "lives (w\<lparr>w_now := t\<rparr>) = lives w" "lives (w\<lparr>w_env := x\<rparr>) = lives w"
  by (simp_all add: lives_def fun_eq_iff)

lemma phases_none: "w_sessions w sid = None \<Longrightarrow> phases w sid = None"
  by (simp add: phases_def lives_def)

section \<open>What the handlers do to states and sockets\<close>

lemma yields_states: "yields m (states w) \<Longrightarrow> yields m (\<lambda>w'. lives w' = lives w)"
  by (erule yields_mono) (simp add: states_def)

lemma vt_wrap_proxy: "vt_wrap (proxy_vt fuel z) = proxy_wrap fuel z"
  by (simp add: proxy_vt_def)

lemmas states_proxy_tick = plogic.states_fixed_tick [of _ _ fuel z, unfolded vt_wrap_proxy] for fuel z

lemma states_tick_timer: "yields (tick_timer_done (proxy_wrap fuel z) sid ec w) (states w)"
proof -
  have "yields (upd_session sid (\<lambda>s. if ec then s\<lparr>s_tick_cancelled := s_tick_cancelled s - 1\<rparr>
      else s\<lparr>s_tick_timer := False\<rparr>) w) (states w)"
    by (rule states_upd [OF states_refl]) simp_all
  then show ?thesis unfolding tick_timer_done_def
    by (rule yields_bind) (auto intro: states_proxy_tick)
qed

lemma states_start_tick: "states w0 w \<Longrightarrow> yields (start_tick (proxy_wrap fuel z) sid i t w) (states w0)"
  unfolding start_tick_def update_send_time_def update_recv_time_def
  by (rule yields_bind, erule states_upd, simp_all, rule yields_bind, erule states_upd, simp_all,
      rule yields_bind, erule states_upd, simp_all, erule states_proxy_tick)

lemma states_write_done: "yields (write_done sid ec w) (states w)"
proof -
  have cl: "yields (close_session j b v) (states w)" "yields (kick j v) (states w)" if "states w v" for j b v
    by (auto intro: yields_mono [OF calm_close_session [OF calm_refl]] yields_mono [OF calm_kick [OF calm_refl]]
        states_calm [OF that])
  have p: "states w (put_session sid (s\<lparr>s_writes := ws\<rparr>) w)" if "w_sessions w sid = Some s" for s ws
    by (rule states_put [OF states_refl that]) simp_all
  show ?thesis unfolding write_done_def Let_def
    by (rule yields_bind [OF yields_get_session]) (auto simp: p cl split: list.splits send_callback.splits option.splits)
qed

text \<open>In every handled state each session is in a phase; a waiting one has no buffer and no read.\<close>

definition phased :: "proxy_world \<Rightarrow> bool" where
  "phased w \<longleftrightarrow> (\<forall>sid s. w_sessions w sid = Some s \<longrightarrow> (\<exists>p. phase_of (s_state s, s_open s) = Some p))"

lemma phased_at: "phased w \<Longrightarrow> w_sessions w sid = Some s \<Longrightarrow> \<exists>p. phase_of (s_state s, s_open s) = Some p"
  by (simp add: phased_def)

lemma phase_of_cases:
  "phase_of (st, op) = Some p \<longleftrightarrow>
     (st = INIT \<and> \<not> op \<and> p = Waiting) \<or> (st = CONNECTING \<and> op \<and> p = Talking)
     \<or> (st = TO_CLOSE \<and> op \<and> p = Half_Closed) \<or> (st = CLOSE_DONE \<and> \<not> op \<and> p = Gone)"
  by (cases st; cases op) auto

lemma life_accepting: "yields (accept_a_session c f i t d w) (\<lambda>w'. lives w' = (lives w)(pm_next_session (w_env w) \<mapsto> (INIT, False)))"
proof -
  have ns: "yields (new_session ex au c f i t now) (\<lambda>s. s_state s = INIT \<and> \<not> s_open s)" for ex au now
    unfolding new_session_def by (rule yields_bind [OF yields_True]) simp
  show ?thesis unfolding accept_a_session_def Let_def modify_session_logic_def
    by (rule yields_pair, rule yields_pair, rule yields_bind [OF ns], rule yields_upd_session) simp
qed

lemma life_accept_done:
  "yields (accept_done fuel z ec ip w) (\<lambda>w'. lives w' = life_effect (event_life (Accepted ec ip) w) (lives w))"
proof (cases "pm_accepting (w_env w)")
  case (Some a)
  let ?P = "\<lambda>w'. lives w' = (lives w)(a \<mapsto> (CONNECTING, True))"
  have pass: "yields (passively_connect_succ a v) ?P" if v: "\<exists>st. lives v = (lives w)(a \<mapsto> (st, True))" for v
    unfolding passively_connect_succ_def
  proof (rule yields_bind [OF yields_upd_session])
    fix s assume s: "w_sessions v a = Some s"
    then have "lives (put_session a (s\<lparr>s_state := CONNECTING\<rparr>) v) = (lives w)(a \<mapsto> (CONNECTING, True))"
      using v lives_session [OF s] by auto
    then show "?P (put_session a (s\<lparr>s_state := CONNECTING\<rparr>) v)" .
  qed (rule yields_mono [OF states_recv_loop [OF states_refl]], simp add: states_def fun_upd_def)
  have tick: "yields (start_tick (proxy_wrap fuel z) a i t v) ?P" if "?P v" for v i t
    by (rule yields_mono [OF states_start_tick [OF states_refl]]) (simp add: states_def that)
  have "yields (rbind (upd_session a (\<lambda>s. s\<lparr>s_open := True, s_remote_ip := Some ip\<rparr>) (upd_env g w)) (\<lambda>w.
          rbind (get_session a w) (\<lambda>s.
          rbind (passively_connect_succ a (upd_env (\<lambda>e. e\<lparr>pm_un_managed_sessions := snd (hm_insert (pm_un_managed_sessions e) (s_uuid s) a)\<rparr>) w)) (\<lambda>w.
          start_tick (proxy_wrap fuel z) a (uint (cfg_tick_interval (pm_config (w_env w))))
            (uint (cfg_keep_alive_timeout (pm_config (w_env w)))) w)))) ?P" for g
    by (rule yields_bind [where Q = "\<lambda>v. \<exists>st. lives v = (lives w)(a \<mapsto> (st, True))"],
        rule yields_upd_session, simp, blast,
        rule yields_bind [OF yields_True], rule yields_bind, rule pass) (simp_all add: tick)
  with Some show ?thesis unfolding accept_done_def by (simp add: Let_def)
qed (simp add: accept_done_def)

lemma life_close_task:
  assumes "phased w"
  shows "yields (close_task sid w) (\<lambda>w'. lives w' = life_effect (event_life (CloseTask sid) w) (lives w))"
  unfolding close_task_def
proof (rule yields_upd_session)
  fix s assume s: "w_sessions w sid = Some s"
  then obtain p where "phase_of (s_state s, s_open s) = Some p" using assms by (auto simp: phased_def)
  with s lives_session [OF s]
  show "lives (put_session sid (close_task_session (hd (s_closes s)) (s\<lparr>s_closes := tl (s_closes s)\<rparr>)) w)
      = life_effect (event_life (CloseTask sid) w) (lives w)"
    by (auto simp: phase_of_cases close_event_def close_task_session_def clear_all_timer_def Let_def fun_upd_idem)
qed

lemma life_handler:
  assumes inv: "proxy_inv w" and ph: "phased w" and en: "enabled e w"
  shows "yields (proxy_handler fuel z e w) (\<lambda>w'. lives w' = life_effect (event_life e w) (lives w))"
proof (cases e)
  case (RetryTimer i ec)
  obtain k where "world_ok k w" using inv by (auto simp: proxy_inv_def)
  then show ?thesis using RetryTimer world_ok_retry en by metis
next
  case (Accepted ec ip)
  then show ?thesis using life_accept_done [of fuel z ec ip w] by simp
next
  case (CloseTask i)
  then show ?thesis using life_close_task [OF ph, of i] by simp
qed (auto simp: life_accepting clean_up_closed_session_def Let_def hm_complex_operation_def
    intro: yields_states plogic.states_read_done states_write_done states_tick_timer)

section \<open>Refinement\<close>

lemma phases_upd:
  "lives w' = (lives w)(sid \<mapsto> x) \<Longrightarrow> phases w' = (phases w)(sid := phase_of x)"
  by (auto simp: phases_def)

lemma phases_session: "w_sessions w sid = Some s \<Longrightarrow> phases w sid = phase_of (s_state s, s_open s)"
  by (simp add: phases_def lives_session)

lemma phased_iff: "phased w \<longleftrightarrow> (\<forall>sid x. lives w sid = Some x \<longrightarrow> phase_of x \<noteq> None)"
  unfolding phased_def using lives_session lives_some by (metis not_None_eq)

lemma phased_dom: "phased w \<Longrightarrow> dom (phases w) = dom (w_sessions w)"
  by (auto simp: phases_def phased_def lives_def bind_eq_Some_conv dom_def)

lemma life_step:
  assumes inv: "proxy_inv w" and ph: "phased w" and st: "proxy_step fuel z w e w'"
  shows "phased w'" "life_moves (phases w) (event_life e w) (phases w')"
proof -
  obtain k where ok: "world_ok k w" using inv by (auto simp: proxy_inv_def)
  obtain en: "enabled e w" and run: "proxy_handler fuel z e w = Inr w'" using st by (auto elim: proxy_stepE)
  have eff: "lives w' = life_effect (event_life e w) (lives w)" by (rule yieldsD [OF run life_handler [OF inv ph en]])
  then show "phased w'" using ph unfolding phased_iff by (cases "event_life e w") (auto split: if_splits)
  have new: "phases w (pm_next_session (w_env w)) = None" by (rule phases_none [OF unused_name [OF inv]])
  have wait: "phases w a = Some Waiting" if "pm_accepting (w_env w) = Some a" for a
  proof -
    have "fst k = Some a" using that world_ok_managed [OF ok] by (auto simp: managed_def)
    then obtain s where "w_sessions w a = Some s" "fresh s" using ok unfolding world_ok_def by blast
    then show ?thesis by (simp add: phases_session fresh_def)
  qed
  have close: "life_moves (phases w) (close_event sid b s) (phases w')"
    if s: "w_sessions w sid = Some s" and l: "lives w' = life_effect (close_event sid b s) (lives w)" for sid b s
  proof -
    obtain p where p: "phase_of (s_state s, s_open s) = Some p" using ph s by (auto simp: phased_def)
    then show ?thesis using l phases_session [OF s]
      by (auto simp: phase_of_cases close_event_def phases_def fun_eq_iff split: if_splits)
  qed
  have same: "lives w' = lives w \<Longrightarrow> phases w' = phases w" by (simp add: phases_def fun_eq_iff)
  show "life_moves (phases w) (event_life e w) (phases w')"
    using eff new wait close en same
    by (cases e) (auto dest: phases_upd split: option.splits if_splits)
qed

lemma phased_start:
  assumes "proxy_init w" "start_proxy c f i t d w = Inr w'"
  shows "phased w'"
proof -
  have "lives w' = (lives w)(pm_next_session (w_env w) \<mapsto> (INIT, False))"
    using assms(2) yieldsD [OF _ life_accepting] unfolding start_proxy_def Let_def
    by (fastforce simp: upd_env_def)
  moreover have "lives w = Map.empty" using assms(1) by (simp add: proxy_init_def lives_def fun_eq_iff)
  ultimately show ?thesis unfolding phased_iff by (auto split: if_splits)
qed

lemma reachable_phased: "proxy_reachable fuel z w \<Longrightarrow> phased w"
  by (induction rule: proxy_reachable.induct) (auto intro: phased_start life_step proxy_reachable_inv)

end
