(* ===== verification/Proxy_Properties.thy ===== *)
theory Proxy_Properties
  imports Session_Life
begin

text \<open>
  The theorems about the running proxy: they hold in every world it can reach, for every zlib
  and every bound on its loops.
\<close>

section \<open>What a finished read does\<close>

lemma recv_loop_content:
  assumes s: "w_sessions w sid = Some s"
  shows "yields (async_recv_loop sid w) (\<lambda>w'. \<exists>s'. w_sessions w' sid = Some s' \<and> recv_content (s_recv s') = recv_content (s_recv s))"
proof -
  obtain b w1 where tb: "temp_buffer w = (b, w1)" by fastforce
  have b: "recv_bytes b = []" using pool_buffer_block [OF tb] by (simp add: recv_bytes_def)
  show ?thesis
    unfolding async_recv_loop_def tb
    by (rule yields_bind [OF yields_get_session]) (auto simp: s b Let_def split: option.splits)
qed

lemma read_hands_over:
  assumes inv: "proxy_inv w" and s: "w_sessions w sid = Some s" and rd: "s_reads s \<noteq> []"
    and room: "length bs \<le> unat (pr_room (hd (s_reads s)))"
    and run: "read_done (proxy_vt fuel z) sid False bs w = Inr w'"
  shows "\<exists>db w1 w2 s'. handed (proxy_vt fuel z) sid (fst (split_frames (recv_content (s_recv s) @ bs))) db w1 [] w2
    \<and> block_ok db \<and> w_env w1 = w_env w \<and> w_sessions w' sid = Some s'
    \<and> recv_content (s_recv s') = snd (split_frames (recv_content (s_recv s) @ bs))"
proof -
  obtain k where ok: "world_ok k w" using inv by (auto simp: proxy_inv_def)
  have en: "enabled (ReadDone sid False bs) w" using s rd room by simp
  obtain t r where t: "read_done (proxy_vt fuel z) sid False bs w = pick_entire_msgs (proxy_vt fuel z) sid (put_session sid t w)"
      "idle k sid (put_session sid t w)" "recv_content (s_recv t) = recv_content (s_recv s) @ bs"
    using read_done_starts [OF ok s en, of fuel z] by fastforce
  obtain db w0 w2 where tb: "temp_buffer (put_session sid t w) = (db, w0)"
      and loop: "pick_loop pick_fuel (proxy_vt fuel z) sid db w0 = Inr w2" and again: "async_recv_loop sid w2 = Inr w'"
    using run t(1) by (auto simp: pick_entire_msgs_def rbind_eq_Inr split: prod.splits)
  have w0: "w_sessions w0 sid = Some t" "w_env w0 = w_env w" using pool_buffer_world [OF tb] by simp_all
  have db: "block_ok db" using pool_buffer_block [OF tb] by (simp add: block_ok_def)
  have idle: "idle k sid w0" by (rule idle_pool_buffer [OF t(2) tb])
  have rt: "reading t" using idle w0(1) by (auto simp: idle_def intro: world_ok_session)
  then have good: "recv_good (s_recv t)" by (simp add: reading_def)
  then have enough: "length (recv_content (s_recv t)) < PROTO_HEAD_SIZE * pick_fuel" by (rule pick_fuel_enough)
  obtain left s' where h: "handed (proxy_vt fuel z) sid (fst (split_frames (recv_content (s_recv t)))) db w0 left w2"
      "w_sessions w2 sid = Some s'"
      "recv_content (s_recv s') = concat (map frame_bytes left) @ snd (split_frames (recv_content (s_recv t)))"
      "left \<noteq> [] \<longrightarrow> s_timer s'"
    using plogic.pick_loop_hands_over [OF w0(1) good db enough loop] by blast
  have "idle k sid w2" using yieldsD [OF loop idle_loop [OF idle db]] .
  then have "reading s'" using h(2) by (auto simp: idle_def intro: world_ok_session)
  then have left: "left = []" using h(4) by (auto simp: reading_def)
  obtain s2 where "w_sessions w' sid = Some s2" "recv_content (s_recv s2) = recv_content (s_recv s')"
    using yieldsD [OF again recv_loop_content [OF h(2)]] by blast
  then show ?thesis using h(1,3) left db w0(2) t(3) by auto
qed

section \<open>Running the proxy on given events\<close>

fun proxy_run :: "nat \<Rightarrow> zlib \<Rightarrow> proxy_event list \<Rightarrow> proxy_world \<Rightarrow> proxy_world res" where
  "proxy_run fuel z [] w = Inr w"
| "proxy_run fuel z (e # es) w =
     (if enabled e w then rbind (proxy_handler fuel z e w) (proxy_run fuel z es) else Inl Aborted)"

lemma proxy_run_reachable:
  "proxy_reachable fuel z w \<Longrightarrow> proxy_run fuel z es w = Inr w' \<Longrightarrow> proxy_reachable fuel z w'"
  by (induction es arbitrary: w)
    (auto simp: rbind_eq_Inr split: if_splits intro: reach_step proxy_step.step)

section \<open>A sample run\<close>

text \<open>A proxy that ticks every 100 ms, and a zlib whose initialisers fail.\<close>

definition sample_cfg :: proxy_config where
  "sample_cfg = \<lparr>cfg_listened_port = 1, cfg_session_thread_num = 1, cfg_tick_interval = 100,
     cfg_keep_alive_timeout = 30000, cfg_max_send_delay = 0\<rparr>"

definition sample_zlib :: zlib where
  "sample_zlib = \<lparr>z_deflate_init = False, z_deflate = (\<lambda>_ _ _. []), z_inflate_init = False,
     z_inflate = (\<lambda>_ _ _. ([], True))\<rparr>"

definition sample_logic :: default_logic where
  "sample_logic = \<lparr>dl_authentication = BEFORE_VERIFY, dl_session_holder = None, dl_target_uid = 0,
     dl_rc4_info = \<lparr>rc4_modvt = 1, rc4_key = [], rc4_subtract = 1\<rparr>,
     dl_server_info = \<lparr>si_server_id = 0, si_area_id = 0, si_platform = [], si_link_type = 0\<rparr>, dl_seq = 0\<rparr>"

definition sample_world :: proxy_world where
  "sample_world = \<lparr>w_sessions = Map.empty, w_now = 0, w_alloc = 0, w_junk = (\<lambda>_ _. 0),
     w_env = proxy_new sample_cfg 1\<rparr>"

definition sample_run :: "proxy_event list \<Rightarrow> proxy_world res" where
  "sample_run es = rbind (start_proxy 7 0 0 0 sample_logic sample_world) (proxy_run 5 sample_zlib es)"

lemma sample_run_reachable: "sample_run es = Inr w \<Longrightarrow> proxy_reachable 5 sample_zlib w"
proof -
  have "proxy_init sample_world" by (auto simp: proxy_init_def sample_world_def)
  then show "sample_run es = Inr w \<Longrightarrow> proxy_reachable 5 sample_zlib w"
    by (auto simp: sample_run_def rbind_eq_Inr intro: proxy_run_reachable reach_start)
qed

text \<open>What the simplifier needs to run the proxy.\<close>

lemma pick_loop_once: "pick_loop pick_fuel vt sid db w =
     rbind (pick_a_entire_msg vt sid db w) (\<lambda>((again, data_block), w).
     if again then pick_loop 5999 vt sid data_block w else Inr w)"
proof -
  have "pick_fuel = Suc 5999" by simp
  then show ?thesis by (simp only: pick_loop.simps)
qed

lemmas sample_defs = sample_run_def sample_world_def sample_cfg_def start_proxy_def accept_a_session_def
  new_session_def agent_strand_def strand_to_run_def agent_reset_def executor_new_def executor_start_def
  proxy_new_def upd_env_def modify_session_logic_def upd_session_def get_session_def put_session_def
  split_beta Let_def

lemmas handler_defs = accept_done_def hm_insert_def hm_insert_locked_def um_insert_def hm_contains_key_def
  passively_connect_succ_def start_tick_def fixed_tick_def async_recv_loop_def pool_buffer_def reset_buffer_def
  is_tick_frame_effective_def update_send_time_def update_recv_time_def arm_tick_timer_def buffer_at_def
  available_capacity_def read_done_def deliver_read_def pick_entire_msgs_def close_session_def
  pick_a_entire_msg_def close_task_def close_task_session_def clear_all_timer_def pick_loop_once

text \<open>A session accepted, and one whose peer broke off.\<close>

lemma sample_accepted: "\<exists>w s. sample_run [Accepted False 9] = Inr w \<and> w_sessions w 0 = Some s
    \<and> s_state s = CONNECTING \<and> s_recv s \<noteq> None \<and> recv_content (s_recv s) = []
    \<and> s_reads s = [\<lparr>pr_buffer = 0, pr_pos = 0, pr_room = 65536\<rparr>]"
  by (simp add: sample_defs handler_defs recv_bytes_def)

lemma sample_closed: "\<exists>w s. sample_run [Accepted False 9, ReadDone 0 True [], CloseTask 0] = Inr w
    \<and> w_sessions w 0 = Some s \<and> s_state s = CLOSE_DONE"
  by (simp add: sample_defs handler_defs)

lemma one_read_in_room_at:
  assumes "world_ok k w" "w_sessions w sid = Some s"
  shows "s_reads s = [] \<or> (\<exists>pr. s_reads s = [pr] \<and> unat (pr_pos pr) = length (recv_content (s_recv s))
    \<and> unat (pr_pos pr) + unat (pr_room pr) = 65536)"
proof -
  have "reading s" using world_ok_session [OF assms] .
  then consider "s_reads s = []"
    | name b where "s_recv s = Some (name, b)" "recv_ok b"
        "s_reads s = [\<lparr>pr_buffer = name, pr_pos = buf_length b, pr_room = ONCE_BUFFER_SIZE - buf_length b\<rparr>]"
    by (auto simp: reading_def)
  then show ?thesis
  proof cases
    case 2
    then have "unat (buf_length b) \<le> 65536" by (simp add: recv_ok_def)
    moreover from this have "unat (ONCE_BUFFER_SIZE - buf_length b) = 65536 - unat (buf_length b)"
      by (subst unat_sub_small) simp_all
    ultimately show ?thesis using 2 by simp
  qed simp
qed

section \<open>Properties\<close>



text \<open>C8: a session that is closed stays closed and without a socket, whatever happens next.\<close>

theorem closed_is_final:
  assumes "proxy_reachable fuel z w" "proxy_step fuel z w e w'"
    and "w_sessions w sid = Some s" "s_state s = CLOSE_DONE"
  shows "\<exists>s'. w_sessions w' sid = Some s' \<and> s_state s' = CLOSE_DONE \<and> \<not> s_open s'"
proof -
  have "phases w sid = Some Gone"
    using phased_at [OF reachable_phased [OF assms(1)] assms(3)] assms(3,4) by (auto simp: phases_session phase_of_cases)
  with life_moves_ages [OF life_step(2) [OF proxy_reachable_inv [OF assms(1)] reachable_phased [OF assms(1)] assms(2)]]
  have "phases w' sid = Some Gone" by blast
  then show ?thesis by (auto simp: phases_def bind_eq_Some_conv phase_of_cases dest: lives_some)
qed

lemma closed_is_final_witness:
  "\<exists>w w' s'. sample_run [Accepted False 9, ReadDone 0 True [], CloseTask 0] = Inr w \<and>
     proxy_step 5 sample_zlib w (Elapse 3) w' \<and> w_sessions w' 0 = Some s' \<and> s_state s' = CLOSE_DONE \<and> \<not> s_open s'"
proof -
  obtain w s where r: "sample_run [Accepted False 9, ReadDone 0 True [], CloseTask 0] = Inr w"
      "w_sessions w 0 = Some s" "s_state s = CLOSE_DONE"
    using sample_closed by blast
  have st: "proxy_step 5 sample_zlib w (Elapse 3) (w\<lparr>w_now := w_now w + 3\<rparr>)"
    by (rule proxy_step.step) simp_all
  from closed_is_final [OF sample_run_reachable [OF r(1)] st r(2,3)] r(1) st show ?thesis by blast
qed

text \<open>What a run of the proxy is for the phases of its sessions.\<close>

fun life_trace :: "nat \<Rightarrow> zlib \<Rightarrow> proxy_event list \<Rightarrow> proxy_world \<Rightarrow> life_event list" where
  "life_trace fuel z [] w = []"
| "life_trace fuel z (e # es) w =
     event_life e w # (case proxy_handler fuel z e w of Inl _ \<Rightarrow> [] | Inr v \<Rightarrow> life_trace fuel z es v)"

text \<open>C7: The life of the sessions refines the abstract machine: in every reachable state every session is
  in exactly one of the phases waiting, talking, half closed and gone, and every run of the proxy is a run of
  the machine. A session is born waiting, talks once its connection is accepted, is half closed only by the
  task of a kick while it talks, is gone only by the task of an error while it talks or is half
  closed, and nothing else the proxy does (reads, writes, timers, clean-up) moves any of them.\<close>

theorem session_life_refined:
  assumes "proxy_reachable fuel z w" "proxy_run fuel z es w = Inr w'"
  shows "life_run (phases w) (life_trace fuel z es w) (phases w') \<and> dom (phases w') = dom (w_sessions w')"
  using assms
proof (induction es arbitrary: w)
  case Nil
  then show ?case using reachable_phased phased_dom by auto
next
  case (Cons e es)
  then obtain v where v: "enabled e w" "proxy_handler fuel z e w = Inr v" "proxy_run fuel z es v = Inr w'"
    by (auto simp: rbind_eq_Inr split: if_splits)
  then have st: "proxy_step fuel z w e v" by (blast intro: proxy_step.step)
  have "life_moves (phases w) (event_life e w) (phases v)"
    using life_step(2) [OF proxy_reachable_inv reachable_phased st] Cons.prems(1) by blast
  with Cons.IH [OF reach_step [OF Cons.prems(1) st] v(3)] v(2) show ?case by auto
qed

lemma sample_life: "\<exists>w w'. sample_run [] = Inr w \<and> proxy_run 5 sample_zlib [Accepted False 9, ReadDone 0 True [], CloseTask 0] w = Inr w'
    \<and> life_trace 5 sample_zlib [Accepted False 9, ReadDone 0 True [], CloseTask 0] w = [Talks 0, Stays, Closes 0]"
  by (simp add: sample_defs handler_defs close_event_def)

lemma session_life_refined_witness:
  "\<exists>w w'. sample_run [] = Inr w \<and> proxy_run 5 sample_zlib [Accepted False 9, ReadDone 0 True [], CloseTask 0] w = Inr w'
     \<and> phases w 0 = Some Waiting \<and> phases w' = (phases w)(0 \<mapsto> Gone)"
proof -
  obtain w w' where r: "sample_run [] = Inr w" "proxy_run 5 sample_zlib [Accepted False 9, ReadDone 0 True [], CloseTask 0] w = Inr w'"
    "life_trace 5 sample_zlib [Accepted False 9, ReadDone 0 True [], CloseTask 0] w = [Talks 0, Stays, Closes 0]"
    using sample_life by blast
  from session_life_refined [OF sample_run_reachable [OF r(1)] r(2)] r show ?thesis by (simp del: proxy_run.simps)
qed


text \<open>C9: at most one read is in progress on a session, and it can fill exactly the free room of the
  receive buffer behind the bytes already there, never more.\<close>

theorem one_read_in_room:
  assumes "proxy_reachable fuel z w" "w_sessions w sid = Some s"
  shows "s_reads s = [] \<or> (\<exists>pr. s_reads s = [pr] \<and> unat (pr_pos pr) = length (recv_content (s_recv s))
    \<and> unat (pr_pos pr) + unat (pr_room pr) = 65536)"
  using proxy_reachable_inv [OF assms(1)] one_read_in_room_at [OF _ assms(2)] unfolding proxy_inv_def by blast

lemma one_read_in_room_witness:
  "\<exists>w s pr. sample_run [Accepted False 9] = Inr w \<and> w_sessions w 0 = Some s \<and> s_reads s = [pr]
     \<and> unat (pr_pos pr) + unat (pr_room pr) = 65536"
proof -
  obtain w s where r: "sample_run [Accepted False 9] = Inr w" "w_sessions w 0 = Some s"
      "s_reads s = [\<lparr>pr_buffer = 0, pr_pos = 0, pr_room = 65536\<rparr>]"
    using sample_accepted by blast
  from one_read_in_room [OF sample_run_reachable [OF r(1)] r(2)] r show ?thesis by auto
qed

text \<open>C10: the server map holds exactly the sessions whose logic is a server's, each under its own
  uid, once.\<close>

theorem servers_are_the_managed_ones:
  assumes "proxy_reachable fuel z w"
  shows "distinct (map fst (pm_server_sessions (w_env w)))
    \<and> ((uid, sid) \<in> set (pm_server_sessions (w_env w)) \<longleftrightarrow>
        (\<exists>s l. w_sessions w sid = Some s \<and> s_uuid s = uid \<and> s_logic s = Some (Server l)))"
proof -
  obtain k where m: "managed k w" using proxy_reachable_inv [OF assms] by (auto simp: proxy_inv_def world_ok_def)
  have "(uid, sid) \<in> set (pm_server_sessions (w_env w))"
    if "w_sessions w sid = Some s" "s_uuid s = uid" "s_logic s = Some (Server l)" for s l
    using managed_logic [OF m that(1)] that by simp
  moreover have "distinct (map fst (pm_server_sessions (w_env w)))"
    using m by (simp add: managed_def hm_inv_def)
  ultimately show ?thesis using managed_server [OF m] by blast
qed

lemma servers_are_the_managed_ones_witness:
  "\<exists>w. sample_run [Accepted False 9] = Inr w \<and> distinct (map fst (pm_server_sessions (w_env w)))"
proof -
  obtain w where r: "sample_run [Accepted False 9] = Inr w" using sample_accepted by blast
  from servers_are_the_managed_ones [OF sample_run_reachable [OF r]] r show ?thesis by blast
qed

text \<open>C15: no client is ever authenticated: no reachable state has a managed client or a session with
  a client's logic. (The search for the target server passes its handler to
  \<open>complex_operation\<close>, which never calls it.)\<close>

theorem no_client_ever:
  assumes "proxy_reachable fuel z w"
  shows "pm_client_sessions (w_env w) = [] \<and>
    (\<forall>sid s l. w_sessions w sid = Some s \<longrightarrow> s_logic s \<noteq> Some (Client l))"
proof -
  obtain k where m: "managed k w" using proxy_reachable_inv [OF assms] by (auto simp: proxy_inv_def world_ok_def)
  have "s_logic s \<noteq> Some (Client l)" if "w_sessions w sid = Some s" for sid s l
    using managed_logic [OF m that] by auto
  then show ?thesis using managed_clients [OF m] by blast
qed

lemma no_client_ever_witness:
  "\<exists>w. sample_run [Accepted False 9] = Inr w \<and> pm_client_sessions (w_env w) = []"
proof -
  obtain w where r: "sample_run [Accepted False 9] = Inr w" using sample_accepted by blast
  from no_client_ever [OF sample_run_reachable [OF r]] r show ?thesis by blast
qed



end
