(* ===== verification/Proxy_Traffic.thy ===== *)
theory Proxy_Traffic
  imports Proxy_Manager
begin

text \<open>
  What goes over the wire between the proxy and its peers: what the logics' \<open>wrap_to_send_data\<close>
  produce is one whole packet that passes the receiver's checks, and what their
  \<open>unwrap_received_data\<close> do with a packet, accepted or refused. Then the authentication of a
  server, which moves its session.
\<close>

section \<open>A header in front of a block\<close>

text \<open>A block as the logics' callers prepare it: 64 KB, with room for exactly a header.\<close>

definition send_block :: "reusable_buffer \<Rightarrow> byte list \<Rightarrow> bool" where
  "send_block b data \<longleftrightarrow> buf_SIZE b = ONCE_BUFFER_SIZE \<and> buf_offset b = of_nat PROTO_HEAD_SIZE
     \<and> payload b = Inr data"

lemma send_block_length:
  assumes "send_block b data"
  shows "unat (buf_length b) = length data" "length data + PROTO_HEAD_SIZE \<le> 65536"
    "mem_read (buf_bytes b) PROTO_HEAD_SIZE (length data) = data" "length data < 65536"
  using assms by (auto simp: send_block_def payload_def buf_get_Inr_iff)

lemma send_block_len16:
  assumes "send_block b data"
  shows "unat (ucast (buf_length b) :: u16) = length data"
  using send_block_length [OF assms] by (simp add: unsigned_ucast_eq take_bit_nat_eq_self)

lemma put_head_packet:
  assumes "send_block b data"
  shows "\<exists>b'. put_head b h = Inr b' \<and> buf_offset b' = 0 \<and> payload b' = Inr (head_bytes h @ data)"
proof -
  note len = send_block_length [OF assms]
  have b: "buf_SIZE b = ONCE_BUFFER_SIZE" "buf_offset b = of_nat PROTO_HEAD_SIZE"
    using assms by (auto simp: send_block_def)
  have sz: "unat (buf_SIZE b) = 65536" by (simp add: b)
  have nl: "unat (buf_length b + of_nat PROTO_HEAD_SIZE) = length data + PROTO_HEAD_SIZE"
    using len by (subst unat_add_small) simp_all
  let ?m = "mem_write (buf_bytes b) 0 (head_bytes h)"
  have "mem_read ?m 0 (PROTO_HEAD_SIZE + length data)
      = mem_read ?m 0 PROTO_HEAD_SIZE @ mem_read ?m PROTO_HEAD_SIZE (length data)"
    using mem_read_append [of ?m 0 PROTO_HEAD_SIZE "length data"] by simp
  also have "\<dots> = head_bytes h @ data" using len(3) by (simp add: mem_simps)
  finally have rd: "mem_read ?m 0 (length data + PROTO_HEAD_SIZE) = head_bytes h @ data"
    by (simp add: add.commute)
  have put: "put_head b h = Inr (b\<lparr>buf_bytes := ?m, buf_offset := 0, buf_length := buf_length b + of_nat PROTO_HEAD_SIZE\<rparr>)"
    unfolding put_head_def by (simp add: buf_put_def sz b)
  show ?thesis
  proof (rule exI [of _ "b\<lparr>buf_bytes := ?m, buf_offset := 0, buf_length := buf_length b + of_nat PROTO_HEAD_SIZE\<rparr>"],
      intro conjI)
    show "payload (b\<lparr>buf_bytes := ?m, buf_offset := 0, buf_length := buf_length b + of_nat PROTO_HEAD_SIZE\<rparr>)
        = Inr (head_bytes h @ data)"
      unfolding payload_def buf_get_def using nl len(2) sz rd by (simp del: length_head_bytes)
  qed (simp_all add: put)
qed

text \<open>A packet that says its length is cut out whole.\<close>

lemma split_one_packet:
  assumes "length data = unat (head_len h)"
  shows "split_frames (head_bytes h @ data) = ([(h, data)], [])"
proof -
  have "drop (PROTO_HEAD_SIZE + unat (head_len h)) (head_bytes h @ data) = []" using assms by simp
  moreover have "take (unat (head_len h)) (drop PROTO_HEAD_SIZE (head_bytes h @ data)) = data" using assms by simp
  ultimately show ?thesis
    using split_frames_take [of "head_bytes h @ data" h] assms by (simp add: split_frames_short)
qed

text \<open>What a peer makes of a packet: the one it holds, its checksum right.\<close>

definition one_packet :: "byte list \<Rightarrow> protocol_head \<Rightarrow> byte list \<Rightarrow> bool" where
  "one_packet bs h data \<longleftrightarrow> split_frames bs = ([(h, data)], []) \<and> get_mask (head_bytes h) data 0 = 0"

lemma sealed_one_packet:
  assumes "length data = unat l"
  shows "one_packet (head_bytes (seal_head (get_a_head f l 0 cmd c s) data) @ data)
    (seal_head (get_a_head f l 0 cmd c s) data) data"
proof -
  have "length data \<le> 130000" using assms len16_less [of l] by simp
  then show ?thesis
    using assms seal_head_accepted [of "get_a_head f l 0 cmd c s" data]
    by (simp add: one_packet_def split_one_packet)
qed

section \<open>Wrapping\<close>

lemma send_block_payload: "send_block b data \<Longrightarrow> payload b = Inr data"
  by (simp add: send_block_def)

lemma server_wrap_packet:
  assumes "send_block b data"
  shows "\<exists>b' bs h. server_wrap l b = Inr b' \<and> payload b' = Inr bs \<and> one_packet bs h data
    \<and> head_seq h = sl_seq l \<and> get_cmd h = cmd_code Commands_RoutingTransparent \<and> \<not> get_compressed h"
proof -
  let ?h = "seal_head (get_a_head FRAME_KEY (ucast (buf_length b)) 0 (cmd_code Commands_RoutingTransparent) False (sl_seq l)) data"
  have "one_packet (head_bytes ?h @ data) ?h data"
    by (rule sealed_one_packet) (simp add: send_block_len16 [OF assms])
  moreover obtain b' where "put_head b ?h = Inr b'" "buf_offset b' = 0" "payload b' = Inr (head_bytes ?h @ data)"
    using put_head_packet [OF assms] by blast
  ultimately show ?thesis
    unfolding server_wrap_def Let_def send_block_payload [OF assms]
    by (intro exI [of _ b'] exI [of _ "head_bytes ?h @ data"] exI [of _ ?h]) (simp add: get_cmd_head)
qed

lemma default_wrap_packet:
  assumes "send_block b data"
  shows "\<exists>b' bs h. default_wrap l b = Inr b' \<and> payload b' = Inr bs \<and> one_packet bs h data
    \<and> head_seq h = dl_seq l \<and> get_cmd h = cmd_code Commands_AuthenticationAAA \<and> \<not> get_compressed h"
proof -
  let ?h = "seal_head (get_a_head FRAME_KEY (ucast (buf_length b)) 0 (cmd_code Commands_AuthenticationAAA) False (dl_seq l)) data"
  have "one_packet (head_bytes ?h @ data) ?h data"
    by (rule sealed_one_packet) (simp add: send_block_len16 [OF assms])
  moreover obtain b' where "put_head b ?h = Inr b'" "payload b' = Inr (head_bytes ?h @ data)"
    using put_head_packet [OF assms] by blast
  moreover have "buf_get b (buffer_at b 0) (unat (ucast (buf_length b) :: u16)) = Inr data"
    using send_block_payload [OF assms] send_block_len16 [OF assms] send_block_length(1) [OF assms]
    by (simp add: payload_def)
  ultimately show ?thesis
    unfolding default_wrap_def Let_def
    by (intro exI [of _ b'] exI [of _ "head_bytes ?h @ data"] exI [of _ ?h]) (simp add: get_cmd_head)
qed

text \<open>Encryption in place keeps a block a block.\<close>

lemma crypt_block_at:
  assumes "buf_get b (buf_offset b) (unat n) = Inr data"
    and "\<And>box. length box = 255 \<Longrightarrow> rc4_crypt box (rc4_modvt i) (rc4_key i) (int RC4_KEY_LEN) data (rc4_subtract i) E = Inr c"
    and "length c = length data"
  shows "\<exists>b' w'. crypt_block i b n E w = Inr (b', w') \<and> w' = w\<lparr>w_alloc := w_alloc w + 1\<rparr> \<and> same_block b b'
    \<and> buf_length b' = buf_length b \<and> buf_get b' (buf_offset b') (unat n) = Inr c"
proof -
  have n: "unat (buf_offset b) + unat n \<le> unat (buf_SIZE b)" "length data = unat n"
    using assms(1) by (auto simp: buf_get_Inr_iff)
  let ?b = "b\<lparr>buf_bytes := mem_write (buf_bytes b) (unat (buf_offset b)) c\<rparr>"
  have put: "buf_put b (buf_offset b) c = Inr ?b" using n assms(3) by (simp add: buf_put_def)
  have "buf_get ?b (buf_offset ?b) (unat n) = Inr c"
    using buf_put_get [OF put] n(2) assms(3) by simp
  moreover have "length (mem_read (w_junk w (w_alloc w)) 0 255) = 255" by (simp add: mem_simps)
  moreover note assms(2) [OF calculation(2)]
  ultimately show ?thesis
    unfolding crypt_block_def stack_box_def Let_def prod.case
    by (simp add: assms(1) put same_block_def)
qed

lemma client_wrap_packet:
  assumes "send_block b data" "length data \<le> 64"
    and "valid_mod (rc4_modvt (cl_rc4_info l))" "RC4_KEY_LEN \<le> length (rc4_key (cl_rc4_info l))"
  shows "\<exists>b' w' bs h c. client_wrap fuel z l b w = Inr (b', w') \<and> payload b' = Inr bs \<and> one_packet bs h c
    \<and> head_seq h = cl_seq l \<and> get_cmd h = cmd_code Commands_RoutingTransparent \<and> \<not> get_compressed h
    \<and> (\<forall>box. length box = 255 \<longrightarrow>
         rc4_crypt box (rc4_modvt (cl_rc4_info l)) (rc4_key (cl_rc4_info l)) (int RC4_KEY_LEN) c
           (rc4_subtract (cl_rc4_info l)) False = Inr data)"
proof -
  let ?i = "cl_rc4_info l"
  let ?enc = "\<lambda>box ds. rc4_crypt box (rc4_modvt ?i) (rc4_key ?i) (int RC4_KEY_LEN) ds (rc4_subtract ?i)"
  have rt: "\<exists>c. ?enc box0 data True = Inr c \<and> length c = length data \<and> ?enc box1 c False = Inr data"
    if "length box0 = 255" "length box1 = 255" for box0 box1
    by (rule rc4_crypt_roundtrip) (use that assms(3,4) in simp_all)
  have k: "0 < int RC4_KEY_LEN" "int RC4_KEY_LEN \<le> int (length (rc4_key ?i))" using assms(4) by simp_all
  obtain c where c: "length c = length data" and enc: "\<And>box. length box = 255 \<Longrightarrow> ?enc box data True = Inr c"
    using rc4_crypt_total [OF assms(3) k, of data "rc4_subtract ?i" True] by blast
  have dec: "?enc box c False = Inr data" if "length box = 255" for box
    using rt [OF that that] enc [OF that] by auto
  have n: "\<not> buf_length b > K_SIZE_COMPRESS"
    using assms(2) send_block_length(1) [OF assms(1)] by (simp add: word_less_nat_alt)
  obtain b1 where b1: "crypt_block ?i b (buf_length b) True w = Inr (b1, w\<lparr>w_alloc := w_alloc w + 1\<rparr>)"
      "same_block b b1" "buf_length b1 = buf_length b" "buf_get b1 (buf_offset b1) (unat (buf_length b)) = Inr c"
    using crypt_block_at [of b "buf_length b" data ?i True c w] enc c send_block_payload [OF assms(1)]
    by (auto simp: payload_def)
  have s1: "send_block b1 c"
    using assms(1) b1 by (simp add: send_block_def same_block_def payload_def)
  let ?h = "seal_head (get_a_head FRAME_KEY (ucast (buf_length b1)) 0 (cmd_code Commands_RoutingTransparent) False (cl_seq l)) c"
  have "one_packet (head_bytes ?h @ c) ?h c"
    by (rule sealed_one_packet) (simp add: send_block_len16 [OF s1])
  moreover obtain b' where "put_head b1 ?h = Inr b'" "buf_offset b' = 0" "payload b' = Inr (head_bytes ?h @ c)"
    using put_head_packet [OF s1] by blast
  moreover have "client_compress fuel z b w = Inr (Some (b, False), w)"
    unfolding client_compress_def using n by simp
  ultimately show ?thesis
    unfolding client_wrap_def Let_def
    by - (rule exI [of _ b'], rule exI [of _ "w\<lparr>w_alloc := w_alloc w + 1\<rparr>"], rule exI [of _ "head_bytes ?h @ c"],
      rule exI [of _ ?h], rule exI [of _ c], simp add: b1(1) send_block_payload [OF s1] get_cmd_head dec [simplified])
qed

section \<open>Unwrapping\<close>

lemma set_logic_at:
  "w_sessions w sid = Some s \<Longrightarrow> set_logic sid l w = Inr (put_session sid (s\<lparr>s_logic := Some l\<rparr>) w)"
  by (simp add: set_logic_def upd_session_def get_session_def)

lemma mask_ok_at:
  "buf_get buffer (buf_offset buffer) (unat (head_len head)) = Inr data \<Longrightarrow>
   mask_ok buffer head = Inr (get_mask (head_bytes head) data 0 = 0)"
  by (simp add: mask_ok_def)

text \<open>Copying a block to the front of another.\<close>

lemma put_payload:
  assumes "unat (buf_offset b) + length data \<le> unat (buf_SIZE b)" "unat (n :: u64) = length data"
  shows "\<exists>b'. buf_put b (buf_offset b) data = Inr b' \<and> same_block b (b'\<lparr>buf_length := n\<rparr>)
    \<and> payload (b'\<lparr>buf_length := n\<rparr>) = Inr data"
proof -
  obtain b' where put: "buf_put b (buf_offset b) data = Inr b'" using assms(1) by (simp add: buf_put_def)
  have "payload (b'\<lparr>buf_length := n\<rparr>) = Inr data"
    using buf_put_get [OF put] buf_put_frame [OF put] assms by (simp add: payload_def buf_get_def split: if_splits)
  then show ?thesis using put buf_put_same_block [OF put] by auto
qed

lemma server_unwrap_verdict:
  assumes "w_sessions w sid = Some s"
    and "buf_get buffer (buf_offset buffer) (unat (head_len head)) = Inr data"
    and "unat (buf_offset ret) + length data \<le> unat (buf_SIZE ret)"
  shows "\<exists>ok ret'. server_unwrap sid l buffer head ret w
      = Inr ((ok, buffer, ret'), put_session sid (s\<lparr>s_logic := Some (Server (l\<lparr>sl_seq := sl_seq l + 1\<rparr>))\<rparr>) w)
    \<and> (ok \<longleftrightarrow> head_seq head = sl_seq l + 1 \<and> get_mask (head_bytes head) data 0 = 0 \<and> data \<noteq> [])
    \<and> (if ok then same_block ret ret' \<and> payload ret' = Inr data else ret' = ret)"
proof -
  have len: "length data = unat (head_len head)" using buf_get_length [OF assms(2)] .
  then have z: "head_len head = 0 \<longleftrightarrow> data = []" by (simp add: unat_eq_zero flip: length_0_conv)
  have "unat (ucast (head_len head) :: u64) = length data" using len by simp
  from put_payload [OF assms(3) this] obtain b'
    where b': "buf_put ret (buf_offset ret) data = Inr b'" "same_block ret (b'\<lparr>buf_length := ucast (head_len head)\<rparr>)"
      "payload (b'\<lparr>buf_length := ucast (head_len head)\<rparr>) = Inr data" by blast
  show ?thesis
    unfolding server_unwrap_def Let_def set_logic_at [OF assms(1)] rbind_Inr mask_ok_at [OF assms(2)] z
    using assms(2) b' by simp
qed

lemma client_unwrap_plain:
  assumes "w_sessions w sid = Some s"
    and "buf_get buffer (buf_offset buffer) (unat (head_len head)) = Inr data"
    and "valid_mod (rc4_modvt (cl_rc4_info l))" "RC4_KEY_LEN \<le> length (rc4_key (cl_rc4_info l))"
    and "\<not> get_compressed head"
  shows "\<exists>ok buffer' w'. client_unwrap fuel z sid l buffer head ret w = Inr ((ok, buffer', ret), w')
    \<and> (ok \<longleftrightarrow> head_seq head = cl_seq l + 1 \<and> get_mask (head_bytes head) data 0 = 0)
    \<and> (ok \<longrightarrow> (\<exists>c. buf_get buffer' (buf_offset buffer') (unat (head_len head)) = Inr c \<and>
         (\<forall>box. length box = 255 \<longrightarrow> rc4_crypt box (rc4_modvt (cl_rc4_info l)) (rc4_key (cl_rc4_info l))
            (int RC4_KEY_LEN) data (rc4_subtract (cl_rc4_info l)) False = Inr c)))"
proof -
  let ?l = "l\<lparr>cl_seq := cl_seq l + 1\<rparr>" and ?i = "cl_rc4_info l"
  let ?w = "put_session sid (s\<lparr>s_logic := Some (Client ?l)\<rparr>) w"
  have k: "0 < int RC4_KEY_LEN" "int RC4_KEY_LEN \<le> int (length (rc4_key ?i))" using assms(4) by simp_all
  obtain c where c: "length c = length data"
    and dec: "\<And>box. length box = 255 \<Longrightarrow>
      rc4_crypt box (rc4_modvt ?i) (rc4_key ?i) (int RC4_KEY_LEN) data (rc4_subtract ?i) False = Inr c"
    using rc4_crypt_total [OF assms(3) k, of data "rc4_subtract ?i" False] by blast
  have "buf_get buffer (buf_offset buffer) (unat (ucast (head_len head) :: u64)) = Inr data"
    using assms(2) by simp
  from crypt_block_at [OF this dec c, of ?w] obtain b' w'
    where b': "crypt_block ?i buffer (ucast (head_len head)) False ?w = Inr (b', w')"
      "buf_get b' (buf_offset b') (unat (head_len head)) = Inr c" by auto
  have zero: "data = []" "c = []" if "head_len head = 0"
    using buf_get_length [OF assms(2)] c that by simp_all
  show ?thesis
    unfolding client_unwrap_def Let_def set_logic_at [OF assms(1)] rbind_Inr mask_ok_at [OF assms(2)]
    using assms(2,5) b' dec zero by (cases "head_len head = 0") simp_all
qed

lemma default_unwrap_refuses:
  assumes "w_sessions w sid = Some s"
    and "buf_get buffer (buf_offset buffer) (unat (head_len head)) = Inr data"
    and "head_seq head \<noteq> dl_seq l + 1 \<or> get_mask (head_bytes head) data 0 \<noteq> 0 \<or> dl_authentication l \<noteq> BEFORE_VERIFY"
  shows "default_unwrap fuel z sid l buffer head ret w = Inr ((False, buffer, ret),
    put_session sid (s\<lparr>s_logic := Some (Default (l\<lparr>dl_seq := dl_seq l + 1\<rparr>))\<rparr>) w)"
  unfolding default_unwrap_def Let_def set_logic_at [OF assms(1)] rbind_Inr mask_ok_at [OF assms(2)]
  using assms(3) by auto

section \<open>Authenticating a server\<close>

lemma move_server:
  assumes "hm_try_get (pm_un_managed_sessions (w_env w)) uid = Some sid"
    and "w_sessions w sid = Some s" "s_logic s = Some (Default d)"
    and "\<not> hm_contains_key (pm_server_sessions (w_env w)) uid"
  shows "\<exists>w'. move_server_available uid w = Inr w'
    \<and> hm_try_get (pm_server_sessions (w_env w')) uid = Some sid
    \<and> pm_un_managed_sessions (w_env w') = pm_un_managed_sessions (w_env w)
    \<and> w_sessions w' = (w_sessions w)(sid \<mapsto> s\<lparr>s_logic := Some (Server
        \<lparr>sl_seq = dl_seq d, sl_server_info = dl_server_info d, sl_session_holder = Some sid\<rparr>)\<rparr>)"
  using assms
  by (simp add: move_server_available_def take_unmanaged_def get_logic_def get_session_def upd_env_def
      modify_session_logic_def upd_session_def put_session_def trans_to_server_def hm_erase_noop
      hm_insert_def hm_insert_locked_def um_insert_def hm_contains_key_def)

section \<open>Properties\<close>

text \<open>Data for the witnesses: a block to send, a block received and a session.\<close>

definition sample_block :: reusable_buffer where
  "sample_block = \<lparr>buf_SIZE = ONCE_BUFFER_SIZE, buf_offset = of_nat PROTO_HEAD_SIZE, buf_length = 2,
     buf_bytes = (\<lambda>i. if i = 11 then 7 else 8)\<rparr>"

definition sample_rc4 :: rc4_info where
  "sample_rc4 = \<lparr>rc4_modvt = 5, rc4_key = [1, 2, 3, 4, 5, 6, 7, 8, 9, 10], rc4_subtract = 3\<rparr>"

definition sample_z :: zlib where
  "sample_z = \<lparr>z_deflate_init = False, z_deflate = (\<lambda>_ _ _. []), z_inflate_init = False,
     z_inflate = (\<lambda>_ _ _. ([], True))\<rparr>"

definition sample_info :: server_info where
  "sample_info = \<lparr>si_server_id = 3, si_area_id = 4, si_platform = [97, 0], si_link_type = 9\<rparr>"

definition sample_peer :: "proxy_logic \<Rightarrow> proxy_logic session" where
  "sample_peer l = \<lparr>s_state = CONNECTING, s_open = True, s_remote_ip = Some 1, s_recv = None, s_reads = [],
     s_writes = [], s_closes = [], s_timer = False, s_timer_cancelled = 0, s_tick_timer = False,
     s_tick_cancelled = 0, s_tick_interval = 100, s_frame_count = 0, s_keep_alive_timeout = 30000,
     s_last_recv_time = 0, s_last_send_time = 0, s_logic = Some l, s_uuid = 42, s_strand = 0\<rparr>"

definition sample_env :: proxy_env where
  "sample_env = \<lparr>pm_config = \<lparr>cfg_listened_port = 1, cfg_session_thread_num = 1, cfg_tick_interval = 100,
       cfg_keep_alive_timeout = 30000, cfg_max_send_delay = 0\<rparr>,
     pm_acceptor_executor = executor_new 1, pm_session_excutor = executor_new 1,
     pm_server_sessions = [], pm_client_sessions = [], pm_un_managed_sessions = [(42, 0)], pm_rand = 1,
     pm_agent_sc = 1, pm_next_session = 1, pm_accepting = None, pm_clean_up_timer = True\<rparr>"

definition sample_peers :: "proxy_logic \<Rightarrow> proxy_world" where
  "sample_peers l = \<lparr>w_sessions = [0 \<mapsto> sample_peer l], w_now = 0, w_alloc = 0, w_junk = (\<lambda>_ _. 0), w_env = sample_env\<rparr>"

lemma sample_send_block: "send_block sample_block [7, 8]"
  by (simp add: send_block_def sample_block_def payload_def buf_get_def mem_read_def upt_rec)

text \<open>C19: what a server's or an unverified session's logic sends is one whole packet: the peer cuts out
  exactly the block that was sent, the checksum is right, and the header carries the logic's
  sequence number and command.\<close>

theorem sent_packets_accepted:
  assumes "send_block b data"
  shows "(\<exists>b' bs h. server_wrap l b = Inr b' \<and> payload b' = Inr bs \<and> one_packet bs h data
      \<and> head_seq h = sl_seq l \<and> get_cmd h = cmd_code Commands_RoutingTransparent \<and> \<not> get_compressed h)
    \<and> (\<exists>b' bs h. default_wrap d b = Inr b' \<and> payload b' = Inr bs \<and> one_packet bs h data
      \<and> head_seq h = dl_seq d \<and> get_cmd h = cmd_code Commands_AuthenticationAAA \<and> \<not> get_compressed h)"
  using server_wrap_packet [OF assms] default_wrap_packet [OF assms] by blast

lemma sent_packets_accepted_witness:
  "\<exists>b' bs h. server_wrap \<lparr>sl_seq = 6, sl_server_info = sample_info, sl_session_holder = None\<rparr> sample_block = Inr b'
     \<and> payload b' = Inr bs \<and> one_packet bs h [7, 8] \<and> head_seq h = 6"
proof -
  let ?l = "\<lparr>sl_seq = 6, sl_server_info = sample_info, sl_session_holder = None\<rparr>"
  have "sl_seq ?l = 6" by simp
  with sent_packets_accepted [OF sample_send_block, of ?l undefined] show ?thesis by metis
qed

text \<open>What a client's logic sends without compression is one whole packet with the right checksum, and
  whoever has the key and modulus of the session decrypts it to the block that was sent.\<close>

theorem client_packets_decrypt:
  assumes "send_block b data" "length data \<le> 64"
    and "valid_mod (rc4_modvt (cl_rc4_info l))" "RC4_KEY_LEN \<le> length (rc4_key (cl_rc4_info l))"
  shows "\<exists>b' w' bs h c. client_wrap fuel z l b w = Inr (b', w') \<and> payload b' = Inr bs \<and> one_packet bs h c
    \<and> head_seq h = cl_seq l \<and> get_cmd h = cmd_code Commands_RoutingTransparent \<and> \<not> get_compressed h
    \<and> (\<forall>box. length box = 255 \<longrightarrow>
         rc4_crypt box (rc4_modvt (cl_rc4_info l)) (rc4_key (cl_rc4_info l)) (int RC4_KEY_LEN) c
           (rc4_subtract (cl_rc4_info l)) False = Inr data)"
  by (rule client_wrap_packet [OF assms])

lemma client_packets_decrypt_witness:
  "\<exists>b' w' bs h c. client_wrap 5 sample_z \<lparr>cl_rc4_info = sample_rc4, cl_seq = 6, cl_server_info = sample_info,
       cl_target_uid = 1, cl_session_holder = None\<rparr> sample_block
       (sample_peers (Client \<lparr>cl_rc4_info = sample_rc4, cl_seq = 6, cl_server_info = sample_info, cl_target_uid = 1,
          cl_session_holder = None\<rparr>)) = Inr (b', w')
     \<and> payload b' = Inr bs \<and> one_packet bs h c
     \<and> rc4_crypt (replicate 255 0) 5 [1, 2, 3, 4, 5, 6, 7, 8, 9, 10] 10 c 3 False = Inr [7, 8]"
proof -
  let ?l = "\<lparr>cl_rc4_info = sample_rc4, cl_seq = 6, cl_server_info = sample_info, cl_target_uid = 1,
     cl_session_holder = None\<rparr>"
  have "valid_mod (rc4_modvt (cl_rc4_info ?l))" "RC4_KEY_LEN \<le> length (rc4_key (cl_rc4_info ?l))"
    by (simp_all add: sample_rc4_def valid_mod_def)
  from client_packets_decrypt [OF sample_send_block _ this, of 5 sample_z "sample_peers (Client ?l)"] show ?thesis
    by (fastforce simp: sample_rc4_def)
qed

text \<open>C20: a server's packet is handed on exactly when it carries the next sequence number, its checksum is
  right and it is not empty; then all of its bytes and nothing else are in the block handed on. In
  any case the sequence number advances and nothing else in the program changes.\<close>

theorem server_packet_verdict:
  assumes "w_sessions w sid = Some s"
    and "buf_get buffer (buf_offset buffer) (unat (head_len head)) = Inr data"
    and "unat (buf_offset ret) + length data \<le> unat (buf_SIZE ret)"
  shows "\<exists>ok ret'. server_unwrap sid l buffer head ret w
      = Inr ((ok, buffer, ret'), put_session sid (s\<lparr>s_logic := Some (Server (l\<lparr>sl_seq := sl_seq l + 1\<rparr>))\<rparr>) w)
    \<and> (ok \<longleftrightarrow> head_seq head = sl_seq l + 1 \<and> get_mask (head_bytes head) data 0 = 0 \<and> data \<noteq> [])
    \<and> (if ok then same_block ret ret' \<and> payload ret' = Inr data else ret' = ret)"
  by (rule server_unwrap_verdict [OF assms])

lemma server_packet_verdict_witness:
  "\<exists>ok ret'. server_unwrap 0 \<lparr>sl_seq = 6, sl_server_info = sample_info, sl_session_holder = None\<rparr> sample_block
      (seal_head (get_a_head FRAME_KEY 2 0 32400 False 7) [7, 8]) sample_block
      (sample_peers (Server \<lparr>sl_seq = 6, sl_server_info = sample_info, sl_session_holder = None\<rparr>))
      = Inr ((ok, sample_block, ret'), put_session 0 (sample_peer (Server \<lparr>sl_seq = 7, sl_server_info = sample_info,
          sl_session_holder = None\<rparr>)) (sample_peers (Server \<lparr>sl_seq = 6, sl_server_info = sample_info, sl_session_holder = None\<rparr>)))
      \<and> payload ret' = Inr [7, 8]"
proof -
  let ?l = "\<lparr>sl_seq = 6, sl_server_info = sample_info, sl_session_holder = None\<rparr>"
  let ?h = "seal_head (get_a_head FRAME_KEY 2 0 32400 False 7) [7, 8 :: byte]"
  have "w_sessions (sample_peers (Server ?l)) 0 = Some (sample_peer (Server ?l))" by (simp add: sample_peers_def)
  moreover have "buf_get sample_block (buf_offset sample_block) (unat (head_len ?h)) = Inr [7, 8]"
    using sample_send_block by (simp add: send_block_def payload_def sample_block_def)
  moreover have "unat (buf_offset sample_block) + length [7, 8 :: byte] \<le> unat (buf_SIZE sample_block)"
    by (simp add: sample_block_def)
  moreover have "get_mask (head_bytes ?h) [7, 8] 0 = 0" by (rule seal_head_accepted) simp_all
  ultimately show ?thesis
    using server_packet_verdict [of "sample_peers (Server ?l)" 0 "sample_peer (Server ?l)" sample_block ?h "[7, 8]" sample_block ?l]
    by (auto simp: sample_peer_def)
qed

text \<open>A client's uncompressed packet is checked and decrypted in place, but never copied to the block
  that is handed on: that block is exactly the empty one the caller brought.\<close>

theorem client_packet_not_copied:
  assumes "w_sessions w sid = Some s"
    and "buf_get buffer (buf_offset buffer) (unat (head_len head)) = Inr data"
    and "valid_mod (rc4_modvt (cl_rc4_info l))" "RC4_KEY_LEN \<le> length (rc4_key (cl_rc4_info l))"
    and "\<not> get_compressed head"
  shows "\<exists>ok buffer' w'. client_unwrap fuel z sid l buffer head ret w = Inr ((ok, buffer', ret), w')
    \<and> (ok \<longleftrightarrow> head_seq head = cl_seq l + 1 \<and> get_mask (head_bytes head) data 0 = 0)
    \<and> (ok \<longrightarrow> (\<exists>c. buf_get buffer' (buf_offset buffer') (unat (head_len head)) = Inr c \<and>
         (\<forall>box. length box = 255 \<longrightarrow> rc4_crypt box (rc4_modvt (cl_rc4_info l)) (rc4_key (cl_rc4_info l))
            (int RC4_KEY_LEN) data (rc4_subtract (cl_rc4_info l)) False = Inr c)))"
  by (rule client_unwrap_plain [OF assms])

lemma client_packet_not_copied_witness:
  "\<exists>ok buffer' w'. client_unwrap 5 sample_z 0 \<lparr>cl_rc4_info = sample_rc4, cl_seq = 6, cl_server_info = sample_info,
       cl_target_uid = 1, cl_session_holder = None\<rparr> sample_block
       (get_a_head FRAME_KEY 2 0 32400 False 7) sample_block
       (sample_peers (Server \<lparr>sl_seq = 6, sl_server_info = sample_info, sl_session_holder = None\<rparr>))
     = Inr ((ok, buffer', sample_block), w')"
proof -
  let ?l = "\<lparr>cl_rc4_info = sample_rc4, cl_seq = 6, cl_server_info = sample_info, cl_target_uid = 1,
     cl_session_holder = None\<rparr>"
  let ?s = "Server \<lparr>sl_seq = 6, sl_server_info = sample_info, sl_session_holder = None\<rparr>"
  let ?h = "get_a_head FRAME_KEY 2 0 32400 False 7"
  have "w_sessions (sample_peers ?s) 0 = Some (sample_peer ?s)" by (simp add: sample_peers_def)
  moreover have "buf_get sample_block (buf_offset sample_block) (unat (head_len ?h)) = Inr [7, 8]"
    using sample_send_block by (simp add: send_block_def payload_def sample_block_def)
  moreover have "valid_mod (rc4_modvt (cl_rc4_info ?l))" "RC4_KEY_LEN \<le> length (rc4_key (cl_rc4_info ?l))"
    by (simp_all add: sample_rc4_def valid_mod_def)
  moreover have "\<not> get_compressed ?h" by simp
  ultimately show ?thesis using client_packet_not_copied by blast
qed

text \<open>C21: a session that is not verified refuses a packet with a wrong sequence number or checksum, and
  every packet after its one attempt at authentication: it hands nothing on, sends nothing and
  counts the packet.\<close>

theorem unverified_packet_refused:
  assumes "w_sessions w sid = Some s"
    and "buf_get buffer (buf_offset buffer) (unat (head_len head)) = Inr data"
    and "head_seq head \<noteq> dl_seq l + 1 \<or> get_mask (head_bytes head) data 0 \<noteq> 0 \<or> dl_authentication l \<noteq> BEFORE_VERIFY"
  shows "default_unwrap fuel z sid l buffer head ret w = Inr ((False, buffer, ret),
    put_session sid (s\<lparr>s_logic := Some (Default (l\<lparr>dl_seq := dl_seq l + 1\<rparr>))\<rparr>) w)"
  by (rule default_unwrap_refuses [OF assms])

definition sample_default :: default_logic where
  "sample_default = \<lparr>dl_authentication = BEFORE_VERIFY, dl_session_holder = Some 0, dl_target_uid = 0,
     dl_rc4_info = sample_rc4, dl_server_info = sample_info, dl_seq = 6\<rparr>"

lemma unverified_packet_refused_witness:
  "default_unwrap 5 sample_z 0 sample_default sample_block (get_a_head FRAME_KEY 2 0 32398 False 9) sample_block (sample_peers (Default sample_default))
   = Inr ((False, sample_block, sample_block), put_session 0 (sample_peer (Default sample_default)
        \<lparr>s_logic := Some (Default (sample_default\<lparr>dl_seq := 7\<rparr>))\<rparr>) (sample_peers (Default sample_default)))"
proof -
  let ?h = "get_a_head FRAME_KEY 2 0 32398 False 9"
  have "w_sessions (sample_peers (Default sample_default)) 0 = Some (sample_peer (Default sample_default))"
    by (simp add: sample_peers_def)
  moreover have "buf_get sample_block (buf_offset sample_block) (unat (head_len ?h)) = Inr [7, 8]"
    using sample_send_block by (simp add: send_block_def payload_def sample_block_def)
  moreover have "head_seq ?h \<noteq> dl_seq sample_default + 1" "dl_seq sample_default + 1 = 7"
    by (simp_all add: sample_default_def)
  ultimately show ?thesis using unverified_packet_refused [of "sample_peers (Default sample_default)" 0] by metis
qed

text \<open>A server that asks for a link and is not known yet is always accepted: its session becomes a
  server session under its uid, with the sequence number and the server data of its request. It also
  stays among the unmanaged sessions, from which nothing is ever removed.\<close>

theorem server_authenticated:
  assumes "hm_try_get (pm_un_managed_sessions (w_env w)) uid = Some sid"
    and "w_sessions w sid = Some s" "s_logic s = Some (Default d)"
    and "\<not> hm_contains_key (pm_server_sessions (w_env w)) uid"
    and "session_type > session_code MULTI_SESSION_BEGIN"
  shows "\<exists>w'. verify_authentication_mgr self session_type server target uid ip w = Inr ((True, target), w')
    \<and> hm_try_get (pm_server_sessions (w_env w')) uid = Some sid
    \<and> pm_un_managed_sessions (w_env w') = pm_un_managed_sessions (w_env w)
    \<and> w_sessions w' = (w_sessions w)(sid \<mapsto> s\<lparr>s_logic := Some (Server
        \<lparr>sl_seq = dl_seq d, sl_server_info = dl_server_info d, sl_session_holder = Some sid\<rparr>)\<rparr>)"
proof -
  have "session_type \<noteq> session_code CLIENT_PROXY" using assms(5) by auto
  with move_server [OF assms(1-4)] assms(4,5) show ?thesis
    by (auto simp: verify_authentication_mgr_def)
qed

lemma server_authenticated_witness:
  "\<exists>w'. verify_authentication_mgr 0 9 1 2 42 3 (sample_peers (Default sample_default)) = Inr ((True, 2), w')
     \<and> hm_try_get (pm_server_sessions (w_env w')) 42 = Some 0"
proof -
  let ?w = "sample_peers (Default sample_default)"
  have "hm_try_get (pm_un_managed_sessions (w_env ?w)) 42 = Some 0"
    "w_sessions ?w 0 = Some (sample_peer (Default sample_default))"
    "s_logic (sample_peer (Default sample_default)) = Some (Default sample_default)"
    "\<not> hm_contains_key (pm_server_sessions (w_env ?w)) 42"
    by (simp_all add: sample_peers_def sample_env_def sample_peer_def hm_contains_key_def)
  moreover have "(9 :: byte) > session_code MULTI_SESSION_BEGIN" by simp
  ultimately show ?thesis using server_authenticated [of ?w 42 0 _ _ 9 0 1 2 3] by blast
qed

end
