(* ===== verification/Proxy_Fit.thy ===== *)
theory Proxy_Fit
  imports Proxy_Properties Proxy_Traffic
begin

text \<open>
  What the handlers rely on beside the maps and the buffers: the configuration and the number of
  strands never change, a session that ticks ticks at the configured interval, an open socket
  has a peer, and every unverified session has a whole cipher key. \<open>fitted\<close> is that invariant; it
  holds in every state the proxy can reach.
\<close>

section \<open>The invariant\<close>

fun keyed :: "proxy_logic option \<Rightarrow> bool" where
  "keyed (Some (Default d)) \<longleftrightarrow> RC4_KEY_LEN \<le> length (rc4_key (dl_rc4_info d))"
| "keyed _ \<longleftrightarrow> True"

definition fit :: "int \<Rightarrow> proxy_logic session \<Rightarrow> bool" where
  "fit i s \<longleftrightarrow> (s_tick_timer s \<or> 0 < s_tick_cancelled s \<longrightarrow> s_tick_interval s = i)
     \<and> (s_open s \<longrightarrow> s_remote_ip s \<noteq> None) \<and> keyed (s_logic s)"

definition fitted :: "proxy_config \<Rightarrow> proxy_world \<Rightarrow> bool" where
  "fitted c w \<longleftrightarrow> pm_config (w_env w) = c
     \<and> je_strand_num (pm_session_excutor (w_env w)) = ucast (cfg_session_thread_num c)
     \<and> (\<forall>sid s. w_sessions w sid = Some s \<longrightarrow> fit (uint (cfg_tick_interval c)) s)"

lemma fitted_session: "fitted c w \<Longrightarrow> w_sessions w sid = Some s \<Longrightarrow> fit (uint (cfg_tick_interval c)) s"
  by (simp add: fitted_def)

lemma fit_calm: "fit i s \<Longrightarrow> calm_session s s' \<Longrightarrow> s_logic s' = s_logic s \<Longrightarrow> fit i s'"
  by (simp add: fit_def calm_session_def)

lemma fit_set_logic: "fit i s \<Longrightarrow> keyed l \<Longrightarrow> fit i (s\<lparr>s_logic := l\<rparr>)"
  by (simp add: fit_def)

lemma fitted_still:
  assumes "fitted c w" "calm w w'" "still w w'"
  shows "fitted c w'"
proof -
  have "fit (uint (cfg_tick_interval c)) s'" if s': "w_sessions w' sid = Some s'" for sid s'
  proof -
    obtain s where s: "w_sessions w sid = Some s"
      using calm_session_none [OF assms(2), of sid] s' by fastforce
    moreover have "calm_session s s'" using calm_session_at [OF assms(2) s] s' by simp
    moreover have "map_option s_logic (w_sessions w' sid) = map_option s_logic (w_sessions w sid)"
      using assms(3) by (simp add: still_def)
    then have "s_logic s' = s_logic s" using s s' by simp
    ultimately show ?thesis using fitted_session [OF assms(1)] fit_calm by blast
  qed
  then show ?thesis using assms(1,3) by (simp add: fitted_def still_def)
qed

lemma fitted_quiet:
  assumes "fitted c w" "yields m (calm w)" "yields m (still w)"
  shows "yields m (fitted c)"
  by (rule yields_mono [OF yields_conj [OF assms(2,3)]]) (use fitted_still [OF assms(1)] in blast)

lemma fitted_put: "fitted c w \<Longrightarrow> fit (uint (cfg_tick_interval c)) s \<Longrightarrow> fitted c (put_session sid s w)"
  by (simp add: fitted_def)

lemma fitted_upd:
  "fitted c w \<Longrightarrow> (\<And>s i. fit i s \<Longrightarrow> fit i (f s)) \<Longrightarrow> yields (upd_session sid f w) (fitted c)"
  by (rule yields_upd_session) (blast intro: fitted_put fitted_session)

lemma fitted_env:
  "fitted c w \<Longrightarrow> pm_config (f (w_env w)) = pm_config (w_env w) \<Longrightarrow>
   je_strand_num (pm_session_excutor (f (w_env w))) = je_strand_num (pm_session_excutor (w_env w)) \<Longrightarrow>
   fitted c (upd_env f w)"
  by (simp add: fitted_def upd_env_def)

lemma fitted_pool_buffer: "fitted c w \<Longrightarrow> pool_buffer n w = (b, w') \<Longrightarrow> fitted c w'"
  by (drule pool_buffer_world) (simp add: fitted_def)

lemma fitted_set_logic: "fitted c w \<Longrightarrow> keyed (Some l) \<Longrightarrow> yields (set_logic sid l w) (fitted c)"
  unfolding set_logic_def by (erule fitted_upd) (rule fit_set_logic)

lemma fitted_modify_logic:
  "fitted c w \<Longrightarrow> keyed (Some (apply_session sid l)) \<Longrightarrow> yields (modify_session_logic apply_session sid l w) (fitted c)"
  unfolding modify_session_logic_def by (erule fitted_upd) (rule fit_set_logic)

section \<open>The logics keep it\<close>

lemma fitted_store_default: "fitted c w \<Longrightarrow> keyed (Some (Default d)) \<Longrightarrow> yields (store_default sid d w) (fitted c)"
  unfolding store_default_def
  by (rule yields_bind [OF yields_True]) (auto intro: fitted_set_logic split: proxy_logic.splits)

lemma fitted_take_unmanaged: "fitted c w \<Longrightarrow> yields (take_unmanaged uid w) (\<lambda>(r, w'). fitted c w')"
  unfolding take_unmanaged_def Let_def
  by (auto split: option.splits proxy_logic.splits intro!: yields_bind [OF yields_True] fitted_env)

lemma fitted_move:
  assumes "fitted c w"
  shows "yields (move_server_available uid w) (fitted c)" "yields (move_client_available uid w) (fitted c)"
proof -
  have m: "yields (rbind (modify_session_logic apply_session sid l v) (\<lambda>w. Inr (upd_env f w))) (fitted c)"
    if "fitted c v" "keyed (Some (apply_session sid l))"
      "\<And>e. pm_config (f e) = pm_config e \<and> pm_session_excutor (f e) = pm_session_excutor e" for sid l v f
    by (rule yields_bind [OF fitted_modify_logic [OF that(1,2)]]) (simp add: fitted_env that(3))
  show "yields (move_server_available uid w) (fitted c)" "yields (move_client_available uid w) (fitted c)"
    unfolding move_server_available_def move_client_available_def
    by (rule yields_bind_pair [OF fitted_take_unmanaged [OF assms]]; auto split: option.splits intro!: m)+
qed

lemma fitted_verify_mgr:
  "fitted c w \<Longrightarrow> yields (verify_authentication_mgr self t s u cl ip w) (\<lambda>(r, w'). fitted c w')"
  unfolding verify_authentication_mgr_def hm_complex_operation_def Let_def prod.case
  by (auto intro!: yields_if yields_bind [OF fitted_move(1)])

lemma fitted_echo: "fitted c w \<Longrightarrow> yields (echo_authentication_res fuel z d ec w) (fitted c)"
  by (erule fitted_quiet) (rule calm_echo [OF calm_refl] still_echo [OF still_refl])+

lemma fitted_verify:
  assumes w: "fitted c w" and d: "keyed (Some (Default d))"
  shows "yields (verify_authentication fuel z sid d b cmd w) (fitted c)"
proof -
  have out: "yields (if verified
      then rbind (store_default sid d1 w) (\<lambda>w. echo_authentication_res fuel z d1 EC_Success w)
      else rbind (store_default sid d2 w) (\<lambda>w. echo_authentication_res fuel z d2 EC_ServerNotFound w)) (fitted c)"
    if "fitted c w" "keyed (Some (Default d1))" "keyed (Some (Default d2))" for verified d1 d2 w
    using that by (auto intro!: yields_bind [OF fitted_store_default] fitted_echo)
  have ask: "yields (if cmd \<noteq> c' then Inr ((False, t), w)
      else rbind (get_session h w) (\<lambda>hs. rbind (get_remote_ip h w) (\<lambda>ip.
        verify_authentication_mgr sid lt u t (s_uuid hs) ip w))) (\<lambda>(r, w'). fitted c w')"
    if "fitted c w" for c' t h lt u w
    using that by (auto intro!: yields_bind [OF yields_True] fitted_verify_mgr)
  have st: "yields (store_default sid (d\<lparr>dl_server_info := i\<rparr>) w) (fitted c)" for i
    by (rule fitted_store_default [OF w]) (use d in simp)
  show ?thesis
    unfolding verify_authentication_def Let_def
    by (rule yields_bind [OF yields_True], rule yields_bind [OF st], rule yields_option,
        simp, rule yields_bind_pair2, erule ask, rule out) (use d in simp_all)
qed

lemma fitted_crypt_block: "fitted c w \<Longrightarrow> yields (crypt_block info b n E w) (\<lambda>(b', w'). fitted c w')"
  by (rule yields_mono [OF yields_conj [OF calm_crypt_block [OF calm_refl] still_crypt_block [OF still_refl]]])
    (auto intro: fitted_still)

lemma fitted_unwrap:
  assumes w: "fitted c w" and l: "get_logic sid w = Inr l"
  shows "yields (proxy_unwrap fuel z sid l b h r w) (\<lambda>(x, w'). fitted c w')"
proof (cases l)
  case (Default d)
  have k: "keyed (Some (Default d))"
    using l w Default by (fastforce simp: get_logic_Inr fit_def dest: fitted_session)
  let ?d = "d\<lparr>dl_seq := dl_seq d + 1\<rparr>"
  have s: "yields (set_logic sid (Default ?d) w) (fitted c)"
    by (rule fitted_set_logic [OF w]) (use k in simp)
  have v: "yields (if a then verify_authentication fuel z sid ?d b cmd v else Inr v) (fitted c)"
    if "fitted c v" for v a cmd
    using that k by (simp add: fitted_verify)
  show ?thesis unfolding Default proxy_unwrap.simps default_unwrap_def Let_def
    by (rule yields_bind [OF s], rule yields_if, simp, rule yields_bind [OF yields_True],
        rule yields_if, simp, rule yields_bind, erule v, simp)
next
  case (Server sl)
  show ?thesis unfolding Server proxy_unwrap.simps server_unwrap_def Let_def
    by (rule yields_bind [OF fitted_set_logic [OF w]]) (auto intro!: yields_if yields_bind [OF yields_True])
next
  case (Client cl)
  show ?thesis unfolding Client proxy_unwrap.simps client_unwrap_def Let_def
    by (rule yields_bind [OF fitted_set_logic [OF w]], simp, rule yields_if, simp, rule yields_bind [OF yields_True],
        rule yields_if, simp, rule yields_if, simp, rule yields_bind_pair, erule fitted_crypt_block)
      (auto intro!: yields_if yields_bind [OF yields_True] yields_option)
qed

lemma fitted_proxy_store: "fitted c w \<Longrightarrow> yields (proxy_store fuel z sid l d h w) (\<lambda>(x, w'). fitted c w')"
  by (rule yields_mono [OF yields_conj [OF plogic.store_calm [unfolded proxy_vt_def vtable.simps] still_proxy_store]])
    (auto intro: fitted_still)

section \<open>The session's operations keep it\<close>

lemma yields_logic: "yields (get_logic sid w) (\<lambda>l. get_logic sid w = Inr l)"
  by (simp add: yields_def)

lemma fitted_hand_over:
  assumes w: "fitted c w"
  shows "yields (hand_over (proxy_vt fuel z) sid h db w) (\<lambda>(x, w'). fitted c w')"
proof -
  obtain ub w1 where tb: "temp_buffer w = (ub, w1)" by fastforce
  have w1: "fitted c w1" using fitted_pool_buffer [OF w tb] .
  have stored: "yields (rbind (get_logic sid v) (\<lambda>l. rbind (proxy_store fuel z sid l r h v)
        (\<lambda>(stored, w). Inr ((Some stored, db'), w)))) (\<lambda>(x, w'). fitted c w')"
    if "fitted c v" for db' r v
    by (rule yields_bind [OF yields_True], rule yields_bind_pair [OF fitted_proxy_store [OF that]]) simp
  show ?thesis
    unfolding hand_over_def tb Let_def prod.case proxy_vt_def vtable.simps
    by (rule yields_bind [OF yields_logic], rule yields_bind_pair [OF fitted_unwrap [OF w1]], assumption)
      (auto intro: stored split: prod.splits)
qed

lemma fitted_pick:
  assumes w: "fitted c w"
  shows "yields (pick_a_entire_msg (proxy_vt fuel z) sid db w) (\<lambda>(x, w'). fitted c w')"
  unfolding pick_a_entire_msg_def Let_def
proof (rule yields_bind [OF yields_True], rule yields_option, simp add: w, rule yields_pair, rule yields_if, simp add: w,
    rule yields_bind [OF yields_True], rule yields_if, simp add: w, rule yields_bind [OF yields_True],
    rule yields_bind [OF yields_True], rule yields_bind_pair2, rule fitted_hand_over [OF w], rule yields_if)
  show "yields (rbind (upd_session sid arm_retry_timer w) (\<lambda>w. Inr ((False, db), w))) (\<lambda>(x, w'). fitted c w')"
    if "fitted c w" for w and db :: reusable_buffer
    by (rule yields_bind [OF fitted_upd [OF that]]) (simp_all add: arm_retry_timer_def fit_def)
  show "yields (rbind (get_session sid w) (\<lambda>s. case s_recv s of None \<Rightarrow> Inl NullDeref
      | Some recv \<Rightarrow> rbind (consume recv n) (\<lambda>recv. Inr ((True, db), put_session sid (s\<lparr>s_recv := recv\<rparr>) w))))
      (\<lambda>(x, w'). fitted c w')"
    if "fitted c w" for w n and db :: reusable_buffer
    by (rule yields_bind [OF yields_get_session], rule yields_option, simp, rule yields_bind [OF yields_True])
      (use fitted_session [OF that] in \<open>simp add: fitted_put [OF that] fit_def\<close>)
qed

lemma fitted_loop: "fitted c w \<Longrightarrow> yields (pick_loop n (proxy_vt fuel z) sid db w) (fitted c)"
proof (induction n arbitrary: db w)
  case (Suc n)
  show ?case unfolding pick_loop.simps
    by (rule yields_bind_pair2 [OF fitted_pick [OF Suc.prems]]) (simp add: Suc.IH)
qed simp

lemma fitted_recv_loop:
  assumes "fitted c w"
  shows "yields (async_recv_loop sid w) (fitted c)"
proof -
  obtain b w1 where tb: "temp_buffer w = (b, w1)" by fastforce
  have p: "fitted c (put_session sid (s\<lparr>s_recv := r, s_reads := rs\<rparr>) v)"
    if "fitted c v" "w_sessions w sid = Some s" for s r rs v
    using fitted_session [OF assms that(2)] by (intro fitted_put [OF that(1)]) (simp add: fit_def)
  show ?thesis unfolding async_recv_loop_def tb
    by (rule yields_bind [OF yields_get_session])
      (auto simp: Let_def assms split: option.splits intro!: p fitted_pool_buffer [OF assms tb])
qed

lemma fitted_pick_entire: "fitted c w \<Longrightarrow> yields (pick_entire_msgs (proxy_vt fuel z) sid w) (fitted c)"
  unfolding pick_entire_msgs_def Let_def
  by (rule yields_pair, rule yields_bind, rule fitted_loop, erule (1) fitted_pool_buffer, erule fitted_recv_loop)

lemma fitted_close: "fitted c w \<Longrightarrow> yields (close_session sid e w) (fitted c)"
  by (erule fitted_quiet) (rule calm_close_session [OF calm_refl] still_close [OF still_refl])+

lemma fitted_kick: "fitted c w \<Longrightarrow> yields (kick sid w) (fitted c)"
  unfolding kick_def by (rule fitted_close)

lemma fitted_update_time:
  "fitted c w \<Longrightarrow> yields (update_recv_time sid w) (fitted c)"
  "fitted c w \<Longrightarrow> yields (update_send_time sid w) (fitted c)"
  unfolding update_recv_time_def update_send_time_def by (erule fitted_upd, simp add: fit_def)+

lemma fitted_read_done:
  assumes w: "fitted c w"
  shows "yields (read_done (proxy_vt fuel z) sid ec bs w) (fitted c)"
  unfolding read_done_def Let_def
proof (rule yields_bind [OF yields_get_session])
  fix s assume s: "w_sessions w sid = Some s"
  have f: "fitted c (put_session sid (s\<lparr>s_reads := rs\<rparr>) w)" for rs
    using fitted_session [OF w s] by (intro fitted_put [OF w]) (simp add: fit_def)
  have rest: "yields (rbind (get_session sid v) (\<lambda>s. case s_recv s of None \<Rightarrow> Inl NullDeref
       | Some recv \<Rightarrow> rbind (deliver_read pr bs recv) (\<lambda>recv.
         pick_entire_msgs (proxy_vt fuel z) sid (put_session sid (s\<lparr>s_recv := Some recv\<rparr>) v)))) (fitted c)"
    if "fitted c v" for v pr
    by (rule yields_bind [OF yields_get_session], rule yields_option, simp, rule yields_bind [OF yields_True],
        rule fitted_pick_entire, rule fitted_put [OF that]) (use fitted_session [OF that] in \<open>simp add: fit_def\<close>)
  show "yields (case s_reads s of [] \<Rightarrow> Inr w
     | pr # rest \<Rightarrow>
       rbind (update_recv_time sid (put_session sid (s\<lparr>s_reads := rest\<rparr>) w)) (\<lambda>w.
       rbind (if ec then close_session sid False w else Inr w) (\<lambda>w.
       rbind (get_session sid w) (\<lambda>s.
       case s_recv s of None \<Rightarrow> Inl NullDeref
       | Some recv \<Rightarrow>
         rbind (deliver_read pr bs recv) (\<lambda>recv.
         pick_entire_msgs (proxy_vt fuel z) sid (put_session sid (s\<lparr>s_recv := Some recv\<rparr>) w)))))) (fitted c)"
  proof (cases "s_reads s")
    case (Cons pr rs)
    have cl: "yields (if ec then close_session sid False v else Inr v) (fitted c)" if "fitted c v" for v
      using fitted_close [OF that] that by simp
    show ?thesis unfolding Cons list.case
      by (rule yields_bind [OF fitted_update_time(1) [OF f]], rule yields_bind, erule cl, erule rest)
  qed (simp add: w)
qed

lemma fitted_write_done:
  assumes w: "fitted c w"
  shows "yields (write_done sid ec w) (fitted c)"
  unfolding write_done_def Let_def
proof (rule yields_bind [OF yields_get_session])
  fix s assume s: "w_sessions w sid = Some s"
  have f: "fitted c (put_session sid (s\<lparr>s_writes := ws\<rparr>) w)" for ws
    using fitted_session [OF w s] by (intro fitted_put [OF w]) (simp add: fit_def)
  show "yields (case s_writes s of [] \<Rightarrow> Inr w
     | pw # rest \<Rightarrow>
       if ec then close_session sid False (put_session sid (s\<lparr>s_writes := rest\<rparr>) w)
       else (case pw_callback pw of
               NoCallback \<Rightarrow> Inr (put_session sid (s\<lparr>s_writes := rest\<rparr>) w)
             | KickHolder None \<Rightarrow> Inr (put_session sid (s\<lparr>s_writes := rest\<rparr>) w)
             | KickHolder (Some h) \<Rightarrow>
                 (if w_sessions (put_session sid (s\<lparr>s_writes := rest\<rparr>) w) h = None
                  then Inr (put_session sid (s\<lparr>s_writes := rest\<rparr>) w)
                  else kick h (put_session sid (s\<lparr>s_writes := rest\<rparr>) w)))) (fitted c)"
    by (auto simp: w f fitted_close fitted_kick split: list.splits send_callback.splits option.splits)
qed

lemma fitted_close_task: "fitted c w \<Longrightarrow> yields (close_task sid w) (fitted c)"
  unfolding close_task_def
  by (erule fitted_upd) (auto simp: close_task_session_def clear_all_timer_def fit_def Let_def split: if_splits)

lemma fitted_send: "fitted c w \<Longrightarrow> yields (async_send (proxy_wrap fuel z) sid b cb w) (fitted c)"
  by (erule fitted_quiet) (rule calm_send [OF calm_refl] still_async_send [OF still_refl])+

lemma fitted_tick_alive: "fitted c w \<Longrightarrow> yields (tick_alive (proxy_wrap fuel z) sid w) (fitted c)"
  unfolding tick_alive_def Let_def
  by (intro yields_bind [OF yields_get_session] yields_if yields_pair)
    (auto intro: fitted_kick fitted_send fitted_pool_buffer)

text \<open>A tick arms the timer: the session it is called for must tick at the configured interval.\<close>

definition ticks_at :: "proxy_config \<Rightarrow> nat \<Rightarrow> proxy_world \<Rightarrow> bool" where
  "ticks_at c sid w \<longleftrightarrow> (\<exists>s. w_sessions w sid = Some s \<and> s_tick_interval s = uint (cfg_tick_interval c))"

lemma ticks_at_calm: "ticks_at c sid w \<Longrightarrow> calm w w' \<Longrightarrow> ticks_at c sid w'"
  by (auto simp: ticks_at_def calm_session_def dest!: calm_session_at [of w w' sid])

lemma calm_tick_alive: "yields (tick_alive (proxy_wrap fuel z) sid w) (calm w)"
  unfolding tick_alive_def Let_def
  by (intro yields_bind [OF yields_get_session] yields_if yields_pair)
    (auto intro: calm_kick calm_send calm_pool_buffer [OF calm_refl])

lemma fitted_fixed_tick:
  assumes w: "fitted c w" and t: "ticks_at c sid w"
  shows "yields (fixed_tick (proxy_wrap fuel z) sid w) (fitted c)"
  unfolding fixed_tick_def Let_def
proof (rule yields_bind [OF yields_get_session], rule yields_bind [OF yields_True], rule yields_pair,
    rule yields_bind [where Q = "\<lambda>w. fitted c w \<and> ticks_at c sid w"])
  fix s eff count assume s: "w_sessions w sid = Some s"
  have f: "fitted c (put_session sid (s\<lparr>s_frame_count := count\<rparr>) w)"
    using fitted_session [OF w s] by (intro fitted_put [OF w]) (simp add: fit_def)
  have t': "ticks_at c sid (put_session sid (s\<lparr>s_frame_count := count\<rparr>) w)"
    using t s by (simp add: ticks_at_def)
  show "yields (if eff then tick_alive (proxy_wrap fuel z) sid (put_session sid (s\<lparr>s_frame_count := count\<rparr>) w)
      else Inr (put_session sid (s\<lparr>s_frame_count := count\<rparr>) w)) (\<lambda>w. fitted c w \<and> ticks_at c sid w)"
    by (rule yields_if, rule yields_mono [OF yields_conj [OF fitted_tick_alive [OF f] calm_tick_alive]])
      (use f t' ticks_at_calm [OF t'] in auto)
next
  fix v assume v: "fitted c v \<and> ticks_at c sid v"
  show "yields (upd_session sid arm_tick_timer v) (fitted c)"
  proof (rule yields_upd_session)
    fix s assume "w_sessions v sid = Some s"
    with v have "fit (uint (cfg_tick_interval c)) s" "s_tick_interval s = uint (cfg_tick_interval c)"
      by (auto simp: ticks_at_def dest: fitted_session)
    then show "fitted c (put_session sid (arm_tick_timer s) v)"
      using v by (intro fitted_put) (simp_all add: fit_def arm_tick_timer_def)
  qed
qed

lemma fitted_tick_timer:
  assumes w: "fitted c w" and en: "enabled (TickTimer sid ec) w"
  shows "yields (tick_timer_done (proxy_wrap fuel z) sid ec w) (fitted c)"
proof -
  obtain s where s: "w_sessions w sid = Some s" "s_tick_timer s \<or> 0 < s_tick_cancelled s"
    using en by (auto split: option.splits if_splits)
  then have "s_tick_interval s = uint (cfg_tick_interval c)"
    using fitted_session [OF w s(1)] by (auto simp: fit_def)
  then have "yields (upd_session sid (\<lambda>s. if ec then s\<lparr>s_tick_cancelled := s_tick_cancelled s - 1\<rparr>
      else s\<lparr>s_tick_timer := False\<rparr>) w) (\<lambda>w. fitted c w \<and> ticks_at c sid w)"
    using s(1) fitted_session [OF w s(1)]
    by (intro yields_upd_session conjI fitted_put [OF w]) (auto simp: ticks_at_def fit_def)
  then show ?thesis unfolding tick_timer_done_def
    by (rule yields_bind) (blast intro: fitted_fixed_tick)
qed

lemma fitted_start_tick:
  assumes w: "fitted c w"
  shows "yields (start_tick (proxy_wrap fuel z) sid (uint (cfg_tick_interval c)) t w) (fitted c)"
proof -
  let ?Q = "\<lambda>w. fitted c w \<and> ticks_at c sid w"
  have u: "yields (upd_session sid f v) ?Q" if "?Q v" "\<And>s i. fit i s \<Longrightarrow> fit i (f s)"
    "\<And>s. s_tick_interval (f s) = s_tick_interval s" for f v
    using that fitted_session [of c v sid]
    by (intro yields_upd_session conjI fitted_put) (auto simp: ticks_at_def)
  show ?thesis
    unfolding start_tick_def update_send_time_def update_recv_time_def
  proof (rule yields_bind [where Q = ?Q], rule yields_upd_session)
    fix s assume "w_sessions w sid = Some s"
    then show "?Q (put_session sid (s\<lparr>s_tick_interval := uint (cfg_tick_interval c), s_keep_alive_timeout := t\<rparr>) w)"
      using fitted_session [OF w] by (auto intro!: fitted_put [OF w] simp: ticks_at_def fit_def)
  next
    fix v assume "?Q v"
    then show "yields (rbind (upd_session sid (\<lambda>s. s\<lparr>s_last_send_time := w_now v\<rparr>) v) (\<lambda>w.
        rbind (upd_session sid (\<lambda>s. s\<lparr>s_last_recv_time := w_now w\<rparr>) w) (\<lambda>w.
        fixed_tick (proxy_wrap fuel z) sid w))) (fitted c)"
      by (intro yields_bind [where Q = ?Q] u) (auto simp: fit_def intro: fitted_fixed_tick)
  qed
qed

section \<open>Accepting, and all reachable states\<close>

lemma default_reset_keyed: "default_reset stale st = (d, st') \<Longrightarrow> keyed (Some (Default d))"
  using rc4_info_new_ok(2) [of st] by (auto simp: default_reset_def split: prod.splits)

lemma fitted_accept:
  assumes w: "fitted c w"
  shows "yields (accept_a_session cl f i t stale w) (fitted c)"
proof -
  obtain au sc where ag: "agent_reset cl (pm_agent_sc (w_env w)) = (au, sc)" by fastforce
  obtain d rand where d: "default_reset stale (pm_rand (w_env w)) = (d, rand)" by fastforce
  have new: "yields (new_session ex au cl f i t now) (\<lambda>s. fit j s)" for ex now j
    unfolding new_session_def by (rule yields_bind [OF yields_True]) (simp add: fit_def)
  have k: "keyed (Some (apply_session sid (Default d)))" for sid using default_reset_keyed [OF d] by simp
  have e: "fitted c (upd_env (\<lambda>e. e\<lparr>pm_next_session := n, pm_agent_sc := sc, pm_rand := rand, pm_accepting := a\<rparr>) w)"
    for n a by (rule fitted_env [OF w]) simp_all
  show ?thesis unfolding accept_a_session_def Let_def ag d prod.case
    by (rule yields_bind [OF new], rule fitted_modify_logic, rule fitted_put, rule e, assumption, rule k)
qed

lemma fitted_passive: "fitted c w \<Longrightarrow> yields (passively_connect_succ sid w) (fitted c)"
  unfolding passively_connect_succ_def
  by (rule yields_bind, erule fitted_upd, simp add: fit_def, erule fitted_recv_loop)

lemma fitted_accept_done:
  assumes w: "fitted c w"
  shows "yields (accept_done fuel z ec ip w) (fitted c)"
proof (cases "pm_accepting (w_env w)")
  case None
  then show ?thesis using w by (simp add: accept_done_def)
next
  case (Some sid)
  let ?w = "upd_env (\<lambda>e. e\<lparr>pm_accepting := None\<rparr>) w"
  have w1: "fitted c ?w" by (rule fitted_env [OF w]) simp_all
  then have stop: "fitted c (upd_env stop_proxy ?w)"
    by (rule fitted_env) (simp_all add: stop_proxy_def executor_stop_def)
  have up: "yields (upd_session sid (\<lambda>s. s\<lparr>s_open := True, s_remote_ip := Some ip\<rparr>) ?w) (fitted c)"
    by (rule fitted_upd [OF w1]) (simp add: fit_def)
  have tick: "yields (start_tick (proxy_wrap fuel z) sid (uint (cfg_tick_interval (pm_config (w_env v)))) t v) (fitted c)"
    if "fitted c v" for t v
    using fitted_start_tick [OF that] that by (simp add: fitted_def)
  have ins: "fitted c (upd_env (\<lambda>e. e\<lparr>pm_un_managed_sessions := g e\<rparr>) v)" if "fitted c v" for g v
    by (rule fitted_env [OF that]) simp_all
  show ?thesis
    unfolding accept_done_def Some option.case Let_def
    by (rule yields_if, simp add: stop, rule yields_bind [OF up], rule yields_bind [OF yields_True],
        rule yields_bind, rule fitted_passive, erule ins, erule tick)
qed

lemma fitted_cleanup: "fitted c w \<Longrightarrow> fitted c (clean_up_closed_session w)"
  unfolding clean_up_closed_session_def hm_complex_operation_def Let_def prod.case
  by (erule fitted_env) simp_all

lemma fitted_handler:
  assumes inv: "proxy_inv w" and w: "fitted c w" and en: "enabled e w"
  shows "yields (proxy_handler fuel z e w) (fitted c)"
proof (cases e)
  case (RetryTimer sid ec)
  then show ?thesis using inv en world_ok_retry unfolding proxy_inv_def by metis
next
  case (Elapse n)
  then show ?thesis using w by (simp add: fitted_def)
qed (use w en in \<open>simp_all add: fitted_accept fitted_accept_done fitted_read_done fitted_write_done
    fitted_close_task fitted_tick_timer fitted_cleanup del: enabled.simps\<close>)

lemma fitted_reachable:
  assumes "proxy_reachable fuel z w"
  shows "fitted (pm_config (w_env w)) w"
proof -
  have "\<exists>c. fitted c w" using assms
  proof induction
    case (reach_start w c f i t d w')
    let ?w = "upd_env (\<lambda>e. e\<lparr>pm_session_excutor := executor_start (pm_session_excutor e),
      pm_acceptor_executor := executor_start (pm_acceptor_executor e), pm_clean_up_timer := True\<rparr>) w"
    have "fitted (pm_config (w_env w)) ?w"
      using reach_start(1) by (auto simp: proxy_init_def proxy_new_def fitted_def upd_env_def executor_start_def executor_new_def)
    from yieldsD [OF _ fitted_accept [OF this]] reach_start(2) show ?case
      unfolding start_proxy_def Let_def by blast
  next
    case (reach_step w e w')
    then obtain c where "fitted c w" by blast
    moreover obtain "enabled e w" "proxy_handler fuel z e w = Inr w'"
      using reach_step(2) by (auto elim: proxy_stepE)
    ultimately have "fitted c w'"
      using yieldsD [OF _ fitted_handler [OF proxy_reachable_inv [OF reach_step(1)]]] by blast
    then show ?case ..
  qed
  then show ?thesis by (auto simp: fitted_def)
qed

end
