(* ===== verification/Proxy_Faults.thy ===== *)
theory Proxy_Faults
  imports Proxy_Fit
begin

text \<open>
  Which events can bring the proxy down. With a sane configuration no handler faults on an enabled
  event, except a finished read whose packets are not all \<open>harmless\<close>, or that brings packets on a
  socket that was closed meanwhile; and the packets that are not harmless do fault, so a peer can
  end the process with a single short packet.
\<close>

section \<open>Sending succeeds\<close>

text \<open>Every session of a reachable world has a default or a server logic.\<close>

lemma managed_cases:
  assumes "managed k w" "w_sessions w sid = Some s"
  obtains d where "s_logic s = Some (Default d)" "dl_session_holder d = Some sid"
  | l where "s_logic s = Some (Server l)" "sl_session_holder l = Some sid"
      "(s_uuid s, sid) \<in> set (pm_server_sessions (w_env w))"
  using managed_logic [OF assms]
  by (cases "(pm_server_sessions (w_env w), sid, s_uuid s, s_logic s)" rule: logic_ok.cases) auto

lemma managed_pool_buffer: "managed k w \<Longrightarrow> pool_buffer n w = (b, w') \<Longrightarrow> managed k w'"
  by (erule managed_still) (auto intro: calm_pool_buffer [OF calm_refl] still_pool_buffer [OF still_refl])

lemma succeeds_upd_session: "w_sessions w sid = Some s \<Longrightarrow> succeeds (upd_session sid f w)"
  by (auto simp: succeeds_def upd_session_Inr)

lemma lock_holder_session: "lock_holder i w = Some h \<Longrightarrow> i = Some h \<and> (\<exists>s. w_sessions w h = Some s)"
  by (cases i) (auto simp: lock_holder_def split: if_splits)

lemma succeeds_send:
  assumes m: "managed k w" and s: "w_sessions w sid = Some s" and b: "send_block b data"
  shows "succeeds (async_send (proxy_wrap fuel z) sid b cb w)"
proof -
  obtain l where l: "s_logic s = Some l" "\<exists>b' bs. proxy_wrap fuel z sid l b v = Inr (b', v) \<and> payload b' = Inr bs" for v
    using m s
  proof (cases rule: managed_cases)
    case (1 d)
    obtain b' bs where "default_wrap d b = Inr b'" "payload b' = Inr bs" using default_wrap_packet [OF b] by blast
    with 1 that show ?thesis by simp
  next
    case (2 l)
    obtain b' bs where "server_wrap l b = Inr b'" "payload b' = Inr bs" using server_wrap_packet [OF b] by blast
    with 2 that show ?thesis by simp
  qed
  let ?w = "put_session sid (s\<lparr>s_last_send_time := w_now w\<rparr>) w"
  have g: "get_session sid w = Inr s" "update_send_time sid w = Inr ?w"
    using s by (simp_all add: update_send_time_def upd_session_Inr)
  obtain b' bs where "proxy_wrap fuel z sid l b ?w = Inr (b', ?w)" "payload b' = Inr bs" using l(2) by blast
  moreover have "succeeds (start_write sid bs cb ?w)"
    unfolding start_write_def by (rule succeeds_upd_session) simp
  ultimately show ?thesis by (simp add: async_send_def g l(1))
qed

lemma send_blockI:
  assumes "buf_SIZE b = ONCE_BUFFER_SIZE" "buf_offset b = of_nat PROTO_HEAD_SIZE" "unat (buf_length b) \<le> 65525"
  shows "\<exists>data. send_block b data"
  using assms by (simp add: send_block_def payload_def buf_get_def)

lemma succeeds_echo:
  assumes m: "managed k w" and d: "keyed (Some (Default d))"
  shows "succeeds (echo_authentication_res fuel z d ec w)"
proof -
  obtain b w1 where tb: "temp_buffer w = (b, w1)" by fastforce
  note b = pool_buffer_block [OF tb]
  let ?key = "take RC4_KEY_LEN (rc4_key (dl_rc4_info d))"
  obtain bs where p: "aaa_response_pack (error_code ec) (word_of_int (rc4_subtract (dl_rc4_info d)))
      (word_of_int (rc4_modvt (dl_rc4_info d))) (list_reader (rc4_key (dl_rc4_info d)))
      (of_nat RC4_KEY_LEN) (dl_target_uid d) (si_link_type (dl_server_info d)) = Inr (bs, 20)" "length bs = 18"
    using d by (simp add: aaa_response_pack_def list_reader_def)
  have put: "buf_put (b\<lparr>buf_offset := prefix_size (Default d)\<rparr>) (buffer_at (b\<lparr>buf_offset := prefix_size (Default d)\<rparr>) 0) bs
      = Inr (b\<lparr>buf_offset := of_nat PROTO_HEAD_SIZE, buf_bytes := mem_write (buf_bytes b) PROTO_HEAD_SIZE bs\<rparr>)"
    using b p(2) by (simp add: buf_put_def)
  obtain data where sb: "send_block (b\<lparr>buf_offset := of_nat PROTO_HEAD_SIZE,
      buf_bytes := mem_write (buf_bytes b) PROTO_HEAD_SIZE bs, buf_length := 20\<rparr>) data"
    using send_blockI [of "b\<lparr>buf_offset := of_nat PROTO_HEAD_SIZE,
      buf_bytes := mem_write (buf_bytes b) PROTO_HEAD_SIZE bs, buf_length := 20\<rparr>"] b by auto
  have m1: "managed k w1" using managed_pool_buffer [OF m tb] .
  have "succeeds (async_send (proxy_wrap fuel z) h (b\<lparr>buf_offset := of_nat PROTO_HEAD_SIZE,
      buf_bytes := mem_write (buf_bytes b) PROTO_HEAD_SIZE bs, buf_length := 20\<rparr>) cb w1)"
    if "lock_holder (dl_session_holder d) w1 = Some h" for h cb
  proof -
    from lock_holder_session [OF that] obtain s where "w_sessions w1 h = Some s" by blast
    then show ?thesis using succeeds_send [OF m1 _ sb] by blast
  qed
  then show ?thesis
    unfolding echo_authentication_res_def tb Let_def prod.case p(1) rbind_Inr put
    using b by (simp split: option.split)
qed

section \<open>Authentication succeeds\<close>

lemma succeeds_move_server:
  assumes m: "managed k w" and new: "\<not> hm_contains_key (pm_server_sessions (w_env w)) uid"
  shows "succeeds (move_server_available uid w)"
proof (cases "hm_try_get (pm_un_managed_sessions (w_env w)) uid")
  case None
  then show ?thesis by (simp add: move_server_available_def take_unmanaged_def)
next
  case (Some sid)
  then obtain s where s: "w_sessions w sid = Some s" "s_uuid s = uid"
    using managed_unmanaged [OF m, of uid sid] map_of_SomeD by fastforce
  from m s(1) show ?thesis
  proof (cases rule: managed_cases)
    case (1 d)
    with move_server [OF Some s(1) _ new] show ?thesis by (auto simp: succeeds_def)
  next
    case (2 l)
    then have "map_of (pm_server_sessions (w_env w)) uid \<noteq> None"
      using s(2) by (simp add: map_of_eq_None_iff rev_image_eqI)
    with new show ?thesis by (simp add: hm_contains_key_def)
  qed
qed

lemma succeeds_verify_mgr:
  assumes "managed k w"
  shows "succeeds (verify_authentication_mgr self t s u c ip w)"
  using assms unfolding verify_authentication_mgr_def hm_complex_operation_def Let_def prod.case
  by (auto simp: succeeds_move_server)

text \<open>
  Reading a request from a block: the length of the platform is computed from that of the payload
  in 16 bits, so payloads of less than eight bytes make it read almost 64 KB from the fifth byte on,
  which the block holds for lengths up to two.
\<close>

lemma request_length:
  fixes n :: u16
  shows "unat (n - 8) = (if 8 \<le> unat n then unat n - 8 else unat n + 65528)"
proof (cases "8 \<le> unat n")
  case True
  then show ?thesis by (subst unat_sub_small) simp_all
next
  case False
  have "(65528 :: u16) = - 8" by simp
  then have "unat (n - 8) = unat (n + 65528)" by (simp only: diff_conv_add_uminus)
  also have "\<dots> = unat n + 65528" using False by (subst unat_add_small) simp_all
  finally show ?thesis using False by simp
qed

lemma request_in_block:
  assumes b: "block_ok b" and n: "buf_length b = ucast (n :: u16)"
  shows "(\<exists>req. aaa_request_unpack (\<lambda>o' k. buf_get b (buffer_at b (of_nat o')) k) (ucast (buf_length b)) = Inr req)
      \<longleftrightarrow> unat n < 3 \<or> 7 < unat n"
    and "3 \<le> unat n \<Longrightarrow> unat n \<le> 7 \<Longrightarrow>
      aaa_request_unpack (\<lambda>o' k. buf_get b (buffer_at b (of_nat o')) k) (ucast (buf_length b)) = Inl OutOfBounds"
proof -
  have l: "(ucast (buf_length b) :: u16) = n"
    unfolding n by (rule bit_word_eqI) (auto simp: bit_simps)
  have g: "buf_get b (buffer_at b (of_nat p)) k = (if p + k \<le> 65536 then Inr (mem_read (buf_bytes b) p k) else Inl OutOfBounds)"
    if "p < 100" for p k
  proof -
    have "unat (of_nat p :: u64) = p" using that by (intro unat_of_nat_small) simp
    then show ?thesis using b by (simp add: buf_get_def block_ok_def buffer_at_def)
  qed
  have m: "unat n < 65536" by (rule len16_less)
  show "(\<exists>req. aaa_request_unpack (\<lambda>o' k. buf_get b (buffer_at b (of_nat o')) k) (ucast (buf_length b)) = Inr req)
      \<longleftrightarrow> unat n < 3 \<or> 7 < unat n"
    unfolding aaa_request_unpack_def l Let_def read_byte_def
    using g [of 0] g [of 2] g [of 4] g [of 5] m by (simp add: request_length) arith
  show "aaa_request_unpack (\<lambda>o' k. buf_get b (buffer_at b (of_nat o')) k) (ucast (buf_length b)) = Inl OutOfBounds"
    if "3 \<le> unat n" "unat n \<le> 7"
    unfolding aaa_request_unpack_def l Let_def read_byte_def
    using g [of 0] g [of 2] g [of 4] g [of 5] that by (simp add: request_length)
qed


text \<open>A session whose socket is open, with a peer on it.\<close>

definition live :: "nat \<Rightarrow> proxy_world \<Rightarrow> bool" where
  "live sid w \<longleftrightarrow> (\<exists>s. w_sessions w sid = Some s \<and> s_open s \<and> s_remote_ip s \<noteq> None)"

lemma live_calm: "live sid w \<Longrightarrow> calm w w' \<Longrightarrow> live sid w'"
  by (auto simp: live_def calm_session_def dest!: calm_session_at [of w w' sid])

lemma live_remote_ip: "live sid w \<Longrightarrow> \<exists>ip. get_remote_ip sid w = Inr ip"
  by (auto simp: live_def get_remote_ip_def get_session_def)

lemma succeeds_store_default:
  assumes "managed k w" "w_sessions w sid = Some s"
  shows "succeeds (store_default sid d w)"
  using assms
  by (cases rule: managed_cases)
    (simp_all add: store_default_def get_logic_def get_session_def set_logic_def assms(2) succeeds_upd_session [OF assms(2)])

text \<open>A session that may be authenticated.\<close>

definition ready :: "nat option \<times> nat \<Rightarrow> nat \<Rightarrow> proxy_world \<Rightarrow> bool" where
  "ready k sid w \<longleftrightarrow> managed k w \<and> live sid w"

lemma ready_session: "ready k sid w \<Longrightarrow> \<exists>s. w_sessions w sid = Some s"
  by (auto simp: ready_def live_def)

lemma ready_calm: "ready k sid w \<Longrightarrow> managed k w' \<Longrightarrow> calm w w' \<Longrightarrow> ready k sid w'"
  unfolding ready_def by (blast intro: live_calm)

lemma ready_store:
  assumes "ready k sid w" "dl_session_holder d = Some sid"
  shows "succeeds (store_default sid d w)" "yields (store_default sid d w) (ready k sid)"
proof -
  have m: "managed k w" using assms(1) by (simp add: ready_def)
  show "succeeds (store_default sid d w)" using ready_session [OF assms(1)] m by (auto intro: succeeds_store_default)
  show "yields (store_default sid d w) (ready k sid)"
    by (rule yields_mono [OF yields_conj [OF managed_store_default [OF m assms(2)] calm_store_default [OF calm_refl]]])
      (blast intro: ready_calm [OF assms(1)])
qed

lemma ready_answer:
  assumes "ready k sid w" "keyed (Some (Default d))" "dl_session_holder d = Some sid"
  shows "succeeds (rbind (store_default sid d w) (\<lambda>w. echo_authentication_res fuel z d ec w))"
  by (rule succeeds_bind [OF ready_store [OF assms(1,3)]]) (use assms(2) in \<open>auto simp: ready_def intro: succeeds_echo\<close>)

lemma ready_ask:
  assumes w: "ready k sid w"
  shows "succeeds (if cmd \<noteq> c then Inr ((False, t), w)
      else rbind (get_session sid w) (\<lambda>hs. rbind (get_remote_ip sid w) (\<lambda>ip.
        verify_authentication_mgr sid lt u t (s_uuid hs) ip w)))" (is "succeeds ?ask")
    and "yields (if cmd \<noteq> c then Inr ((False, t), w)
      else rbind (get_session sid w) (\<lambda>hs. rbind (get_remote_ip sid w) (\<lambda>ip.
        verify_authentication_mgr sid lt u t (s_uuid hs) ip w))) (\<lambda>(r, w'). ready k sid w')"
proof -
  have m: "managed k w" using w by (simp add: ready_def)
  obtain s ip where g: "get_session sid w = Inr s" "get_remote_ip sid w = Inr ip"
    using ready_session [OF w] w live_remote_ip [of sid w] by (auto simp: ready_def get_session_def)
  show "succeeds ?ask" using succeeds_verify_mgr [OF m] by (simp add: g)
  have "yields (verify_authentication_mgr sid lt u t (s_uuid s) ip w) (\<lambda>(r, w'). ready k sid w')"
    by (rule yields_mono [OF yields_conj [OF managed_verify_mgr [OF m] calm_verify_mgr [OF calm_refl]]])
      (auto intro: ready_calm [OF w])
  then show "yields ?ask (\<lambda>(r, w'). ready k sid w')" using w by (simp add: g)
qed

lemma succeeds_verify:
  assumes m: "managed k w" and lv: "live sid w" and d: "keyed (Some (Default d))" "dl_session_holder d = Some sid"
    and b: "block_ok b" "buf_length b = ucast (n :: u16)" "unat n < 3 \<or> 7 < unat n"
  shows "succeeds (verify_authentication fuel z sid d b cmd w)"
proof -
  obtain req where req: "aaa_request_unpack (\<lambda>o' k. buf_get b (buffer_at b (of_nat o')) k) (ucast (buf_length b)) = Inr req"
    using request_in_block(1) [OF b(1,2)] b(3) by blast
  have w: "ready k sid w" using m lv by (simp add: ready_def)
  let ?d = "d\<lparr>dl_server_info := \<lparr>si_server_id = req_server_id req, si_area_id = req_area_id req,
      si_platform = req_platform req, si_link_type = req_link_type req\<rparr>\<rparr>"
  show ?thesis
    unfolding verify_authentication_def req rbind_Inr Let_def
  proof (rule succeeds_bind [where Q = "ready k sid"])
    show "succeeds (store_default sid ?d w)" "yields (store_default sid ?d w) (ready k sid)"
      using ready_store [OF w, of ?d] d(2) by simp_all
  next
    fix v assume v: "ready k sid v"
    have h: "lock_holder (dl_session_holder ?d) v = Some sid"
      using ready_session [OF v] d(2) by (auto simp: lock_holder_def)
    show "succeeds (case lock_holder (dl_session_holder ?d) v of None \<Rightarrow> Inr v
     | Some holder \<Rightarrow>
         rbind (if cmd \<noteq> cmd_code Commands_AuthenticationAAA then Inr ((False, dl_target_uid ?d), v)
                else
                  rbind (get_session holder v) (\<lambda>hs.
                  rbind (get_remote_ip holder v) (\<lambda>ip.
                  verify_authentication_mgr sid (req_link_type req)
                    (cal_server_uid (req_area_id req) (req_server_id req) (req_platform req)) (dl_target_uid ?d) (s_uuid hs) ip v)))
           (\<lambda>((verified, target_uid), w).
         if verified
         then rbind (store_default sid (?d\<lparr>dl_target_uid := target_uid, dl_authentication := VERIFY_SUCC\<rparr>) w)
           (\<lambda>w. echo_authentication_res fuel z (?d\<lparr>dl_target_uid := target_uid, dl_authentication := VERIFY_SUCC\<rparr>) EC_Success w)
         else rbind (store_default sid (?d\<lparr>dl_target_uid := target_uid, dl_authentication := VERIFY_FAILED\<rparr>) w)
           (\<lambda>w. echo_authentication_res fuel z (?d\<lparr>dl_target_uid := target_uid, dl_authentication := VERIFY_FAILED\<rparr>) EC_ServerNotFound w)))"
      unfolding h option.case
      by (rule succeeds_bind [OF ready_ask [OF v]])
        (use d in \<open>auto intro!: ready_answer split: prod.splits\<close>)
  qed
qed

section \<open>Harmless packets\<close>

text \<open>
  A session that has not yet tried to authenticate takes the next packet for a request; a server's
  broadcast begins with a number of targets that must all be there.
\<close>

definition unverified :: "proxy_logic option \<Rightarrow> bool" where
  "unverified l \<longleftrightarrow> (case l of Some (Default d) \<Rightarrow> dl_authentication d = BEFORE_VERIFY | _ \<Rightarrow> False)"

definition broadcast_ok :: "byte list \<Rightarrow> bool" where
  "broadcast_ok body \<longleftrightarrow> 2 \<le> length body \<and> 2 + 4 * unat (read_uint16 (take 2 body)) \<le> length body"

definition harmless :: "bool \<Rightarrow> protocol_head \<times> byte list \<Rightarrow> bool" where
  "harmless request f \<longleftrightarrow> (request \<longrightarrow> length (snd f) < 3 \<or> 7 < length (snd f))
     \<and> (get_cmd (fst f) = cmd_code Commands_BroadCast \<longrightarrow> broadcast_ok (snd f))"

lemma harmless_mono: "harmless u f \<Longrightarrow> (u' \<Longrightarrow> u) \<Longrightarrow> harmless u' f"
  by (simp add: harmless_def)

lemma unverified_simps [simp]:
  "unverified (Some (Default d)) \<longleftrightarrow> dl_authentication d = BEFORE_VERIFY"
  "\<not> unverified (Some (Server l))" "\<not> unverified (Some (Client cl))" "\<not> unverified None"
  by (simp_all add: unverified_def)

text \<open>With no clients, handing on a server's packet only reads and copies it.\<close>

lemma payload_part:
  assumes "payload b = Inr data" "i + n \<le> length data" "length data < 65536" "unat (p :: u64) = i"
    and "unat (buf_offset b) < 65536"
  shows "buf_get b (buffer_at b p) n = Inr (take n (drop i data))"
proof -
  have l: "unat (buf_length b) = length data" "unat (buf_offset b) + length data \<le> unat (buf_SIZE b)"
      "data = mem_read (buf_bytes b) (unat (buf_offset b)) (length data)"
    using assms(1) by (auto simp: payload_def buf_get_Inr_iff)
  have u: "unat (buf_offset b + p) = unat (buf_offset b) + i"
    using assms by (subst unat_add_small) simp_all
  have "take n (drop i data) = mem_read (buf_bytes b) (unat (buf_offset b) + i) n"
    by (subst l(3)) (use assms(2) in \<open>simp add: mem_read_drop mem_read_take\<close>)
  then show ?thesis using l(2) assms(2) u by (simp add: buf_get_def buffer_at_def)
qed

lemma succeeds_broadcast:
  assumes d: "payload data = Inr body" "unat (buf_offset data) < 65536" "length body < 65536"
    and n: "2 + 4 * n \<le> length body" and m: "payload m = Inr []" and c: "pm_client_sessions (w_env w) = []"
  shows "succeeds (rfold (broadcast_one l data m) [0..<n] w)"
proof (rule succeeds_rfold [where P = "\<lambda>w. pm_client_sessions (w_env w) = []"])
  fix i and v :: proxy_world assume i: "i \<in> set [0..<n]" and v: "pm_client_sessions (w_env v) = []"
  have u: "unat (2 + of_nat i * 4 :: u64) = 2 + 4 * i"
  proof -
    have "(2 + of_nat i * 4 :: u64) = of_nat (2 + 4 * i)" by simp
    moreover have "unat (of_nat (2 + 4 * i) :: u64) = 2 + 4 * i"
      using i n d(3) by (intro unat_of_nat_small) simp
    ultimately show ?thesis by (simp add: mult.commute)
  qed
  have g: "buf_get data (buffer_at data (2 + of_nat i * 4)) 4 = Inr (take 4 (drop (2 + 4 * i) body))"
    by (rule payload_part [OF d(1) _ d(3) u d(2)]) (use i n in simp)
  obtain hb v1 where tb: "tiny_buffer v = (hb, v1)" by fastforce
  have p: "\<exists>hb'. buf_put hb (buffer_at hb 0) (head_bytes h) = Inr hb'" for h
    using pool_buffer_block [OF tb] by (simp add: buf_put_def)
  have v1: "pm_client_sessions (w_env v1) = []" using pool_buffer_world [OF tb] v by simp
  then have "send_to_client_multi uid hb' m v1 = Inr v1" for uid hb'
    by (simp add: send_to_client_multi_def)
  then have "broadcast_one l data m i v = Inr v1"
    unfolding broadcast_one_def g Let_def tb prod.case rbind_Inr m
    using p [of "seal_head (get_a_head FRAME_KEY (ucast (buf_length m)) 0 (cmd_code Commands_RoutingTransparent) False (sl_seq l)) []"]
    by auto
  then show "succeeds (broadcast_one l data m i v) \<and> yields (broadcast_one l data m i v) (\<lambda>w. pm_client_sessions (w_env w) = [])"
    using v1 by simp
qed (rule c)

lemma succeeds_server_store:
  assumes d: "payload data = Inr body" "buf_SIZE data = ONCE_BUFFER_SIZE" "unat (buf_offset data) = 7" "length body \<le> 65525"
    and c: "pm_client_sessions (w_env w) = []"
    and b: "get_cmd h = cmd_code Commands_BroadCast \<Longrightarrow> broadcast_ok body"
  shows "succeeds (server_store fuel z l data h w)"
proof (cases "get_cmd h = cmd_code Commands_BroadCast")
  case False
  moreover have "\<exists>ub. buf_get data (buffer_at data 0) 4 = Inr ub" using d(2,3) by (simp add: buf_get_def)
  ultimately show ?thesis using c by (auto simp: server_store_def send_to_client_def)
next
  case True
  let ?size = "ucast (read_uint16 (take 2 body)) :: u64"
  let ?n = "unat (read_uint16 (take 2 body))"
  have n: "2 \<le> length body" "2 + 4 * ?n \<le> length body" using b [OF True] by (simp_all add: broadcast_ok_def)
  have u: "unat ?size = ?n" by simp
  have g: "buf_get data (buffer_at data 0) 2 = Inr (take 2 body)"
    using payload_part [OF d(1), of 0 2 0] d n by simp
  have k: "unat (2 + 4 * ?size) = 2 + 4 * ?n"
  proof -
    have "unat (4 * ?size) = 4 * ?n" using n d(4) by (simp add: unat_word_ariths)
    then show ?thesis using n d(4) by (subst unat_add_small) simp_all
  qed
  have l: "unat (buf_length data) = length body" using d(1) by (auto simp: payload_def buf_get_Inr_iff)
  have rest: "unat (buf_length data - (2 + 4 * ?size)) = length body - (2 + 4 * ?n)"
    using n k l by (subst unat_sub_small) simp_all
  have block: "buf_get data (buffer_at data (2 + 4 * ?size)) (unat (buf_length data - (2 + 4 * ?size)))
      = Inr (drop (2 + 4 * ?n) body)"
    unfolding rest using payload_part [OF d(1), of "2 + 4 * ?n" "length body - (2 + 4 * ?n)" "2 + 4 * ?size"] d n k by simp
  obtain m w1 where tb: "temp_buffer w = (m, w1)" by fastforce
  let ?m = "m\<lparr>buf_bytes := mem_write (buf_bytes m) 0 (drop (2 + 4 * ?n) body)\<rparr>"
  have m: "buf_put m (buffer_at m 0) (drop (2 + 4 * ?n) body) = Inr ?m" "payload ?m = Inr []"
    using pool_buffer_block [OF tb] d(4) by (simp_all add: buf_put_def payload_def buf_get_def)
  have "succeeds (rfold (broadcast_one l data ?m) [0..<unat ?size] w1)"
    unfolding u by (rule succeeds_broadcast [OF d(1) _ _ n(2) m(2)])
      (use d pool_buffer_world [OF tb] c in simp_all)
  then show ?thesis
    using True unfolding server_store_def g rbind_Inr Let_def tb prod.case block m(1) by simp
qed

section \<open>Handing a packet over succeeds\<close>

lemma block_body:
  assumes "block_ok db" "length body = unat (head_len h)"
  shows "buf_get (with_body db h body) (buf_offset (with_body db h body)) (unat (head_len h)) = Inr body"
    and "buf_length (with_body db h body) = ucast (head_len h)" "block_ok (with_body db h body)"
  using assms len16_less [of "head_len h"]
  by (simp_all add: with_body_def block_ok_def buf_get_def mem_simps)

text \<open>A session that has tried to authenticate has done so for good.\<close>

definition settled :: "nat \<Rightarrow> proxy_world \<Rightarrow> bool" where
  "settled sid w \<longleftrightarrow> (\<exists>s. w_sessions w sid = Some s \<and> s_logic s \<noteq> None \<and> \<not> unverified (s_logic s))"

lemma settled_still: "settled sid w \<Longrightarrow> still w w' \<Longrightarrow> settled sid w'"
  unfolding settled_def still_def by (metis map_option_eq_Some)

text \<open>
  What unwrapping a packet comes to: no packet of an unverified session is handed on; a server's
  is with its bytes, when it has any.
\<close>

lemma succeeds_unwrap:
  assumes m: "managed k w" and f: "fitted c w" and s: "w_sessions w sid = Some s" "s_logic s = Some l"
    and b: "block_ok db" "length body = unat (head_len h)" "length body \<le> 65525"
    and ok: "harmless (unverified (s_logic s)) (h, body)" "unverified (s_logic s) \<longrightarrow> live sid w"
    and r: "buf_SIZE r = ONCE_BUFFER_SIZE" "buf_offset r = prefix_size l"
  shows "\<exists>v db' r' w'. proxy_unwrap fuel z sid l (with_body db h body) h r w = Inr ((v, db', r'), w')
    \<and> (v \<longrightarrow> (\<exists>sl sl0. get_logic sid w' = Inr (Server sl) \<and> l = Server sl0 \<and> same_block r r' \<and> payload r' = Inr body))
    \<and> (settled sid w \<longrightarrow> settled sid w')"
  using m s(1)
proof (cases rule: managed_cases)
  case (1 d)
  let ?d = "d\<lparr>dl_seq := dl_seq d + 1\<rparr>" and ?b = "with_body db h body"
  let ?w = "put_session sid (s\<lparr>s_logic := Some (Default ?d)\<rparr>) w"
  have l: "l = Default d" using 1 s(2) by simp
  have set': "set_logic sid (Default ?d) w = Inr ?w" by (rule set_logic_at [OF s(1)])
  have m1: "managed k ?w"
    using yieldsD [OF set' managed_set_default [OF m]] 1 s by (simp add: get_logic_def get_session_def)
  show ?thesis
  proof (cases "head_seq h \<noteq> dl_seq d + 1 \<or> get_mask (head_bytes h) body 0 \<noteq> 0 \<or> dl_authentication d \<noteq> BEFORE_VERIFY")
    case True
    have e: "default_unwrap fuel z sid d ?b h r w = Inr ((False, ?b, r), ?w)"
      by (rule default_unwrap_refuses [OF s(1) block_body(1) [OF b(1,2)] True])
    have "settled sid w \<longrightarrow> settled sid ?w" using s l by (simp add: settled_def)
    then show ?thesis unfolding l proxy_unwrap.simps e by auto
  next
    case False
    then have u: "unverified (s_logic s)" using 1 by simp
    have key: "keyed (Some (Default ?d))" using fitted_session [OF f s(1)] 1 by (simp add: fit_def)
    have lv: "live sid ?w" using ok(2) u s(1) by (auto simp: live_def)
    have n: "unat (head_len h) < 3 \<or> 7 < unat (head_len h)" using ok(1) u b(2) by (auto simp: harmless_def)
    have "succeeds (verify_authentication fuel z sid ?d ?b cmd ?w)" for cmd
      by (rule succeeds_verify [OF m1 lv key _ block_body(3) [OF b(1,2)] block_body(2) [OF b(1,2)] n]) (simp add: 1)
    then obtain w' where v: "verify_authentication fuel z sid ?d ?b (get_cmd h) ?w = Inr w'"
      by (auto simp: succeeds_def)
    have "default_unwrap fuel z sid d ?b h r w = Inr ((False, ?b, r), w')"
      unfolding default_unwrap_def Let_def set' rbind_Inr mask_ok_at [OF block_body(1) [OF b(1,2)]]
      using False v by simp
    moreover have "\<not> settled sid w" using u s(1) by (simp add: settled_def)
    ultimately show ?thesis unfolding l by auto
  qed
next
  case (2 sl)
  have l: "l = Server sl" using 2 s(2) by simp
  have "unat (buf_offset r) = 7" using r(2) by (simp add: l)
  then have room: "unat (buf_offset r) + length body \<le> unat (buf_SIZE r)" using r(1) b(3) by simp
  from server_unwrap_verdict [OF s(1) block_body(1) [OF b(1,2)] room, of sl] show ?thesis
    unfolding l proxy_unwrap.simps
    by (fastforce simp: get_logic_def get_session_def settled_def)
qed

lemma succeeds_hand_over:
  assumes m: "managed k w" and f: "fitted c w" and s: "w_sessions w sid = Some s"
    and b: "block_ok db" "length body = unat (head_len h)" "length body \<le> 65525"
    and ok: "harmless (unverified (s_logic s)) (h, body)" "unverified (s_logic s) \<longrightarrow> live sid w"
  shows "succeeds (hand_over (proxy_vt fuel z) sid h (with_body db h body) w)"
    and "settled sid w \<Longrightarrow> yields (hand_over (proxy_vt fuel z) sid h (with_body db h body) w) (\<lambda>(x, w'). settled sid w')"
proof -
  obtain ub w1 where tb: "temp_buffer w = (ub, w1)" by fastforce
  note ub = pool_buffer_block [OF tb] and w1 = pool_buffer_world [OF tb]
  have m1: "managed k w1" and f1: "fitted c w1"
    using managed_pool_buffer [OF m tb] fitted_pool_buffer [OF f tb] .
  obtain l where l: "s_logic s = Some l" using m s by (cases rule: managed_cases) auto
  have s1: "w_sessions w1 sid = Some s" using w1 s by simp
  let ?r = "ub\<lparr>buf_offset := prefix_size l\<rparr>"
  have lv: "unverified (s_logic s) \<longrightarrow> live sid w1" using ok(2) w1 by (simp add: live_def)
  have ub_r: "buf_SIZE ?r = ONCE_BUFFER_SIZE" "buf_offset ?r = prefix_size l" using ub by simp_all
  obtain v db' r' w2 where un: "proxy_unwrap fuel z sid l (with_body db h body) h ?r w1 = Inr ((v, db', r'), w2)"
    and v: "v \<longrightarrow> (\<exists>sl sl0. get_logic sid w2 = Inr (Server sl) \<and> l = Server sl0 \<and> same_block ?r r' \<and> payload r' = Inr body)"
    and st: "settled sid w1 \<longrightarrow> settled sid w2"
    using succeeds_unwrap [OF m1 f1 s1 l b ok(1) lv ub_r, of fuel z] by blast
  have m2: "managed k w2" using yieldsD [OF un managed_unwrap [OF m1]] s1 l by (simp add: get_logic_def get_session_def)
  have g1: "get_logic sid w1 = Inr l" using s1 l by (simp add: get_logic_def get_session_def)
  have ho: "hand_over (proxy_vt fuel z) sid h (with_body db h body) w =
      (if \<not> v then Inr ((None, db'), w2)
       else rbind (get_logic sid w2) (\<lambda>l. rbind (proxy_store fuel z sid l r' h w2)
         (\<lambda>(stored, w). Inr ((Some stored, db'), w))))"
    unfolding hand_over_def tb Let_def prod.case proxy_vt_def vtable.simps g1 rbind_Inr un ..
  have stored: "\<exists>x w3. rbind (get_logic sid w2) (\<lambda>l. rbind (proxy_store fuel z sid l r' h w2)
      (\<lambda>(stored, w). Inr ((Some stored, db'), w))) = Inr (x, w3) \<and> still w2 w3"
    if v': v
  proof -
    obtain sl sl0 where sl: "get_logic sid w2 = Inr (Server sl)" "same_block ?r r'" "payload r' = Inr body" "l = Server sl0"
      using v v' by blast
    then have off: "unat (buf_offset r') = 7" by (auto simp: same_block_def)
    have "succeeds (server_store fuel z sl r' h w2)"
      by (rule succeeds_server_store [OF sl(3) _ off b(3) managed_clients [OF m2]])
        (use sl(2) ub ok(1) in \<open>simp_all add: same_block_def harmless_def\<close>)
    then obtain x w3 where x: "proxy_store fuel z sid (Server sl) r' h w2 = Inr (x, w3)"
      by (auto simp: succeeds_def)
    with yieldsD [OF x still_proxy_store] sl(1) show ?thesis by auto
  qed
  show "succeeds (hand_over (proxy_vt fuel z) sid h (with_body db h body) w)"
    unfolding ho using stored by (auto simp: succeeds_def)
  assume "settled sid w"
  then have "settled sid w2" using st w1 by (simp add: settled_def)
  then show "yields (hand_over (proxy_vt fuel z) sid h (with_body db h body) w) (\<lambda>(x, w'). settled sid w')"
    unfolding ho using stored by (auto simp: yields_def dest: settled_still)
qed

section \<open>The packet loop succeeds\<close>

definition harmless_frames :: "nat \<Rightarrow> proxy_logic session \<Rightarrow> (protocol_head \<times> byte list) list \<Rightarrow> proxy_world \<Rightarrow> bool" where
  "harmless_frames sid s fs w \<longleftrightarrow> (\<forall>f \<in> set fs. harmless (unverified (s_logic s)) f)
     \<and> (unverified (s_logic s) \<and> fs \<noteq> [] \<longrightarrow> live sid w)"

lemma succeeds_pick:
  assumes idle: "idle k sid w" and f: "fitted c w" and db: "block_ok db" and s: "w_sessions w sid = Some s"
    and split: "split_frames (recv_content (s_recv s)) = ((h, body) # fs, rest)"
    and ok: "harmless_frames sid s ((h, body) # fs) w"
  shows "\<exists>db' w' s'. pick_a_entire_msg (proxy_vt fuel z) sid db w = Inr ((True, db'), w') \<and> block_ok db'
    \<and> w_sessions w' sid = Some s' \<and> recv_content (s_recv s') = drop (PROTO_HEAD_SIZE + length body) (recv_content (s_recv s))
    \<and> split_frames (recv_content (s_recv s')) = (fs, rest) \<and> harmless_frames sid s' fs w'"
proof -
  have wok: "world_ok k w" using idle by (simp add: idle_def)
  have m: "managed k w" using world_ok_managed [OF wok] .
  have good: "recv_good (s_recv s)" using world_ok_session [OF wok s] by (simp add: reading_def)
  obtain name b where r: "s_recv s = Some (name, b)"
    using split by (cases "s_recv s") (auto simp: split_frames_short)
  have b: "recv_ok b" and sp: "split_frames (recv_bytes b) = ((h, body) # fs, rest)" using good split r by simp_all
  note pf = pick_frame [OF s r b db sp]
  have len: "length body = unat (head_len h)"
    using split_frames_bytes [of "recv_content (s_recv s)"] split by (simp add: frame_ok_def)
  have room: "length body \<le> 65525" using pf(3) b by (simp add: recv_ok_def)
  have "harmless (unverified (s_logic s)) (h, body)" "unverified (s_logic s) \<longrightarrow> live sid w"
    using ok by (simp_all add: harmless_frames_def)
  note ho = succeeds_hand_over [OF m f s db len room this, of fuel z]
  obtain v db' w1 where run: "hand_over (proxy_vt fuel z) sid h (with_body db h body) w = Inr ((v, db'), w1)"
    using ho(1) by (auto simp: succeeds_def)
  have v: "v \<noteq> Some False" using yieldsD [OF run managed_hand_over [OF m]] by simp
  have cl: "calm w w1" using yieldsD [OF run plogic.hand_over_calm] by simp
  obtain s1 where s1: "w_sessions w1 sid = Some s1" "calm_session s s1" using calm_session_at [OF cl s] by blast
  have r1: "s_recv s1 = Some (name, b)" using s1(2) r by (simp add: calm_session_def)
  obtain r' where cr: "consume (name, b) (of_nat (PROTO_HEAD_SIZE + length body)) = Inr r'"
    using consume_recv [OF b pf(3)] by blast
  have g1: "get_session sid w1 = Inr s1" using s1(1) by simp
  have pick: "pick_a_entire_msg (proxy_vt fuel z) sid db w = Inr ((True, db'), put_session sid (s1\<lparr>s_recv := r'\<rparr>) w1)"
    unfolding pf(1) run rbind_Inr prod.case if_not_P [OF v] g1 r1 option.case cr ..
  from s good db split pick show ?thesis
  proof (cases rule: plogic.pick_round)
    case (moved v' w2 s2 r2)
    have same: "v' = v" "w2 = w1" "s2 = s1" using moved(3,5) run s1(1) by simp_all
    let ?s = "s2\<lparr>s_recv := r2\<rparr>" and ?w = "put_session sid (s1\<lparr>s_recv := r'\<rparr>) w1"
    have w': "?w = put_session sid ?s w1" using moved(6) same by simp
    have u: "unverified (s_logic s)" if "unverified (s_logic s1)"
    proof (rule ccontr)
      assume n: "\<not> unverified (s_logic s)"
      have "s_logic s \<noteq> None" using m s by (cases rule: managed_cases) auto
      with n have "settled sid w" using s by (simp add: settled_def)
      from yieldsD [OF run ho(2) [OF this]] that s1(1) show False by (simp add: settled_def)
    qed
    have "live sid ?w" if "live sid w"
      using live_calm [OF that cl] s1(1) by (auto simp: live_def)
    then have "harmless_frames sid ?s fs ?w"
      using ok u harmless_mono unfolding harmless_frames_def same by fastforce
    with pick moved(2,8,9) w' show ?thesis
      by (intro exI [of _ db'] exI [of _ ?w] exI [of _ ?s]) simp
  qed simp
qed

lemma succeeds_loop:
  assumes "idle k sid w" "fitted c w" "block_ok db" "w_sessions w sid = Some s"
    and "length (recv_content (s_recv s)) < PROTO_HEAD_SIZE * n"
    and "harmless_frames sid s (fst (split_frames (recv_content (s_recv s)))) w"
  shows "succeeds (pick_loop n (proxy_vt fuel z) sid db w)"
  using assms
proof (induction n arbitrary: w s db)
  case (Suc n)
  let ?bs = "recv_content (s_recv s)"
  have "world_ok k w" using Suc.prems(1) by (simp add: idle_def)
  then have good: "recv_good (s_recv s)" using world_ok_session Suc.prems(4) by (auto simp: reading_def)
  show ?case
  proof (cases "fst (split_frames ?bs)")
    case Nil
    then show ?thesis by (simp add: pick_nothing [OF Suc.prems(4) good])
  next
    case (Cons f fs)
    obtain h body where hb: "f = (h, body)" by (cases f)
    have split: "split_frames ?bs = ((h, body) # fs, snd (split_frames ?bs))"
      using Cons hb by (metis prod.collapse)
    have "harmless_frames sid s ((h, body) # fs) w" using Suc.prems(6) Cons hb by simp
    from succeeds_pick [OF Suc.prems(1-4) split this, of fuel z] obtain db' w' s' where
      p: "pick_a_entire_msg (proxy_vt fuel z) sid db w = Inr ((True, db'), w')" "block_ok db'"
        "w_sessions w' sid = Some s'" "recv_content (s_recv s') = drop (PROTO_HEAD_SIZE + length body) ?bs"
        "split_frames (recv_content (s_recv s')) = (fs, snd (split_frames ?bs))" "harmless_frames sid s' fs w'" by blast
    have "idle k sid w'" "fitted c w'"
      using yieldsD [OF p(1) idle_pick [OF Suc.prems(1,3)]] yieldsD [OF p(1) fitted_pick [OF Suc.prems(2)]] by simp_all
    moreover have "length (recv_content (s_recv s')) < PROTO_HEAD_SIZE * n"
      using Suc.prems(5) split_frames_length [OF split] p(4) by simp
    ultimately have "succeeds (pick_loop n (proxy_vt fuel z) sid db' w')"
      using Suc.IH p(2,3,5,6) by simp
    then show ?thesis by (simp add: p(1))
  qed
qed simp

lemma succeeds_recv_loop: "w_sessions w sid = Some s \<Longrightarrow> succeeds (async_recv_loop sid w)"
  by (simp add: async_recv_loop_def get_session_def Let_def split: prod.split)

lemma succeeds_pick_entire:
  assumes idle: "idle k sid w" and f: "fitted c w" and s: "w_sessions w sid = Some s"
    and ok: "harmless_frames sid s (fst (split_frames (recv_content (s_recv s)))) w"
  shows "succeeds (pick_entire_msgs (proxy_vt fuel z) sid w)"
proof -
  obtain db w1 where tb: "temp_buffer w = (db, w1)" by fastforce
  note w1 = pool_buffer_world [OF tb]
  have db: "block_ok db" using pool_buffer_block [OF tb] by (simp add: block_ok_def)
  have wok: "world_ok k w" using idle by (simp add: idle_def)
  have idle1: "idle k sid w1" by (rule idle_pool_buffer [OF idle tb])
  have "recv_good (s_recv s)" using world_ok_session [OF wok s] by (simp add: reading_def)
  then have "length (recv_content (s_recv s)) < PROTO_HEAD_SIZE * pick_fuel" by (rule pick_fuel_enough)
  moreover have "harmless_frames sid s (fst (split_frames (recv_content (s_recv s)))) w1"
    using ok w1 by (simp add: harmless_frames_def live_def)
  ultimately have "succeeds (pick_loop pick_fuel (proxy_vt fuel z) sid db w1)"
    using w1 s by (intro succeeds_loop [OF idle1 fitted_pool_buffer [OF f tb] db]) simp_all
  moreover have "yields (pick_loop pick_fuel (proxy_vt fuel z) sid db w1) (idle k sid)"
    by (rule idle_loop [OF idle1 db])
  moreover have "succeeds (async_recv_loop sid v)" if "idle k sid v" for v
    using that by (auto simp: idle_def intro: succeeds_recv_loop)
  ultimately show ?thesis
    unfolding pick_entire_msgs_def tb Let_def prod.case by (rule succeeds_bind)
qed

section \<open>Every handler succeeds\<close>

lemma live_open: "fitted c w \<Longrightarrow> w_sessions w sid = Some s \<Longrightarrow> s_open s \<Longrightarrow> live sid w"
  by (auto simp: live_def fit_def dest: fitted_session)

lemma succeeds_close: "w_sessions w sid = Some s \<Longrightarrow> succeeds (close_session sid e w)"
  by (simp add: close_session_def get_session_def)

text \<open>A read that brings the bytes \<open>bs\<close>, up to the packet loop it ends in.\<close>

lemma read_done_loop:
  assumes ok: "world_ok k w" and f: "fitted c w" and s: "w_sessions w sid = Some s"
    and en: "enabled (ReadDone sid ec bs) w"
  shows "\<exists>v t. read_done (proxy_vt fuel z) sid ec bs w = pick_entire_msgs (proxy_vt fuel z) sid v
    \<and> idle k sid v \<and> fitted c v \<and> w_sessions v sid = Some t \<and> w_env v = w_env w
    \<and> (\<exists>cs r. t = s\<lparr>s_reads := [], s_last_recv_time := w_now w, s_closes := cs, s_recv := r\<rparr>)
    \<and> recv_content (s_recv t) = recv_content (s_recv s) @ bs"
proof -
  from read_done_starts [OF ok s en, of fuel z] obtain t cs r where
    t: "read_done (proxy_vt fuel z) sid ec bs w = pick_entire_msgs (proxy_vt fuel z) sid (put_session sid t w)"
      "idle k sid (put_session sid t w)" "recv_content r = recv_content (s_recv s) @ bs"
      "t = s\<lparr>s_reads := [], s_last_recv_time := w_now w, s_closes := cs, s_recv := r\<rparr>" by blast
  have "fitted c (put_session sid t w)"
    using fitted_session [OF f s] t(4) by (intro fitted_put [OF f]) (simp add: fit_def)
  with t show ?thesis by (intro exI [of _ "put_session sid t w"] exI [of _ t]) auto
qed

lemma succeeds_read_done:
  assumes ok: "world_ok k w" and f: "fitted c w" and s: "w_sessions w sid = Some s"
    and en: "enabled (ReadDone sid ec bs) w"
    and fs: "fs = fst (split_frames (recv_content (s_recv s) @ bs))"
      "\<forall>f \<in> set fs. harmless (unverified (s_logic s)) f" "unverified (s_logic s) \<and> fs \<noteq> [] \<longrightarrow> s_open s"
  shows "succeeds (read_done (proxy_vt fuel z) sid ec bs w)"
proof -
  from read_done_loop [OF ok f s en, of fuel z] obtain v t where
    v: "read_done (proxy_vt fuel z) sid ec bs w = pick_entire_msgs (proxy_vt fuel z) sid v"
      "idle k sid v" "fitted c v" "w_sessions v sid = Some t" "s_logic t = s_logic s"
      "s_open t = s_open s" "recv_content (s_recv t) = recv_content (s_recv s) @ bs" by auto
  have "harmless_frames sid t (fst (split_frames (recv_content (s_recv t)))) v"
    using fs v live_open [OF v(3,4)] by (auto simp: harmless_frames_def)
  then show ?thesis unfolding v(1) by (rule succeeds_pick_entire [OF v(2-4)])
qed

lemma succeeds_tick_alive:
  assumes m: "managed k w" and s: "w_sessions w sid = Some s"
  shows "succeeds (tick_alive (proxy_wrap fuel z) sid w)"
proof -
  obtain b w1 where tb: "temp_buffer w = (b, w1)" by fastforce
  obtain data where d: "send_block (b\<lparr>buf_offset := of_nat PROTO_HEAD_SIZE, buf_length := 0\<rparr>) data"
    using send_blockI [of "b\<lparr>buf_offset := of_nat PROTO_HEAD_SIZE, buf_length := 0\<rparr>"] pool_buffer_block [OF tb] by auto
  have "w_sessions w1 sid = Some s" using pool_buffer_world [OF tb] s by simp
  then have "succeeds (async_send (proxy_wrap fuel z) sid (b\<lparr>buf_offset := of_nat PROTO_HEAD_SIZE, buf_length := 0\<rparr>) NoCallback w1)"
    by (rule succeeds_send [OF managed_pool_buffer [OF m tb] _ d])
  moreover have "get_session sid w = Inr s" using s by simp
  ultimately show ?thesis
    unfolding tick_alive_def tb Let_def prod.case by (simp only: rbind_Inr) (simp add: kick_def succeeds_close [OF s])
qed

lemma succeeds_fixed_tick:
  assumes m: "managed k w" and t: "ticks_at c sid w" and c: "0 < cfg_tick_interval c" "cfg_tick_interval c \<le> 1000"
  shows "succeeds (fixed_tick (proxy_wrap fuel z) sid w)"
proof -
  obtain s where s: "w_sessions w sid = Some s" "s_tick_interval s = uint (cfg_tick_interval c)"
    using t by (auto simp: ticks_at_def)
  have g: "get_session sid w = Inr s" using s by simp
  let ?t = "ucast (cfg_tick_interval c) :: u64"
  have tk: "word_of_int (s_tick_interval s) = ?t" unfolding s(2) by (rule ucast_eq [symmetric])
  have u: "unat ?t = unat (cfg_tick_interval c)" by (rule unat_ucast_up) simp
  have "0 < unat ?t" "unat ?t \<le> 1000"
    using c unfolding u by (simp_all add: word_less_nat_alt word_le_nat_alt)
  moreover from this have "0 < 1000 div unat ?t" by (simp add: div_greater_zero_iff)
  ultimately have "?t \<noteq> 0" "1000 div ?t \<noteq> 0" by (auto simp: unat_div simp flip: unat_eq_0)
  then obtain eff count where e: "is_tick_frame_effective ?t KEEP_ALIVE_PRECISION (s_frame_count s) = Inr (eff, count)"
    by (simp add: is_tick_frame_effective_def Let_def)
  let ?w = "put_session sid (s\<lparr>s_frame_count := count\<rparr>) w"
  have m1: "managed k ?w" by (rule managed_same [OF m]) (simp_all add: same_uids_def s(1))
  have "succeeds (if eff then tick_alive (proxy_wrap fuel z) sid ?w else Inr ?w)"
    using succeeds_tick_alive [OF m1] by simp
  moreover have "yields (if eff then tick_alive (proxy_wrap fuel z) sid ?w else Inr ?w) (\<lambda>v. \<exists>t. w_sessions v sid = Some t)"
    by (rule yields_if, rule yields_mono [OF calm_tick_alive]) (auto dest: calm_session_at [of ?w])
  ultimately show ?thesis
    unfolding fixed_tick_def g rbind_Inr tk e prod.case Let_def
    by (rule succeeds_bind) (auto intro: succeeds_upd_session)
qed

lemma succeeds_tick_timer:
  assumes ok: "world_ok k w" and f: "fitted c w" and en: "enabled (TickTimer sid ec) w"
    and c: "0 < cfg_tick_interval c" "cfg_tick_interval c \<le> 1000"
  shows "succeeds (tick_timer_done (proxy_wrap fuel z) sid ec w)"
proof -
  let ?f = "\<lambda>s. if ec then s\<lparr>s_tick_cancelled := s_tick_cancelled s - 1\<rparr> else s\<lparr>s_tick_timer := False\<rparr>"
  obtain s where s: "w_sessions w sid = Some s" "s_tick_timer s \<or> 0 < s_tick_cancelled s"
    using en by (auto split: option.splits if_splits)
  then have i: "s_tick_interval s = uint (cfg_tick_interval c)"
    using fitted_session [OF f s(1)] by (auto simp: fit_def)
  have "managed k (put_session sid (?f s) w)"
    by (rule managed_same [OF world_ok_managed [OF ok]]) (simp_all add: same_uids_def s(1))
  moreover have "ticks_at c sid (put_session sid (?f s) w)" using i by (simp add: ticks_at_def)
  ultimately have "succeeds (fixed_tick (proxy_wrap fuel z) sid (put_session sid (?f s) w))"
    by (rule succeeds_fixed_tick [OF _ _ c])
  moreover have "upd_session sid ?f w = Inr (put_session sid (?f s) w)" using s(1) by (simp add: upd_session_Inr)
  ultimately show ?thesis by (simp only: tick_timer_done_def rbind_Inr)
qed

lemma succeeds_start_tick:
  assumes m: "managed k w" and s: "w_sessions w sid = Some s"
    and c: "0 < cfg_tick_interval c" "cfg_tick_interval c \<le> 1000"
  shows "succeeds (start_tick (proxy_wrap fuel z) sid (uint (cfg_tick_interval (c :: proxy_config))) t w)"
proof -
  let ?s = "s\<lparr>s_tick_interval := uint (cfg_tick_interval c), s_keep_alive_timeout := t,
      s_last_send_time := w_now w, s_last_recv_time := w_now w\<rparr>"
  have "managed k (put_session sid ?s w)"
    by (rule managed_same [OF m]) (simp_all add: same_uids_def s)
  moreover have "ticks_at c sid (put_session sid ?s w)" by (simp add: ticks_at_def)
  ultimately have "succeeds (fixed_tick (proxy_wrap fuel z) sid (put_session sid ?s w))"
    by (rule succeeds_fixed_tick [OF _ _ c])
  then show ?thesis using s
    by (simp add: start_tick_def upd_session_def get_session_def update_send_time_def update_recv_time_def put_session_def)
qed

lemma succeeds_accept:
  assumes "fitted c w" "cfg_session_thread_num c \<noteq> 0"
  shows "succeeds (accept_a_session cl f i t stale w)"
proof -
  let ?ex = "pm_session_excutor (w_env w)"
  have "(ucast (cfg_session_thread_num c) :: u64) \<noteq> 0"
    using assms(2) unat_ucast_up [of "cfg_session_thread_num c", where ?'b = 64] by (simp flip: unat_eq_0)
  then have "je_strand_num ?ex \<noteq> 0" using assms(1) by (simp add: fitted_def)
  then have "succeeds (new_session ?ex au cl f i t now)" for au now
    by (simp add: new_session_def agent_strand_def strand_to_run_def)
  moreover have "succeeds (modify_session_logic apply_session sid l (put_session sid s v))" for sid l s v
    unfolding modify_session_logic_def by (rule succeeds_upd_session) simp
  ultimately show ?thesis
    unfolding accept_a_session_def Let_def
    by (auto intro!: succeeds_bind [OF _ yields_True] split: prod.split)
qed

lemma succeeds_passive:
  assumes "world_ok (None, n) v" "fitted c v" "w_sessions v sid = Some t" "s_reads t = []"
  shows "succeeds (passively_connect_succ sid v)"
    and "yields (passively_connect_succ sid v) (\<lambda>x. managed (None, n) x \<and> fitted c x \<and> (\<exists>t. w_sessions x sid = Some t))"
proof -
  have g: "upd_session sid (\<lambda>s. s\<lparr>s_state := CONNECTING\<rparr>) v = Inr (put_session sid (t\<lparr>s_state := CONNECTING\<rparr>) v)"
    using assms(3) by (simp add: upd_session_Inr)
  show "succeeds (passively_connect_succ sid v)"
    unfolding passively_connect_succ_def g rbind_Inr by (rule succeeds_recv_loop) simp
  have "yields (passively_connect_succ sid v) (\<lambda>x. \<exists>t. w_sessions x sid = Some t)"
    unfolding passively_connect_succ_def g rbind_Inr
    by (rule yields_mono [OF states_recv_loop [OF states_refl]])
      (auto dest: states_at [of "put_session sid (t\<lparr>s_state := CONNECTING\<rparr>) v"])
  then show "yields (passively_connect_succ sid v) (\<lambda>x. managed (None, n) x \<and> fitted c x \<and> (\<exists>t. w_sessions x sid = Some t))"
    using world_ok_passive [OF assms(1,3,4)] fitted_passive [OF assms(2), of sid]
    by (auto simp: yields_def world_ok_def)
qed

lemma succeeds_accept_done:
  assumes ok: "world_ok k w" and f: "fitted c w" and en: "enabled (Accepted ec ip) w"
    and c: "0 < cfg_tick_interval c" "cfg_tick_interval c \<le> 1000"
  shows "succeeds (accept_done fuel z ec ip w)"
proof -
  obtain sid where a: "pm_accepting (w_env w) = Some sid" using en by auto
  have k: "k = (Some sid, snd k)" "pm_next_session (w_env w) = snd k"
    using a world_ok_managed [OF ok] by (auto simp: managed_def)
  obtain s where s: "w_sessions w sid = Some s" "fresh s" using ok k(1) by (metis world_ok_def fst_conv)
  let ?k = "(None, snd k)" and ?w = "upd_env (\<lambda>e. e\<lparr>pm_accepting := None\<rparr>) w"
  let ?up = "upd_session sid (\<lambda>s. s\<lparr>s_open := True, s_remote_ip := Some ip\<rparr>) ?w"
  have s': "w_sessions ?w sid = Some s" using s(1) by (simp add: upd_env_def)
  have ok1: "world_ok ?k ?w" by (rule world_ok_env [OF ok]) (use k in simp_all)
  have f1: "fitted c ?w" by (rule fitted_env [OF f]) simp_all
  define Q where "Q v \<longleftrightarrow> world_ok ?k v \<and> fitted c v \<and> (\<exists>t. w_sessions v sid = Some t \<and> s_reads t = [])" for v
  have up: "succeeds ?up" "yields ?up Q"
  proof -
    show "succeeds ?up" by (rule succeeds_upd_session [OF s'])
    have "yields ?up (fitted c)" by (rule fitted_upd [OF f1]) (simp add: fit_def)
    then show "yields ?up Q"
      using world_ok_opened [OF ok1 s' s(2), of ip] s' s(2)
      by (auto simp: Q_def yields_def upd_session_Inr fresh_def)
  qed
  have reg: "Q (upd_env (\<lambda>e. e\<lparr>pm_un_managed_sessions := snd (hm_insert (pm_un_managed_sessions e) (s_uuid t) sid)\<rparr>) v)"
    if "Q v" "w_sessions v sid = Some t" for v t
  proof -
    have "fitted c (upd_env (\<lambda>e. e\<lparr>pm_un_managed_sessions := snd (hm_insert (pm_un_managed_sessions e) (s_uuid t) sid)\<rparr>) v)"
      using that(1) by (intro fitted_env) (auto simp: Q_def)
    with that show ?thesis using world_ok_registered [of "snd k" v sid t] by (auto simp: Q_def upd_env_def)
  qed
  have pass: "succeeds (passively_connect_succ sid v)"
      "yields (passively_connect_succ sid v) (\<lambda>x. managed ?k x \<and> fitted c x \<and> (\<exists>t. w_sessions x sid = Some t))"
    if "Q v" for v
    using that succeeds_passive by (auto simp: Q_def)
  have tick: "succeeds (start_tick (proxy_wrap fuel z) sid (uint (cfg_tick_interval (pm_config (w_env x)))) i x)"
    if "managed ?k x \<and> fitted c x \<and> (\<exists>t. w_sessions x sid = Some t)" for x i
    using that succeeds_start_tick [OF _ _ c] by (auto simp: fitted_def)
  have "succeeds (rbind ?up (\<lambda>w. rbind (get_session sid w) (\<lambda>s.
      rbind (passively_connect_succ sid (upd_env (\<lambda>e. e\<lparr>pm_un_managed_sessions := snd (hm_insert (pm_un_managed_sessions e) (s_uuid s) sid)\<rparr>) w)) (\<lambda>w.
      start_tick (proxy_wrap fuel z) sid (uint (cfg_tick_interval (pm_config (w_env w))))
        (uint (cfg_keep_alive_timeout (pm_config (w_env w)))) w))))"
  proof (rule succeeds_bind [OF up])
    fix v assume Q: "Q v"
    then obtain t where t: "w_sessions v sid = Some t" by (auto simp: Q_def)
    then have g: "get_session sid v = Inr t" by simp
    show "succeeds (rbind (get_session sid v) (\<lambda>s.
      rbind (passively_connect_succ sid (upd_env (\<lambda>e. e\<lparr>pm_un_managed_sessions := snd (hm_insert (pm_un_managed_sessions e) (s_uuid s) sid)\<rparr>) v)) (\<lambda>w.
      start_tick (proxy_wrap fuel z) sid (uint (cfg_tick_interval (pm_config (w_env w))))
        (uint (cfg_keep_alive_timeout (pm_config (w_env w)))) w)))"
      unfolding g rbind_Inr by (rule succeeds_bind [OF pass [OF reg [OF Q t]] tick])
  qed
  then show ?thesis by (simp add: accept_done_def a Let_def del: rbind_Inr)
qed

lemma succeeds_write_done:
  assumes s: "w_sessions w sid = Some s"
  shows "succeeds (write_done sid ec w)"
proof -
  have "succeeds (close_session h e (put_session sid (s\<lparr>s_writes := ws\<rparr>) w))"
    if "w_sessions (put_session sid (s\<lparr>s_writes := ws\<rparr>) w) h \<noteq> None" for h e ws
    using that succeeds_close by blast
  then show ?thesis
    using s by (simp add: write_done_def get_session_def kick_def Let_def split: list.split send_callback.split option.split)
qed

text \<open>
  The configurations the proxy can work with, and the reads it survives: the packets in what is
  left from before and what is new are harmless, and the socket of a session that is to
  authenticate is still open.
\<close>

definition sane_config :: "proxy_config \<Rightarrow> bool" where
  "sane_config c \<longleftrightarrow> cfg_session_thread_num c \<noteq> 0 \<and> 0 < cfg_tick_interval c \<and> cfg_tick_interval c \<le> 1000"

fun acceptable :: "proxy_event \<Rightarrow> proxy_world \<Rightarrow> bool" where
  "acceptable (ReadDone sid ec bs) w \<longleftrightarrow>
     (case w_sessions w sid of None \<Rightarrow> True
      | Some s \<Rightarrow> let fs = fst (split_frames (recv_content (s_recv s) @ bs)) in
          (\<forall>f \<in> set fs. harmless (unverified (s_logic s)) f)
          \<and> (unverified (s_logic s) \<and> fs \<noteq> [] \<longrightarrow> s_open s))"
| "acceptable e w \<longleftrightarrow> True"

lemma succeeds_handler:
  assumes ok: "world_ok k w" and f: "fitted c w" and c: "sane_config c" and en: "enabled e w" and a: "acceptable e w"
  shows "succeeds (proxy_handler fuel z e w)"
proof -
  have c': "cfg_session_thread_num c \<noteq> 0" "0 < cfg_tick_interval c" "cfg_tick_interval c \<le> 1000"
    using c by (simp_all add: sane_config_def)
  show ?thesis
  proof (cases e)
    case (Accepting cl f' i t d)
    show ?thesis unfolding Accepting proxy_handler.simps by (rule succeeds_accept [OF f c'(1)])
  next
    case (Accepted ec ip)
    show ?thesis unfolding Accepted proxy_handler.simps
      by (rule succeeds_accept_done [OF ok f en [unfolded Accepted] c'(2,3)])
  next
    case (ReadDone sid ec bs)
    then obtain s where s: "w_sessions w sid = Some s" using en by (auto split: option.splits)
    show ?thesis unfolding ReadDone proxy_handler.simps
      by (rule succeeds_read_done [OF ok f s en [unfolded ReadDone] refl]) (use a s ReadDone in \<open>auto simp: Let_def\<close>)
  next
    case (WriteDone sid ec)
    then show ?thesis using en by (auto simp: succeeds_write_done split: option.splits)
  next
    case (CloseTask sid)
    then show ?thesis using en by (auto simp: close_task_def intro: succeeds_upd_session split: option.splits)
  next
    case (RetryTimer sid ec)
    then show ?thesis using world_ok_retry [OF ok] en by metis
  next
    case (TickTimer sid ec)
    show ?thesis unfolding TickTimer proxy_handler.simps
      by (rule succeeds_tick_timer [OF ok f en [unfolded TickTimer] c'(2,3)])
  qed simp_all
qed

section \<open>Packets that are not harmless\<close>

text \<open>A read that brings exactly one packet on an empty buffer faults when handing it over does.\<close>

lemma read_one_faults:
  assumes ok: "world_ok k w" and f: "fitted c w" and s: "w_sessions w sid = Some s"
    and en: "enabled (ReadDone sid False bs) w"
    and bs: "recv_content (s_recv s) = []" "split_frames bs = ([(h, body)], [])"
    and ho: "\<And>db v t. block_ok db \<Longrightarrow> managed k v \<Longrightarrow> fitted c v \<Longrightarrow> w_sessions v sid = Some t \<Longrightarrow>
        s_logic t = s_logic s \<Longrightarrow> s_open t = s_open s \<Longrightarrow> length body = unat (head_len h) \<Longrightarrow> length body \<le> 65525 \<Longrightarrow>
        hand_over (proxy_vt fuel z) sid h (with_body db h body) v = Inl flt"
  shows "read_done (proxy_vt fuel z) sid False bs w = Inl flt"
proof -
  from read_done_loop [OF ok f s en, of fuel z] obtain v t where
    v: "read_done (proxy_vt fuel z) sid False bs w = pick_entire_msgs (proxy_vt fuel z) sid v"
      "idle k sid v" "fitted c v" "w_sessions v sid = Some t" "s_logic t = s_logic s"
      "s_open t = s_open s" "recv_content (s_recv t) = bs" using bs(1) by auto
  obtain db v1 where tb: "temp_buffer v = (db, v1)" by fastforce
  note v1 = pool_buffer_world [OF tb]
  have wok: "world_ok k v" using v(2) by (simp add: idle_def)
  have m1: "managed k v1" using managed_pool_buffer [OF world_ok_managed [OF wok] tb] .
  have f1: "fitted c v1" using fitted_pool_buffer [OF v(3) tb] .
  have t1: "w_sessions v1 sid = Some t" using v1 v(4) by simp
  have db: "block_ok db" using pool_buffer_block [OF tb] by (simp add: block_ok_def)
  have good: "recv_good (s_recv t)" using world_ok_session [OF wok v(4)] by (simp add: reading_def)
  obtain name b where r: "s_recv t = Some (name, b)"
    using bs(2) v(7) by (cases "s_recv t") (auto simp: split_frames_short)
  have b: "recv_ok b" "split_frames (recv_bytes b) = ([(h, body)], [])" using good bs(2) v(7) r by simp_all
  note pf = pick_frame [OF t1 r b(1) db b(2)]
  have len: "length body = unat (head_len h)"
    using split_frames_bytes [of bs] bs(2) by (simp add: frame_ok_def)
  have room: "length body \<le> 65525" using pf(3) b(1) by (simp add: recv_ok_def)
  have "pick_a_entire_msg (proxy_vt fuel z) sid db v1 = Inl flt"
    unfolding pf(1) ho [OF db m1 f1 t1 v(5,6) len room] by simp
  then have "pick_loop pick_fuel (proxy_vt fuel z) sid db v1 = Inl flt" by (simp only: pick_loop_once rbind_Inl)
  then show ?thesis unfolding v(1) pick_entire_msgs_def tb Let_def prod.case by simp
qed

lemma hand_over_unverified:
  assumes m: "managed k v" and t: "w_sessions v sid = Some t" "s_logic t = Some (Default d)"
    and db: "block_ok db" and len: "length body = unat (head_len h)"
    and acc: "dl_authentication d = BEFORE_VERIFY" "head_seq h = dl_seq d + 1" "get_mask (head_bytes h) body 0 = 0"
    and flt: "\<And>v'. managed k v' \<Longrightarrow> w_sessions v' sid = Some (t\<lparr>s_logic := Some (Default (d\<lparr>dl_seq := dl_seq d + 1\<rparr>))\<rparr>) \<Longrightarrow>
      verify_authentication fuel z sid (d\<lparr>dl_seq := dl_seq d + 1\<rparr>) (with_body db h body) (get_cmd h) v' = Inl flt"
  shows "hand_over (proxy_vt fuel z) sid h (with_body db h body) v = Inl flt"
proof -
  obtain ub v1 where tb: "temp_buffer v = (ub, v1)" by fastforce
  have t1: "w_sessions v1 sid = Some t" using pool_buffer_world [OF tb] t(1) by simp
  have g: "get_logic sid v1 = Inr (Default d)" using t1 t(2) by (simp add: get_logic_def get_session_def)
  let ?d = "d\<lparr>dl_seq := dl_seq d + 1\<rparr>"
  let ?v = "put_session sid (t\<lparr>s_logic := Some (Default ?d)\<rparr>) v1"
  have set': "set_logic sid (Default ?d) v1 = Inr ?v" by (rule set_logic_at [OF t1])
  have "dl_session_holder d = Some sid" using m t by (cases rule: managed_cases) auto
  then have "managed k ?v"
    using yieldsD [OF set' managed_set_default [OF managed_pool_buffer [OF m tb]]] g by simp
  from flt [OF this] have fv: "verify_authentication fuel z sid ?d (with_body db h body) (get_cmd h) ?v = Inl flt" by simp
  show ?thesis
    unfolding hand_over_def tb Let_def prod.case proxy_vt_def vtable.simps g rbind_Inr proxy_unwrap.simps
      default_unwrap_def set' mask_ok_at [OF block_body(1) [OF db len]]
    using acc fv by simp
qed

lemma short_request_hand_over:
  assumes m: "managed k v" and t: "w_sessions v sid = Some t" "s_logic t = Some (Default d)"
    and db: "block_ok db" and len: "length body = unat (head_len h)" "3 \<le> length body" "length body \<le> 7"
    and acc: "dl_authentication d = BEFORE_VERIFY" "head_seq h = dl_seq d + 1" "get_mask (head_bytes h) body 0 = 0"
  shows "hand_over (proxy_vt fuel z) sid h (with_body db h body) v = Inl OutOfBounds"
proof (rule hand_over_unverified [OF m t db len(1) acc])
  show "verify_authentication fuel z sid (d\<lparr>dl_seq := dl_seq d + 1\<rparr>) (with_body db h body) (get_cmd h) v' = Inl OutOfBounds" for v'
    using request_in_block(2) [OF block_body(3,2) [OF db len(1)]] len by (simp add: verify_authentication_def)
qed

text \<open>A broadcast that names more targets than it has room for: the length of the rest wraps around.\<close>

lemma bad_broadcast_store:
  assumes d: "payload data = Inr body" "buf_SIZE data = ONCE_BUFFER_SIZE" "unat (buf_offset data) = 7" "body \<noteq> []" "length body \<le> 65525"
    and h: "get_cmd h = cmd_code Commands_BroadCast" "\<not> broadcast_ok body"
  shows "server_store fuel z l data h w = Inl OutOfBounds"
proof -
  have l: "unat (buf_length data) = length body" using d(1) by (auto simp: payload_def buf_get_Inr_iff)
  obtain sb where g: "buf_get data (buffer_at data 0) 2 = Inr sb" and sb: "2 \<le> length body \<longrightarrow> sb = take 2 body"
  proof (cases "2 \<le> length body")
    case True
    then have "buf_get data (buffer_at data 0) 2 = Inr (take 2 body)"
      using payload_part [OF d(1), of 0 2 0] d by simp
    then show ?thesis by (rule that) simp
  next
    case False
    have "\<exists>sb. buf_get data (buffer_at data 0) 2 = Inr sb" using d(2,3) by (simp add: buf_get_def)
    with False that show ?thesis by blast
  qed
  let ?n = "unat (read_uint16 sb)" and ?size = "ucast (read_uint16 sb) :: u64"
  have n: "length body < 2 + 4 * ?n"
  proof (cases "2 \<le> length body")
    case True
    then show ?thesis using h(2) sb by (simp add: broadcast_ok_def)
  next
    case False
    then show ?thesis by simp
  qed
  have m: "?n < 65536" by (rule len16_less)
  have u: "unat ?size = ?n" by simp
  have k: "unat (2 + 4 * ?size) = 2 + 4 * ?n"
  proof -
    have "unat (4 * ?size) = 4 * ?n" using m by (simp add: unat_word_ariths)
    then show ?thesis using m by (subst unat_add_small) simp_all
  qed
  have lt: "buf_length data < 2 + 4 * ?size" using l k n by (simp add: word_less_nat_alt)
  have "unat (buf_length data - (2 + 4 * ?size)) = 2 ^ 64 + length body - (2 + 4 * ?n)"
    using n l k by (simp add: unat_sub_if_size word_le_nat_alt word_size)
  then have "unat (buf_SIZE data) < unat (buf_length data - (2 + 4 * ?size))" using d(2) m by simp
  then have "buf_get data p (unat (buf_length data - (2 + 4 * ?size))) = Inl OutOfBounds" for p
    by (simp add: buf_get_def)
  then show ?thesis
    using h(1) g by (simp add: server_store_def Let_def split_beta)
qed

lemma bad_broadcast_hand_over:
  assumes s: "w_sessions w sid = Some s" "s_logic s = Some (Server l)" and db: "block_ok db"
    and b: "length body = unat (head_len h)" "body \<noteq> []" "length body \<le> 65525"
    and acc: "head_seq h = sl_seq l + 1" "get_mask (head_bytes h) body 0 = 0"
    and h: "get_cmd h = cmd_code Commands_BroadCast" "\<not> broadcast_ok body"
  shows "hand_over (proxy_vt fuel z) sid h (with_body db h body) w = Inl OutOfBounds"
proof -
  obtain ub w1 where tb: "temp_buffer w = (ub, w1)" by fastforce
  note ub = pool_buffer_block [OF tb]
  have s1: "w_sessions w1 sid = Some s" using pool_buffer_world [OF tb] s(1) by simp
  have g: "get_logic sid w1 = Inr (Server l)" using s1 s(2) by (simp add: get_logic_def get_session_def)
  let ?r = "ub\<lparr>buf_offset := prefix_size (Server l)\<rparr>" and ?l = "l\<lparr>sl_seq := sl_seq l + 1\<rparr>"
  let ?w = "put_session sid (s\<lparr>s_logic := Some (Server ?l)\<rparr>) w1"
  have "unat (buf_offset ?r) + length body \<le> unat (buf_SIZE ?r)" using ub b(3) by simp
  from server_unwrap_verdict [OF s1 block_body(1) [OF db b(1)] this, of l] obtain r' where
    un: "server_unwrap sid l (with_body db h body) h ?r w1 = Inr ((True, with_body db h body, r'), ?w)"
      "same_block ?r r'" "payload r' = Inr body"
    using acc b(2) by auto
  have g2: "get_logic sid ?w = Inr (Server ?l)" by (simp add: get_logic_def get_session_def)
  have "server_store fuel z ?l r' h ?w = Inl OutOfBounds"
    by (rule bad_broadcast_store [OF un(3) _ _ b(2,3) h]) (use un(2) ub in \<open>simp_all add: same_block_def\<close>)
  then show ?thesis
    unfolding hand_over_def tb Let_def prod.case proxy_vt_def vtable.simps g rbind_Inr proxy_unwrap.simps un(1)
    by (simp add: g2)
qed

text \<open>
  A request that is read after its session's socket was closed: asking for the peer's address
  throws, and nobody catches it.
\<close>

lemma late_request_hand_over:
  assumes m: "managed k v" and t: "w_sessions v sid = Some t" "s_logic t = Some (Default d)" "\<not> s_open t"
    and db: "block_ok db" and len: "length body = unat (head_len h)" "length body < 3 \<or> 7 < length body"
    and acc: "dl_authentication d = BEFORE_VERIFY" "head_seq h = dl_seq d + 1" "get_mask (head_bytes h) body 0 = 0"
      "get_cmd h = cmd_code Commands_AuthenticationAAA"
  shows "hand_over (proxy_vt fuel z) sid h (with_body db h body) v = Inl Aborted"
proof (rule hand_over_unverified [OF m t(1,2) db len(1) acc(1-3)])
  fix v' :: proxy_world
  let ?d = "d\<lparr>dl_seq := dl_seq d + 1\<rparr>"
  let ?t = "t\<lparr>s_logic := Some (Default ?d)\<rparr>"
  assume t': "w_sessions v' sid = Some ?t"
  obtain req where req: "aaa_request_unpack (\<lambda>o' n. buf_get (with_body db h body) (buffer_at (with_body db h body) (of_nat o')) n)
      (ucast (buf_length (with_body db h body))) = Inr req"
    using request_in_block(1) [OF block_body(3,2) [OF db len(1)]] len by auto
  have hd: "dl_session_holder d = Some sid" using m t by (cases rule: managed_cases) auto
  show "verify_authentication fuel z sid ?d (with_body db h body) (get_cmd h) v' = Inl Aborted"
    unfolding verify_authentication_def req rbind_Inr Let_def
    using t' t(3) hd acc(4)
    by (simp add: store_default_def get_logic_def get_session_def set_logic_at lock_holder_def get_remote_ip_def
        split: option.split)
qed

lemma one_packet_bytes:
  assumes "one_packet bs h data"
  shows "bs = head_bytes h @ data" "length bs = PROTO_HEAD_SIZE + length data" "length data = unat (head_len h)"
proof -
  note fr = split_frames_bytes [of bs]
  show b: "bs = head_bytes h @ data" using fr assms by (simp add: one_packet_def frame_bytes_def)
  show "length data = unat (head_len h)" using fr assms by (simp add: one_packet_def frame_ok_def)
  show "length bs = PROTO_HEAD_SIZE + length data" by (simp add: b)
qed

text \<open>A single packet read in a reachable state, on an empty receive buffer.\<close>

lemma reachable_read_faults:
  assumes "proxy_reachable fuel z w" "w_sessions w sid = Some s" "s_reads s \<noteq> []" "recv_content (s_recv s) = []"
    and "one_packet bs h data" "length data \<le> 65525"
    and ho: "\<And>k db v t. block_ok db \<Longrightarrow> managed k v \<Longrightarrow> w_sessions v sid = Some t \<Longrightarrow> s_logic t = s_logic s \<Longrightarrow>
        s_open t = s_open s \<Longrightarrow> length data = unat (head_len h) \<Longrightarrow>
        hand_over (proxy_vt fuel z) sid h (with_body db h data) v = Inl flt"
  shows "read_done (proxy_vt fuel z) sid False bs w = Inl flt"
proof -
  obtain k where ok: "world_ok k w" using proxy_reachable_inv [OF assms(1)] by (auto simp: proxy_inv_def)
  have split: "split_frames bs = ([(h, data)], [])" using assms(5) by (simp add: one_packet_def)
  have "length bs = PROTO_HEAD_SIZE + length data" by (rule one_packet_bytes(2) [OF assms(5)])
  moreover obtain pr where "s_reads s = [pr]" "unat (pr_pos pr) = 0" "unat (pr_room pr) = 65536"
    using one_read_in_room_at [OF ok assms(2)] assms(3,4) by auto
  ultimately have en: "enabled (ReadDone sid False bs) w" using assms(2,6) by simp
  show ?thesis
    by (rule read_one_faults [OF ok fitted_reachable [OF assms(1)] assms(2) en assms(4) split]) (rule ho)
qed

lemma sample_waits: "\<exists>w s d. sample_run [Accepted False 9] = Inr w \<and> w_sessions w 0 = Some s
    \<and> s_logic s = Some (Default d) \<and> dl_authentication d = BEFORE_VERIFY \<and> dl_seq d = 0 \<and> s_open s
    \<and> s_state s = CONNECTING \<and> recv_content (s_recv s) = [] \<and> s_writes s = []
    \<and> s_reads s = [\<lparr>pr_buffer = 0, pr_pos = 0, pr_room = 65536\<rparr>]
    \<and> map_of (pm_un_managed_sessions (w_env w)) (s_uuid s) = Some 0 \<and> pm_server_sessions (w_env w) = []
    \<and> sane_config (pm_config (w_env w))"
  by (simp add: sample_defs handler_defs recv_bytes_def default_reset_def sane_config_def)

section \<open>Properties\<close>



text \<open>C11: whoever can connect can end the proxy: a session that has not authenticated yet takes the first
  packet with the right sequence number and checksum for a request, and one of three to seven bytes
  makes the proxy read beyond its block, whatever its command and its bytes.\<close>

theorem short_request_crashes:
  assumes "proxy_reachable fuel z w" "w_sessions w sid = Some s" "s_logic s = Some (Default d)"
    and "dl_authentication d = BEFORE_VERIFY" "s_reads s \<noteq> []" "recv_content (s_recv s) = []"
    and "one_packet bs h data" "head_seq h = dl_seq d + 1" "3 \<le> length data" "length data \<le> 7"
  shows "read_done (proxy_vt fuel z) sid False bs w = Inl OutOfBounds"
proof (rule reachable_read_faults [OF assms(1,2,5-7)])
  show "length data \<le> 65525" using assms(10) by simp
qed (use assms in \<open>auto simp: one_packet_def intro: short_request_hand_over\<close>)

lemma short_request_crashes_witness:
  "\<exists>w h. sample_run [Accepted False 9] = Inr w
     \<and> read_done (proxy_vt 5 sample_zlib) 0 False (head_bytes h @ [1, 2, 3]) w = Inl OutOfBounds"
proof -
  let ?h = "seal_head (get_a_head FRAME_KEY 3 0 0 False 1) [1, 2, 3 :: byte]"
  have p: "one_packet (head_bytes ?h @ [1, 2, 3]) ?h [1, 2, 3]" by (rule sealed_one_packet) simp
  obtain w s d where r: "sample_run [Accepted False 9] = Inr w" "w_sessions w 0 = Some s" "s_logic s = Some (Default d)"
      "dl_authentication d = BEFORE_VERIFY" "dl_seq d = 0" "s_reads s \<noteq> []" "recv_content (s_recv s) = []"
    using sample_waits by auto
  from short_request_crashes [OF sample_run_reachable [OF r(1)] r(2-4,6,7) p] r(1,5) show ?thesis by auto
qed

text \<open>C12: a server ends the proxy with a broadcast that names more targets than it carries, or is too
  short to say how many: the length of the rest wraps around, and the copy leaves the block.\<close>

theorem bad_broadcast_crashes:
  assumes "w_sessions w sid = Some s" "s_logic s = Some (Server l)" "block_ok db"
    and "length body = unat (head_len h)" "body \<noteq> []" "length body \<le> 65525"
    and "head_seq h = sl_seq l + 1" "get_mask (head_bytes h) body 0 = 0"
    and "get_cmd h = cmd_code Commands_BroadCast" "\<not> broadcast_ok body"
  shows "hand_over (proxy_vt fuel z) sid h (with_body db h body) w = Inl OutOfBounds"
  by (rule bad_broadcast_hand_over [OF assms])

lemma bad_broadcast_crashes_witness:
  "\<exists>h db. hand_over (proxy_vt 5 sample_z) 0 h (with_body db h [2, 0, 1, 2])
     (sample_peers (Server \<lparr>sl_seq = 6, sl_server_info = sample_info, sl_session_holder = None\<rparr>)) = Inl OutOfBounds"
proof -
  let ?l = "\<lparr>sl_seq = 6, sl_server_info = sample_info, sl_session_holder = None\<rparr>"
  let ?h = "seal_head (get_a_head FRAME_KEY 4 0 (cmd_code Commands_BroadCast) False 7) [2, 0, 1, 2 :: byte]"
  let ?db = "\<lparr>buf_SIZE = ONCE_BUFFER_SIZE, buf_offset = 0, buf_length = 0, buf_bytes = (\<lambda>_. 0)\<rparr>"
  have "get_mask (head_bytes ?h) [2, 0, 1, 2] 0 = 0" by (rule seal_head_accepted) simp_all
  moreover have "\<not> broadcast_ok [2, 0, 1, 2]" by (simp add: broadcast_ok_def read_uint16_def)
  ultimately have "hand_over (proxy_vt 5 sample_z) 0 ?h (with_body ?db ?h [2, 0, 1, 2]) (sample_peers (Server ?l)) = Inl OutOfBounds"
    by (intro bad_broadcast_crashes [of _ _ "sample_peer (Server ?l)" ?l])
      (simp_all add: sample_peers_def sample_peer_def block_ok_def get_cmd_head)
  then show ?thesis by blast
qed

text \<open>C13: a request that is read after the session's socket was closed ends the proxy as well: asking for
  the peer's address throws.\<close>

theorem late_request_aborts:
  assumes "proxy_reachable fuel z w" "w_sessions w sid = Some s" "s_logic s = Some (Default d)" "\<not> s_open s"
    and "dl_authentication d = BEFORE_VERIFY" "s_reads s \<noteq> []" "recv_content (s_recv s) = []"
    and "one_packet bs h data" "head_seq h = dl_seq d + 1" "get_cmd h = cmd_code Commands_AuthenticationAAA"
    and "length data < 3 \<or> 7 < length data" "length data \<le> 65525"
  shows "read_done (proxy_vt fuel z) sid False bs w = Inl Aborted"
  by (rule reachable_read_faults [OF assms(1,2,6-8,12)])
    (use assms in \<open>auto simp: one_packet_def intro!: late_request_hand_over [where d = d]\<close>)

lemma sample_closed_waits: "\<exists>w s d. sample_run [Accepted False 9, ReadDone 0 True [], CloseTask 0] = Inr w
    \<and> w_sessions w 0 = Some s \<and> s_logic s = Some (Default d) \<and> dl_authentication d = BEFORE_VERIFY
    \<and> dl_seq d = 0 \<and> \<not> s_open s \<and> recv_content (s_recv s) = [] \<and> s_reads s \<noteq> []"
  by (simp add: sample_defs handler_defs recv_bytes_def default_reset_def)

lemma late_request_aborts_witness:
  "\<exists>w h. sample_run [Accepted False 9, ReadDone 0 True [], CloseTask 0] = Inr w
     \<and> read_done (proxy_vt 5 sample_zlib) 0 False (head_bytes h @ [1, 2]) w = Inl Aborted"
proof -
  let ?h = "seal_head (get_a_head FRAME_KEY 2 0 (cmd_code Commands_AuthenticationAAA) False 1) [1, 2 :: byte]"
  have p: "one_packet (head_bytes ?h @ [1, 2]) ?h [1, 2]" by (rule sealed_one_packet) simp
  obtain w s d where r: "sample_run [Accepted False 9, ReadDone 0 True [], CloseTask 0] = Inr w"
      "w_sessions w 0 = Some s" "s_logic s = Some (Default d)" "\<not> s_open s"
      "dl_authentication d = BEFORE_VERIFY" "dl_seq d = 0" "s_reads s \<noteq> []" "recv_content (s_recv s) = []"
    using sample_closed_waits by blast
  from late_request_aborts [OF sample_run_reachable [OF r(1)] r(2-5,7,8) p] r(1,6) show ?thesis
    by (auto simp: get_cmd_head)
qed

end
