(* ===== verification/Proxy_Isolation.thy ===== *)
theory Proxy_Isolation
  imports Proxy_Faults
begin

text \<open>
  What the handlers of one session do to the others: nothing. The exception is a session that shares
  its uid with another (uids are readings of the processor clock): a server's request on one of
  the two makes the other one the server's. From this, what becomes of a session that is half
  closed when its peer sends once more: nothing ever closes it.
\<close>

section \<open>What is kept\<close>

text \<open>A callback kicks only the session it was given to.\<close>

definition own_callbacks :: "proxy_world \<Rightarrow> bool" where
  "own_callbacks w \<longleftrightarrow> (\<forall>j s pw h. w_sessions w j = Some s \<longrightarrow> pw \<in> set (s_writes s) \<longrightarrow>
     pw_callback pw = KickHolder (Some h) \<longrightarrow> h = j)"

text \<open>No other session has the uid of this one.\<close>

definition lone_uid :: "nat \<Rightarrow> proxy_world \<Rightarrow> bool" where
  "lone_uid i w \<longleftrightarrow> (\<forall>j s t. w_sessions w i = Some s \<longrightarrow> w_sessions w j = Some t \<longrightarrow> s_uuid t = s_uuid s \<longrightarrow> j = i)"

text \<open>
  The session \<open>i\<close> while a handler of \<open>sid\<close> runs: if that is another one, it is as it was (\<open>X\<close>), but
  for its logic where its uid is not its own.
\<close>

definition spared :: "bool \<Rightarrow> nat \<Rightarrow> nat \<Rightarrow> proxy_logic session \<Rightarrow> proxy_world \<Rightarrow> bool" where
  "spared lone sid i X w \<longleftrightarrow> own_callbacks w \<and> (lone \<longrightarrow> lone_uid i w)
     \<and> (sid \<noteq> i \<longrightarrow> (\<exists>s. w_sessions w i = Some s \<and> s\<lparr>s_logic := None\<rparr> = X\<lparr>s_logic := None\<rparr> \<and> (lone \<longrightarrow> s = X)))"

lemma spared_env: "spared lone sid i X w \<Longrightarrow> w_sessions w' = w_sessions w \<Longrightarrow> spared lone sid i X w'"
  by (simp add: spared_def own_callbacks_def lone_uid_def)

lemma spared_upd_env: "spared lone sid i X w \<Longrightarrow> spared lone sid i X (upd_env f w)"
  by (erule spared_env) (simp add: upd_env_def)

lemma spared_pool_buffer: "spared lone sid i X w \<Longrightarrow> pool_buffer n w = (b, w') \<Longrightarrow> spared lone sid i X w'"
  by (erule spared_env) (drule pool_buffer_world, simp)

lemma spared_put:
  assumes sp: "spared lone sid i X w" and s: "w_sessions w sid = Some s" and u: "s_uuid s' = s_uuid s"
    and cb: "\<And>pw h. pw \<in> set (s_writes s') \<Longrightarrow> pw_callback pw = KickHolder (Some h) \<Longrightarrow> pw \<in> set (s_writes s) \<or> h = sid"
  shows "spared lone sid i X (put_session sid s' w)"
proof -
  have "own_callbacks (put_session sid s' w)"
    using sp s cb unfolding spared_def own_callbacks_def by (simp split: if_split) blast
  moreover have "lone_uid i (put_session sid s' w)" if "lone_uid i w"
    using that s u unfolding lone_uid_def by (auto split: if_splits)
  ultimately show ?thesis using sp by (auto simp: spared_def)
qed

lemma spared_upd:
  assumes "spared lone sid i X w" "\<And>s. s_uuid (f s) = s_uuid s" "\<And>s. set (s_writes (f s)) \<subseteq> set (s_writes s)"
  shows "yields (upd_session sid f w) (spared lone sid i X)"
  by (rule yields_upd_session, rule spared_put [OF assms(1)]) (use assms(2,3) in auto)

lemma spared_start_write:
  assumes "spared lone sid i X w" "\<And>h. cb = KickHolder (Some h) \<Longrightarrow> h = sid"
  shows "yields (start_write sid bs cb w) (spared lone sid i X)"
  unfolding start_write_def
  by (rule yields_upd_session, rule spared_put [OF assms(1)]) (use assms(2) in auto)

lemma spared_set_logic: "spared lone sid i X w \<Longrightarrow> yields (set_logic sid l w) (spared lone sid i X)"
  unfolding set_logic_def by (erule spared_upd) simp_all

lemma spared_store_default: "spared lone sid i X w \<Longrightarrow> yields (store_default sid d w) (spared lone sid i X)"
  unfolding store_default_def
  by (rule yields_bind [OF yields_True]) (auto intro: spared_set_logic split: proxy_logic.splits)

lemma spared_update_time:
  "spared lone sid i X w \<Longrightarrow> yields (update_send_time sid w) (spared lone sid i X)"
  "spared lone sid i X w \<Longrightarrow> yields (update_recv_time sid w) (spared lone sid i X)"
  unfolding update_send_time_def update_recv_time_def by (erule spared_upd, simp_all)+

section \<open>What a session's own handlers keep\<close>

text \<open>
  A property of the world that the handlers of session \<open>sid\<close> keep as soon as it does not mind
  fresh buffers, changes to that session other than to its uid, its logic and its writes, and sends
  without a callback.
\<close>

locale session_keeps =
  fixes Q :: "proxy_world \<Rightarrow> bool" and sid :: nat
  assumes keeps_pool: "Q v \<Longrightarrow> pool_buffer n v = (b, v') \<Longrightarrow> Q v'"
    and keeps_put: "Q v \<Longrightarrow> w_sessions v sid = Some s \<Longrightarrow> s_uuid s' = s_uuid s \<Longrightarrow> s_logic s' = s_logic s \<Longrightarrow>
      s_writes s' = s_writes s \<Longrightarrow> Q (put_session sid s' v)"
    and keeps_send: "Q v \<Longrightarrow> yields (async_send (proxy_wrap fuel z) sid b NoCallback v) Q"
begin

lemma keeps_upd:
  assumes "Q w" "\<And>s. s_uuid (f s) = s_uuid s" "\<And>s. s_logic (f s) = s_logic s" "\<And>s. s_writes (f s) = s_writes s"
  shows "yields (upd_session sid f w) Q"
  by (rule yields_upd_session, erule keeps_put [OF assms(1)]) (simp_all add: assms(2-4))

lemma keeps_time:
  assumes "Q w"
  shows "yields (update_recv_time sid w) Q" "yields (update_send_time sid w) Q"
  unfolding update_recv_time_def update_send_time_def by (rule keeps_upd [OF assms], simp_all)+

lemma keeps_close: "Q w \<Longrightarrow> yields (close_session sid e w) Q"
  unfolding close_session_def
  by (rule yields_bind [OF yields_get_session], rule yields_if, simp) (simp add: keeps_put)

lemma keeps_recv_loop:
  assumes w: "Q w"
  shows "yields (async_recv_loop sid w) Q"
proof -
  obtain b w1 where tb: "temp_buffer w = (b, w1)" by fastforce
  have "Q (put_session sid (s\<lparr>s_recv := r, s_reads := rs\<rparr>) v)" if "w_sessions w sid = Some s" "v = w \<or> v = w1" for s r rs v
    by (rule keeps_put [of _ s]) (use that keeps_pool [OF w tb] pool_buffer_world [OF tb] w in auto)
  then show ?thesis unfolding async_recv_loop_def tb
    by (intro yields_bind [OF yields_get_session]) (auto simp: Let_def w split: option.splits)
qed

lemma keeps_passive: "Q w \<Longrightarrow> yields (passively_connect_succ sid w) Q"
  unfolding passively_connect_succ_def by (rule yields_bind, erule keeps_upd) (simp_all add: keeps_recv_loop)

lemma keeps_close_task: "Q w \<Longrightarrow> yields (close_task sid w) Q"
  unfolding close_task_def
  by (erule keeps_upd) (auto simp: close_task_session_def clear_all_timer_def Let_def split: if_splits)

lemma keeps_tick_alive: "Q w \<Longrightarrow> yields (tick_alive (proxy_wrap fuel z) sid w) Q"
  unfolding tick_alive_def Let_def kick_def
  by (intro yields_bind [OF yields_get_session] yields_if yields_pair) (auto intro: keeps_close keeps_send keeps_pool)

lemma keeps_fixed_tick:
  assumes "Q w"
  shows "yields (fixed_tick (proxy_wrap fuel z) sid w) Q"
proof -
  have arm: "yields (upd_session sid arm_tick_timer v) Q" if "Q v" for v
    by (rule keeps_upd [OF that]) (simp_all add: arm_tick_timer_def)
  have "yields (if eff then tick_alive (proxy_wrap fuel z) sid v else Inr v) Q" if "Q v" for eff v
    using that by (simp add: keeps_tick_alive)
  then show ?thesis unfolding fixed_tick_def Let_def
    by (intro yields_bind [OF yields_get_session] yields_bind [OF yields_True] yields_pair yields_bind [OF _ arm])
      (simp_all add: keeps_put [OF assms])
qed

lemma keeps_tick_timer: "Q w \<Longrightarrow> yields (tick_timer_done (proxy_wrap fuel z) sid ec w) Q"
  unfolding tick_timer_done_def by (rule yields_bind, erule keeps_upd) (simp_all add: keeps_fixed_tick)

lemma keeps_start_tick:
  assumes "Q w"
  shows "yields (start_tick (proxy_wrap fuel z) sid interval t w) Q"
  unfolding start_tick_def
  by (rule yields_bind, rule keeps_upd [OF assms], simp_all, rule yields_bind, erule keeps_time(2),
      rule yields_bind, erule keeps_time(1), erule keeps_fixed_tick)

end

section \<open>Sending and authenticating\<close>

text \<open>Wrapping touches no session at all.\<close>

lemma crypt_block_sessions: "yields (crypt_block info b n E w) (\<lambda>(b', w'). w_sessions w' = w_sessions w)"
  unfolding crypt_block_def stack_box_def Let_def prod.case by (auto intro!: yields_bind [OF yields_True])

lemma client_compress_sessions: "yields (client_compress fuel z b w) (\<lambda>(r, w'). w_sessions w' = w_sessions w)"
  unfolding client_compress_def Let_def
  by (rule yields_if, rule yields_pair, rule yields_bind [OF yields_True], rule yields_bind [OF yields_True])
    (auto intro!: yields_option yields_if dest: pool_buffer_world)

lemma wrap_sessions: "yields (proxy_wrap fuel z sid l b w) (\<lambda>(b', w'). w_sessions w' = w_sessions w)"
proof (cases l)
  case (Client cl)
  have c: "yields (crypt_block (cl_rc4_info cl) x n True v) (\<lambda>(b', w'). w_sessions w' = w_sessions w)"
    if "w_sessions v = w_sessions w" for x n v
    using crypt_block_sessions [of "cl_rc4_info cl" x n True v] that by (simp add: split_beta)
  show ?thesis unfolding Client proxy_wrap.simps client_wrap_def Let_def
    by (rule yields_bind_pair [OF client_compress_sessions], rule yields_option, simp,
        rule yields_pair, rule yields_bind_pair, erule c)
      (auto intro!: yields_bind [OF yields_True])
qed (auto intro: yields_bind [OF yields_True])

lemma spared_send:
  assumes "spared lone sid i X w" "\<And>h. cb = KickHolder (Some h) \<Longrightarrow> h = sid"
  shows "yields (async_send (proxy_wrap fuel z) sid b cb w) (spared lone sid i X)"
  unfolding async_send_def
  by (rule yields_bind [OF yields_True], rule yields_if, simp add: assms,
      rule yields_bind [OF spared_update_time(1) [OF assms(1)]], rule yields_option, simp,
      rule yields_bind_pair [OF wrap_sessions], rule yields_bind [OF yields_True], rule spared_start_write)
    (auto intro: spared_env assms)

interpretation spare: session_keeps "spared lone sid i X" sid for lone sid i X
proof
  show "yields (async_send (proxy_wrap fuel z) sid b NoCallback v) (spared lone sid i X)"
    if "spared lone sid i X v" for v fuel z b
    by (rule spared_send [OF that]) simp
qed (erule (1) spared_pool_buffer, erule (1) spared_put, simp_all)

lemma spared_echo:
  assumes sp: "spared lone sid i X w" and d: "dl_session_holder d = Some sid"
  shows "yields (echo_authentication_res fuel z d ec w) (spared lone sid i X)"
proof -
  obtain b w1 where tb: "temp_buffer w = (b, w1)" by fastforce
  have sp1: "spared lone sid i X w1" using spared_pool_buffer [OF sp tb] .
  have s: "yields (async_send (proxy_wrap fuel z) h b' (if c then KickHolder (Some sid) else NoCallback) w1) (spared lone sid i X)"
    if "lock_holder (Some sid) w1 = Some h" for h b' c
  proof -
    have h: "h = sid" using lock_holder_session [OF that] by simp
    show ?thesis unfolding h by (rule spared_send [OF sp1]) (simp split: if_splits)
  qed
  show ?thesis unfolding echo_authentication_res_def tb Let_def prod.case d
    by (rule yields_bind [OF yields_True], rule yields_pair, rule yields_bind [OF yields_True], rule yields_option)
      (simp_all add: sp1 s)
qed

text \<open>
  Moving a session among the servers: it is the one that holds the uid. With a uid of its own, that
  is not session \<open>i\<close>; otherwise only the logic changes.
\<close>

lemma spared_move_server:
  assumes sp: "spared lone sid i X w" and m: "managed k w" and s: "w_sessions w sid = Some s"
  shows "yields (move_server_available (s_uuid s) w) (spared lone sid i X)"
proof -
  have moved: "spared lone sid i X (put_session j (t\<lparr>s_logic := Some l\<rparr>) w)"
    if j: "w_sessions w j = Some t" "s_uuid t = s_uuid s" for j t l
  proof -
    have "own_callbacks (put_session j (t\<lparr>s_logic := Some l\<rparr>) w)"
      using sp j(1) unfolding spared_def own_callbacks_def by (auto split: if_splits)
    moreover have "lone_uid i (put_session j (t\<lparr>s_logic := Some l\<rparr>) w)" if "lone_uid i w"
      using that j(1) unfolding lone_uid_def by (auto split: if_splits)
    moreover have "j \<noteq> i" if "lone_uid i w" "sid \<noteq> i" using that j s unfolding lone_uid_def by metis
    ultimately show ?thesis using sp j(1) by (auto simp: spared_def)
  qed
  have found: "spared lone sid i X (upd_env g w1)"
    if r: "take_unmanaged (s_uuid s) w = Inr (Some (j, d), w0)" and w1: "modify_session_logic apply_session j l w0 = Inr w1" for j d w0 w1 l g
    using take_unmanaged_found [OF m r] w1 moved
    by (auto simp: modify_session_logic_def upd_session_Inr intro!: spared_upd_env)
  show ?thesis unfolding move_server_available_def yields_def
    by (auto simp: rbind_eq_Inr sp dest: take_unmanaged_none split: option.splits intro: found)
qed

lemma spared_verify_mgr:
  assumes "spared lone sid i X w" "managed k w" "w_sessions w sid = Some s"
  shows "yields (verify_authentication_mgr self t u c (s_uuid s) ip w) (\<lambda>(r, w'). spared lone sid i X w')"
  unfolding verify_authentication_mgr_def hm_complex_operation_def Let_def prod.case
  by (auto intro!: yields_if yields_bind [OF spared_move_server [OF assms]] simp: assms(1))

lemma spared_verify:
  assumes sp: "spared lone sid i X w" and m: "managed k w" and h: "dl_session_holder d = Some sid"
  shows "yields (verify_authentication fuel z sid d b cmd w) (spared lone sid i X)"
proof -
  have out: "yields (if verified
      then rbind (store_default sid d1 w) (\<lambda>w. echo_authentication_res fuel z d1 EC_Success w)
      else rbind (store_default sid d2 w) (\<lambda>w. echo_authentication_res fuel z d2 EC_ServerNotFound w)) (spared lone sid i X)"
    if "spared lone sid i X w" "dl_session_holder d1 = Some sid" "dl_session_holder d2 = Some sid" for verified d1 d2 w
    using that by (auto intro!: yields_bind [OF spared_store_default] spared_echo)
  have ask: "yields (if cmd \<noteq> c then Inr ((False, t), w)
      else rbind (get_session j w) (\<lambda>hs. rbind (get_remote_ip j w) (\<lambda>ip.
        verify_authentication_mgr sid lt u t (s_uuid hs) ip w))) (\<lambda>(r, w'). spared lone sid i X w')"
    if "lock_holder (Some sid) w = Some j" "spared lone sid i X w \<and> managed k w" for c t lt u w j
  proof -
    have j: "j = sid" using lock_holder_session [OF that(1)] by simp
    show ?thesis unfolding j using that(2)
      by (intro yields_if yields_bind [OF yields_get_session] yields_bind [OF yields_True] spared_verify_mgr) auto
  qed
  have st: "yields (store_default sid (d\<lparr>dl_server_info := si\<rparr>) w) (\<lambda>w. spared lone sid i X w \<and> managed k w)" for si
    by (rule yields_conj [OF spared_store_default [OF sp] managed_store_default [OF m]]) (simp add: h)
  have hd: "dl_session_holder (d\<lparr>dl_server_info := si\<rparr>) = Some sid" for si using h by simp
  show ?thesis
    unfolding verify_authentication_def Let_def hd
    by (rule yields_bind [OF yields_True], rule yields_bind [OF st], rule yields_option, simp,
        rule yields_bind_pair2, erule (1) ask, rule out) (simp_all add: h)
qed

section \<open>Receiving\<close>

lemma spared_unwrap:
  assumes sp: "spared lone sid i X w" and m: "managed k w" and l: "get_logic sid w = Inr l"
  shows "yields (proxy_unwrap fuel z sid l b h r w) (\<lambda>(x, w'). spared lone sid i X w')"
proof -
  obtain s where s: "w_sessions w sid = Some s" "s_logic s = Some l" using l by (auto simp: get_logic_Inr)
  from m s(1) show ?thesis
  proof (cases rule: managed_cases)
    case (1 d)
    then have l': "l = Default d" using s(2) by simp
    let ?d = "d\<lparr>dl_seq := dl_seq d + 1\<rparr>"
    have st: "yields (set_logic sid (Default ?d) w) (\<lambda>w. spared lone sid i X w \<and> managed k w)"
      by (rule yields_conj [OF spared_set_logic [OF sp] managed_set_default [OF m]]) (use 1(2) l l' in simp_all)
    have v: "yields (if c then verify_authentication fuel z sid ?d b cmd v else Inr v) (spared lone sid i X)"
      if "spared lone sid i X v \<and> managed k v" for c cmd v
      using that 1(2) by (intro yields_if spared_verify [where k = k]) simp_all
    show ?thesis unfolding l' proxy_unwrap.simps default_unwrap_def Let_def
      by (rule yields_bind [OF st], rule yields_if, simp, rule yields_bind [OF yields_True],
          rule yields_if, simp, rule yields_bind, erule v, simp)
  next
    case (2 sl)
    then have l': "l = Server sl" using s(2) by simp
    show ?thesis unfolding l' proxy_unwrap.simps server_unwrap_def Let_def
      by (rule yields_bind [OF spared_set_logic [OF sp]]) (auto intro!: yields_if yields_bind [OF yields_True])
  qed
qed

text \<open>There are no clients, so what a server sends reaches nobody.\<close>

lemma broadcast_sessions:
  "pm_client_sessions (w_env w) = [] \<Longrightarrow>
   yields (rfold (broadcast_one l d m) is w) (\<lambda>w'. w_sessions w' = w_sessions w)"
proof (induction "is" arbitrary: w)
  case (Cons i "is")
  have "yields (broadcast_one l d m i w) (\<lambda>w'. w_sessions w' = w_sessions w \<and> w_env w' = w_env w)"
    unfolding broadcast_one_def Let_def
    by (rule yields_bind [OF yields_True], rule yields_pair, rule yields_bind [OF yields_True],
        rule yields_bind [OF yields_True])
      (use Cons.prems in \<open>auto simp: send_to_client_multi_def hm_try_get_def dest: pool_buffer_world\<close>)
  then show ?case unfolding rfold.simps
  proof (rule yields_bind)
    fix v :: proxy_world assume "w_sessions v = w_sessions w \<and> w_env v = w_env w"
    then show "yields (rfold (broadcast_one l d m) is v) (\<lambda>w'. w_sessions w' = w_sessions w)"
      using Cons.IH [of v] Cons.prems by simp
  qed
qed simp

lemma server_store_sessions:
  assumes "pm_client_sessions (w_env w) = []"
  shows "yields (server_store fuel z l d h w) (\<lambda>(x, w'). w_sessions w' = w_sessions w)"
proof -
  obtain b w1 where tb: "temp_buffer w = (b, w1)" by fastforce
  note w1 = pool_buffer_world [OF tb]
  have br: "yields (rbind (rfold (broadcast_one l d m) is w1) (\<lambda>w. Inr (True, w))) (\<lambda>(x, w'). w_sessions w' = w_sessions w)"
    for m "is"
    by (rule yields_bind [OF broadcast_sessions [of w1]]) (use assms w1 in simp_all)
  have none: "send_to_client fuel z t d' w = Inr w" for t d'
    by (simp add: send_to_client_def hm_try_get_def assms)
  show ?thesis unfolding server_store_def tb Let_def prod.case none
    by (rule yields_if, rule yields_bind [OF yields_True], rule yields_bind [OF yields_True],
        rule yields_bind [OF yields_True], rule br, rule yields_bind [OF yields_True], simp)
qed

lemma spared_store:
  assumes sp: "spared lone sid i X w" and m: "managed k w" and l: "get_logic sid w = Inr l"
  shows "yields (proxy_store fuel z sid l d h w) (\<lambda>(x, w'). spared lone sid i X w')"
proof -
  obtain s where s: "w_sessions w sid = Some s" "s_logic s = Some l" using l by (auto simp: get_logic_Inr)
  from m s(1) show ?thesis
  proof (cases rule: managed_cases)
    case (2 sl)
    then show ?thesis using s(2)
      by (auto intro: yields_mono [OF server_store_sessions [OF managed_clients [OF m]]] spared_env [OF sp])
  qed (use s(2) sp in simp)
qed

lemma spared_hand_over:
  assumes sp: "spared lone sid i X w" and m: "managed k w"
  shows "yields (hand_over (proxy_vt fuel z) sid h db w) (\<lambda>(x, w'). spared lone sid i X w')"
proof -
  obtain ub w1 where tb: "temp_buffer w = (ub, w1)" by fastforce
  have w1: "spared lone sid i X w1" "managed k w1"
    using spared_pool_buffer [OF sp tb] managed_pool_buffer [OF m tb] by simp_all
  have un: "yields (proxy_unwrap fuel z sid l b h r w1) (\<lambda>(x, w'). spared lone sid i X w' \<and> managed k w')"
    if "get_logic sid w1 = Inr l" for l b r
    by (rule yields_mono [OF yields_conj [OF spared_unwrap [OF w1 that] managed_unwrap [OF w1(2) that]]]) auto
  have stored: "yields (rbind (get_logic sid v) (\<lambda>l. rbind (proxy_store fuel z sid l r h v)
        (\<lambda>(stored, w). Inr ((Some stored, db'), w)))) (\<lambda>(x, w'). spared lone sid i X w')"
    if "spared lone sid i X v \<and> managed k v" for db' r v
    by (rule yields_bind [OF yields_logic], rule yields_bind_pair [OF spared_store [OF conjunct1 [OF that] conjunct2 [OF that]]])
      simp_all
  show ?thesis
    unfolding hand_over_def tb Let_def prod.case proxy_vt_def vtable.simps
    by (rule yields_bind [OF yields_logic], rule yields_bind_pair [OF un], assumption)
      (auto intro: stored split: prod.splits)
qed

text \<open>From here on the session keeps being managed as well.\<close>

definition lean :: "nat option \<times> nat \<Rightarrow> bool \<Rightarrow> nat \<Rightarrow> nat \<Rightarrow> proxy_logic session \<Rightarrow> proxy_world \<Rightarrow> bool" where
  "lean k lone sid i X w \<longleftrightarrow> spared lone sid i X w \<and> managed k w"

lemma lean_put:
  assumes "lean k lone sid i X w" "w_sessions w sid = Some s" "s_uuid s' = s_uuid s" "s_logic s' = s_logic s"
    "set (s_writes s') \<subseteq> set (s_writes s)"
  shows "lean k lone sid i X (put_session sid s' w)"
  unfolding lean_def
proof
  have l: "spared lone sid i X w" "managed k w" using assms(1) by (simp_all add: lean_def)
  show "spared lone sid i X (put_session sid s' w)"
    by (rule spared_put [OF l(1) assms(2,3)]) (use assms(5) in blast)
  show "managed k (put_session sid s' w)"
    by (rule managed_same [OF l(2)]) (simp_all add: same_uids_def assms(2-4))
qed

lemma lean_quiet:
  assumes "lean k lone sid i X w" "yields m (spared lone sid i X)" "yields m (calm w)" "yields m (still w)"
  shows "yields m (lean k lone sid i X)"
  by (rule yields_mono [OF yields_conj [OF assms(2) yields_conj [OF assms(3,4)]]])
    (use assms(1) in \<open>auto simp: lean_def intro: managed_still\<close>)

lemma lean_pool_buffer: "lean k lone sid i X w \<Longrightarrow> pool_buffer n w = (b, w') \<Longrightarrow> lean k lone sid i X w'"
  unfolding lean_def by (blast intro: spared_pool_buffer managed_pool_buffer)

lemma lean_hand_over:
  assumes "lean k lone sid i X w"
  shows "yields (hand_over (proxy_vt fuel z) sid h db w) (\<lambda>(x, w'). lean k lone sid i X w')"
proof -
  have sp: "spared lone sid i X w" and m: "managed k w" using assms by (simp_all add: lean_def)
  show ?thesis
    by (rule yields_mono [OF yields_conj [OF spared_hand_over [OF sp m] managed_hand_over [OF m]]])
      (auto simp: lean_def)
qed


interpretation lean: session_keeps "lean k lone sid i X" sid for k lone sid i X
proof
  show "yields (async_send (proxy_wrap fuel z) sid b NoCallback v) (lean k lone sid i X)"
    if "lean k lone sid i X v" for v fuel z b
    by (rule lean_quiet [OF that spare.keeps_send calm_send [OF calm_refl] still_async_send [OF still_refl]])
      (use that in \<open>simp add: lean_def\<close>)
qed (erule (1) lean_pool_buffer, erule (1) lean_put, simp_all)

lemma lean_pick:
  assumes w: "lean k lone sid i X w"
  shows "yields (pick_a_entire_msg (proxy_vt fuel z) sid db w) (\<lambda>(x, w'). lean k lone sid i X w')"
  unfolding pick_a_entire_msg_def Let_def
proof (rule yields_bind [OF yields_True], rule yields_option, simp add: w, rule yields_pair, rule yields_if, simp add: w,
    rule yields_bind [OF yields_True], rule yields_if, simp add: w, rule yields_bind [OF yields_True],
    rule yields_bind [OF yields_True], rule yields_bind_pair2, rule lean_hand_over [OF w], rule yields_if)
  show "yields (rbind (upd_session sid arm_retry_timer w) (\<lambda>w. Inr ((False, db), w))) (\<lambda>(x, w'). lean k lone sid i X w')"
    if "lean k lone sid i X w" for w and db :: reusable_buffer
    by (rule yields_bind [OF lean.keeps_upd [OF that]]) (simp_all add: arm_retry_timer_def)
  show "yields (rbind (get_session sid w) (\<lambda>s. case s_recv s of None \<Rightarrow> Inl NullDeref
      | Some recv \<Rightarrow> rbind (consume recv n) (\<lambda>recv. Inr ((True, db), put_session sid (s\<lparr>s_recv := recv\<rparr>) w))))
      (\<lambda>(x, w'). lean k lone sid i X w')"
    if "lean k lone sid i X w" for w n and db :: reusable_buffer
    by (rule yields_bind [OF yields_get_session], rule yields_option, simp, rule yields_bind [OF yields_True])
      (simp add: lean_put [OF that])
qed

lemma lean_loop: "lean k lone sid i X w \<Longrightarrow> yields (pick_loop n (proxy_vt fuel z) sid db w) (lean k lone sid i X)"
proof (induction n arbitrary: db w)
  case (Suc n)
  show ?case unfolding pick_loop.simps
    by (rule yields_bind_pair2 [OF lean_pick [OF Suc.prems]]) (simp add: Suc.IH)
qed simp

lemma lean_pick_entire: "lean k lone sid i X w \<Longrightarrow> yields (pick_entire_msgs (proxy_vt fuel z) sid w) (lean k lone sid i X)"
  unfolding pick_entire_msgs_def Let_def
  by (rule yields_pair, rule yields_bind, rule lean_loop, erule (1) lean_pool_buffer, erule lean.keeps_recv_loop)

lemma lean_read_done:
  assumes w: "lean k lone sid i X w"
  shows "yields (read_done (proxy_vt fuel z) sid ec bs w) (lean k lone sid i X)"
proof -
  have rest: "yields (rbind (get_session sid v) (\<lambda>s. case s_recv s of None \<Rightarrow> Inl NullDeref
       | Some recv \<Rightarrow> rbind (deliver_read pr bs recv) (\<lambda>recv.
         pick_entire_msgs (proxy_vt fuel z) sid (put_session sid (s\<lparr>s_recv := Some recv\<rparr>) v)))) (lean k lone sid i X)"
    if "lean k lone sid i X v" for v pr
    by (rule yields_bind [OF yields_get_session], rule yields_option, simp, rule yields_bind [OF yields_True],
        rule lean_pick_entire, erule lean_put [OF that]) simp_all
  have time: "yields (update_recv_time sid v) (lean k lone sid i X)" if "lean k lone sid i X v" for v
    by (rule lean.keeps_time(1) [OF that])
  have cl: "yields (if ec then close_session sid False v else Inr v) (lean k lone sid i X)" if "lean k lone sid i X v" for v
    using that by (simp add: lean.keeps_close)
  have step: "yields (rbind (update_recv_time sid v) (\<lambda>w.
       rbind (if ec then close_session sid False w else Inr w) (\<lambda>w.
       rbind (get_session sid w) (\<lambda>s. case s_recv s of None \<Rightarrow> Inl NullDeref
       | Some recv \<Rightarrow> rbind (deliver_read pr bs recv) (\<lambda>recv.
         pick_entire_msgs (proxy_vt fuel z) sid (put_session sid (s\<lparr>s_recv := Some recv\<rparr>) w)))))) (lean k lone sid i X)"
    if "lean k lone sid i X v" for v pr
    by (rule yields_bind [OF time [OF that]], rule yields_bind, erule cl, erule rest)
  show ?thesis unfolding read_done_def Let_def
    by (rule yields_bind [OF yields_get_session], rule yields_list, simp add: w, rule step, erule lean_put [OF w]) simp_all
qed


section \<open>Every handler\<close>

lemma spared_write_done:
  assumes sp: "spared lone sid i X w"
  shows "yields (write_done sid ec w) (spared lone sid i X)"
  unfolding write_done_def Let_def
proof (rule yields_bind [OF yields_get_session], rule yields_list, simp add: sp)
  fix s pw ws assume s: "w_sessions w sid = Some s" "s_writes s = pw # ws"
  let ?w = "put_session sid (s\<lparr>s_writes := ws\<rparr>) w"
  have p: "spared lone sid i X ?w" by (rule spared_put [OF sp s(1)]) (simp_all add: s(2))
  have "yields (kick h ?w) (spared lone sid i X)" if "pw_callback pw = KickHolder (Some h)" for h
  proof -
    have "h = sid" using sp s that by (force simp: spared_def own_callbacks_def)
    then show ?thesis using spare.keeps_close [OF p] by (simp add: kick_def)
  qed
  then show "yields (if ec then close_session sid False ?w
      else (case pw_callback pw of
              NoCallback \<Rightarrow> Inr ?w
            | KickHolder None \<Rightarrow> Inr ?w
            | KickHolder (Some h) \<Rightarrow> (if w_sessions ?w h = None then Inr ?w else kick h ?w))) (spared lone sid i X)"
    using p spare.keeps_close [OF p] by (auto split: send_callback.split option.split)
qed

lemma spared_accept_done:
  assumes sp: "spared lone a i X w" and a: "pm_accepting (w_env w) = Some a"
  shows "yields (accept_done fuel z ec ip w) (spared lone a i X)"
proof -
  have sp1: "spared lone a i X (upd_env f w)" for f using spared_upd_env [OF sp] .
  have up: "yields (upd_session a (\<lambda>s. s\<lparr>s_open := True, s_remote_ip := Some ip\<rparr>) (upd_env f w)) (spared lone a i X)" for f
    by (rule spare.keeps_upd [OF sp1]) simp_all
  show ?thesis unfolding accept_done_def a option.case Let_def
    by (rule yields_if, simp add: spared_upd_env sp, rule yields_bind [OF up], rule yields_bind [OF yields_True],
        rule yields_bind, rule spare.keeps_passive, erule spared_upd_env, erule spare.keeps_start_tick)
qed

text \<open>The session whose handler an event runs.\<close>

fun concerns :: "proxy_event \<Rightarrow> proxy_world \<Rightarrow> nat option" where
  "concerns (Accepting c f i t d) w = Some (pm_next_session (w_env w))"
| "concerns (Accepted ec ip) w = pm_accepting (w_env w)"
| "concerns (ReadDone sid ec bs) w = Some sid"
| "concerns (WriteDone sid ec) w = Some sid"
| "concerns (CloseTask sid) w = Some sid"
| "concerns (RetryTimer sid ec) w = Some sid"
| "concerns (TickTimer sid ec) w = Some sid"
| "concerns CleanUp w = None"
| "concerns (Elapse n) w = None"

lemma spared_accepting:
  assumes sp: "own_callbacks w" and new: "w_sessions w (pm_next_session (w_env w)) = None"
  shows "yields (accept_a_session c f i t stale w) (\<lambda>w'. own_callbacks w'
    \<and> (\<forall>j s. w_sessions w j = Some s \<longrightarrow> w_sessions w' j = Some s))"
proof -
  obtain au sc where ag: "agent_reset c (pm_agent_sc (w_env w)) = (au, sc)" by fastforce
  obtain d rand where d: "default_reset stale (pm_rand (w_env w)) = (d, rand)" by fastforce
  have ns: "yields (new_session ex au c f i t now) (\<lambda>s. s_writes s = [])" for ex now
    unfolding new_session_def by (rule yields_bind [OF yields_True]) simp
  show ?thesis unfolding accept_a_session_def Let_def ag d prod.case modify_session_logic_def
    by (rule yields_bind [OF ns], rule yields_upd_session)
      (use assms in \<open>auto simp: own_callbacks_def upd_env_def\<close>)
qed

lemma spared_handler:
  assumes inv: "proxy_inv w" and sp: "spared lone sid i X w" and en: "enabled e w"
    and c: "concerns e w \<in> {None, Some sid}" and na: "\<And>c f t t' d. e \<noteq> Accepting c f t t' d"
  shows "yields (proxy_handler fuel z e w) (spared lone sid i X)"
proof -
  obtain k where ok: "world_ok k w" using inv by (auto simp: proxy_inv_def)
  have m: "lean k lone sid i X w" using sp world_ok_managed [OF ok] by (simp add: lean_def)
  show ?thesis
  proof (cases e)
    case (Accepted ec ip)
    then show ?thesis using en c spared_accept_done [OF sp] by auto
  next
    case (ReadDone j ec bs)
    then show ?thesis using c by (auto intro: yields_mono [OF lean_read_done [OF m]] simp: lean_def)
  next
    case (RetryTimer j ec)
    then show ?thesis using en world_ok_retry [OF ok] by metis
  next
    case CleanUp
    then show ?thesis using sp
      by (simp add: clean_up_closed_session_def Let_def hm_complex_operation_def spared_upd_env)
  next
    case (Elapse n)
    then show ?thesis using spared_env [OF sp] by simp
  qed (use c na in \<open>auto intro: spared_write_done [OF sp] spare.keeps_close_task [OF sp] spare.keeps_tick_timer [OF sp]\<close>)
qed


text \<open>In every state the proxy can reach, callbacks kick only the session they were given to.\<close>

lemma reachable_own_callbacks:
  assumes "proxy_reachable fuel z w"
  shows "own_callbacks w"
  using assms
proof induction
  case (reach_start w c f i t d w')
  have new: "own_callbacks (upd_env g w)" "w_sessions (upd_env g w) n = None" for g n
    using reach_start(1) by (simp_all add: own_callbacks_def upd_env_def proxy_init_def)
  from yieldsD [OF _ spared_accepting [OF new]] reach_start(2) show ?case
    unfolding start_proxy_def Let_def by blast
next
  case (reach_step w e w')
  note inv = proxy_reachable_inv [OF reach_step(1)]
  obtain en: "enabled e w" "proxy_handler fuel z e w = Inr w'" using reach_step(2) by (auto elim: proxy_stepE)
  show ?case
  proof (cases "\<exists>c f t t' d. e = Accepting c f t t' d")
    case True
    then show ?thesis
      using en(2) yieldsD [OF _ spared_accepting [OF reach_step(3) unused_name [OF inv]]] by auto
  next
    case False
    obtain sid where c: "concerns e w \<in> {None, Some sid}" by (cases "concerns e w") auto
    have "spared False sid sid X w" for X using reach_step(3) by (simp add: spared_def)
    from yieldsD [OF en(2) spared_handler [OF inv this en(1) c]] False show ?thesis by (auto simp: spared_def)
  qed
qed

text \<open>A step leaves a session that it does not concern alone; its logic too, if its uid is its own.\<close>

lemma step_spares:
  assumes r: "proxy_reachable fuel z w" and st: "proxy_step fuel z w e w'" and c: "concerns e w \<noteq> Some i"
    and s: "w_sessions w i = Some s" and u: "lone \<Longrightarrow> lone_uid i w"
  shows "\<exists>s'. w_sessions w' i = Some s' \<and> s'\<lparr>s_logic := None\<rparr> = s\<lparr>s_logic := None\<rparr> \<and> (lone \<longrightarrow> s' = s)"
proof -
  note inv = proxy_reachable_inv [OF r] and own = reachable_own_callbacks [OF r]
  obtain en: "enabled e w" "proxy_handler fuel z e w = Inr w'" using st by (auto elim: proxy_stepE)
  show ?thesis
  proof (cases "\<exists>c f t t' d. e = Accepting c f t t' d")
    case True
    then show ?thesis
      using en(2) s yieldsD [OF _ spared_accepting [OF own unused_name [OF inv]]] by auto
  next
    case False
    obtain sid where sid: "concerns e w \<in> {None, Some sid}" "sid \<noteq> i"
      using c that [of "Suc i"] by (cases "concerns e w") auto
    have "spared lone sid i s w" using own u s by (simp add: spared_def)
    from yieldsD [OF en(2) spared_handler [OF inv this en(1) sid(1)]] False sid(2) show ?thesis
      by (auto simp: spared_def)
  qed
qed

section \<open>Properties\<close>


text \<open>Two sessions, the second one's peer breaks off.\<close>

lemma sample_two: "\<exists>w s. sample_run [Accepted False 9, Accepting 8 0 0 0 sample_logic, Accepted False 5] = Inr w
    \<and> w_sessions w 0 = Some s \<and> lone_uid 0 w \<and> enabled (ReadDone 1 True []) w
    \<and> succeeds (proxy_handler 5 sample_zlib (ReadDone 1 True []) w)"
  by (simp add: sample_defs handler_defs lone_uid_def generate_uuid_def succeeds_def)


text \<open>
  With a shared uid it is otherwise: the request of session \<open>sid\<close> makes a server of the session that
  was registered under the uid first, and leaves \<open>sid\<close> as it is.
\<close>

theorem shared_uid_promotes_the_other:
  assumes "w_sessions w sid = Some s" "j \<noteq> sid" "hm_try_get (pm_un_managed_sessions (w_env w)) (s_uuid s) = Some j"
    and "w_sessions w j = Some t" "s_logic t = Some (Default d)"
    and "\<not> hm_contains_key (pm_server_sessions (w_env w)) (s_uuid s)" "session_type > session_code MULTI_SESSION_BEGIN"
  shows "\<exists>w' t' l. verify_authentication_mgr sid session_type server target (s_uuid s) ip w = Inr ((True, target), w')
    \<and> w_sessions w' sid = Some s \<and> w_sessions w' j = Some t' \<and> s_logic t' = Some (Server l)"
proof -
  have "session_type \<noteq> session_code CLIENT_PROXY" using assms(7) by auto
  with move_server [OF assms(3-6)] assms(1,2,6,7) show ?thesis by (auto simp: verify_authentication_mgr_def)
qed

section \<open>A half closed session\<close>

text \<open>
  A session whose kick was carried out (the socket's sending side is shut down) and whose last read
  has finished: it waits for nothing.
\<close>

definition stuck :: "nat \<Rightarrow> proxy_world \<Rightarrow> bool" where
  "stuck sid w \<longleftrightarrow> (\<exists>s. w_sessions w sid = Some s \<and> s_state s = TO_CLOSE \<and> s_open s
     \<and> s_reads s = [] \<and> s_writes s = [] \<and> s_closes s = [])"

lemma stuck_tick:
  assumes "stuck sid w"
  shows "yields (tick_timer_done (proxy_wrap fuel z) sid ec w) (stuck sid)"
proof -
  have up: "yields (upd_session sid f v) (stuck sid)"
    if "stuck sid v" "\<And>s. s_state (f s) = s_state s \<and> s_open (f s) = s_open s \<and> s_reads (f s) = s_reads s
      \<and> s_writes (f s) = s_writes s \<and> s_closes (f s) = s_closes s" for f v
    by (rule yields_upd_session) (use that in \<open>auto simp: stuck_def\<close>)
  have "yields (fixed_tick (proxy_wrap fuel z) sid v) (stuck sid)" if v: "stuck sid v" for v
    unfolding fixed_tick_def Let_def
  proof (rule yields_bind [OF yields_get_session], rule yields_bind [OF yields_True], rule yields_pair,
      rule yields_bind [where Q = "stuck sid"])
    fix s eff count assume s: "w_sessions v sid = Some s"
    then have p: "stuck sid (put_session sid (s\<lparr>s_frame_count := count\<rparr>) v)" using v by (simp add: stuck_def)
    then have "tick_alive (proxy_wrap fuel z) sid (put_session sid (s\<lparr>s_frame_count := count\<rparr>) v)
        = Inr (put_session sid (s\<lparr>s_frame_count := count\<rparr>) v)"
      by (auto simp: stuck_def tick_alive_def get_session_def)
    with p show "yields (if eff then tick_alive (proxy_wrap fuel z) sid (put_session sid (s\<lparr>s_frame_count := count\<rparr>) v)
        else Inr (put_session sid (s\<lparr>s_frame_count := count\<rparr>) v)) (stuck sid)" by simp
  qed (simp add: up arm_tick_timer_def)
  then show ?thesis unfolding tick_timer_done_def
    by (intro yields_bind [OF up [OF assms]]) simp_all
qed

lemma stuck_step:
  assumes r: "proxy_reachable fuel z w" and st: "proxy_step fuel z w e w'" and k: "stuck sid w"
  shows "stuck sid w'"
proof -
  obtain s where s: "w_sessions w sid = Some s" "s_state s = TO_CLOSE" "s_open s" "s_reads s = []"
    "s_writes s = []" "s_closes s = []" using k by (auto simp: stuck_def)
  obtain en: "enabled e w" "proxy_handler fuel z e w = Inr w'" using st by (auto elim: proxy_stepE)
  note inv = proxy_reachable_inv [OF r]
  obtain n where ok: "world_ok n w" using inv by (auto simp: proxy_inv_def)
  show ?thesis
  proof (cases "concerns e w = Some sid")
    case True
    have "\<exists>ec. e = TickTimer sid ec"
    proof (cases e)
      case (Accepting c f t t' d)
      then show ?thesis using True unused_name [OF inv] s(1) by auto
    next
      case (Accepted ec ip)
      then show ?thesis
        using True s ok world_ok_managed [OF ok] by (auto simp: world_ok_def managed_def fresh_def)
    next
      case (RetryTimer j ec)
      then show ?thesis using en world_ok_retry [OF ok] by metis
    qed (use True s en in auto)
    then show ?thesis using en(2) yieldsD [OF _ stuck_tick [OF k]] by auto
  next
    case False
    obtain s' where "w_sessions w' sid = Some s'" "s'\<lparr>s_logic := None\<rparr> = s\<lparr>s_logic := None\<rparr>"
      using step_spares [OF r st False s(1), of False] by auto
    then show ?thesis using s
      by (cases s, cases s') (simp add: stuck_def)
  qed
qed



text \<open>A session kicked for its silence whose peer then sends a byte; it ticks on and nothing else.\<close>

definition ticking_world :: proxy_world where
  "ticking_world = sample_world\<lparr>w_env := proxy_new (sample_cfg\<lparr>cfg_tick_interval := 1000\<rparr>) 1\<rparr>"

definition ticking_run :: "proxy_event list \<Rightarrow> proxy_world res" where
  "ticking_run es = rbind (start_proxy 7 0 0 0 sample_logic ticking_world) (proxy_run 5 sample_zlib es)"

lemma ticking_run_reachable: "ticking_run es = Inr w \<Longrightarrow> proxy_reachable 5 sample_zlib w"
proof -
  have "proxy_init ticking_world" by (auto simp: proxy_init_def ticking_world_def sample_world_def)
  then show "ticking_run es = Inr w \<Longrightarrow> proxy_reachable 5 sample_zlib w"
    by (auto simp: ticking_run_def rbind_eq_Inr intro: proxy_run_reachable reach_start)
qed

lemma proxy_run_append: "proxy_run fuel z (es @ fs) w = rbind (proxy_run fuel z es w) (proxy_run fuel z fs)"
proof (induction es arbitrary: w)
  case (Cons e es)
  then show ?case by (cases "proxy_handler fuel z e w") simp_all
qed simp

lemmas ticking_defs = ticking_run_def ticking_world_def sample_defs handler_defs tick_timer_done_def tick_alive_def
  kick_def duration_ms_def buf_put_def

lemma ticking_stuck:
  "\<exists>w. ticking_run [Accepted False 9, Elapse 31000000000, TickTimer 0 False, CloseTask 0, ReadDone 0 False [1]] = Inr w \<and> stuck 0 w"
  by (simp add: ticking_defs stuck_def)

lemma ticking_ticks_on:
  "succeeds (ticking_run ([Accepted False 9, Elapse 31000000000, TickTimer 0 False, CloseTask 0, ReadDone 0 False [1]]
     @ [Elapse 31000000000, TickTimer 0 True]))"
  by (simp add: ticking_defs succeeds_def)


end
