(* ===== verification/Sync_Read.thy ===== *)
theory Sync_Read
  imports Session_Framing
begin

text \<open>
  \<open>buffer_read.hpp\<close>: blocking reads for a simple peer. One call reads what has arrived behind the
  bytes left over from the last call and gives every whole packet to a callback. It is compared
  with \<open>split_frames\<close>, the specification of the asynchronous sessions: the loop here goes on only
  while there is more than a header, so an empty packet at the very end stays where it is.

  The buffer is indexed as an array, as the source does; the socket's answers are arguments, an
  exception is \<open>None\<close>.
\<close>

fun sync_loop ::
  "nat \<Rightarrow> (byte list \<Rightarrow> 's \<Rightarrow> 's) \<Rightarrow> u64 \<Rightarrow> reusable_buffer \<Rightarrow> 's \<Rightarrow> (u64 \<times> reusable_buffer \<times> 's) res" where
  "sync_loop 0 cb read_offset b st = Inl Diverged"
| "sync_loop (Suc fuel) cb read_offset b st =
     (if read_offset > of_nat PROTO_HEAD_SIZE then
        rbind (unpack_head (\<lambda>o' n. buf_get b (origin_buffer b (of_nat o')) n)) (\<lambda>head.
        if ucast (head_len head) > read_offset - of_nat PROTO_HEAD_SIZE then Inr (read_offset, b, st)
        else
          rbind (buf_get b (origin_buffer b (of_nat PROTO_HEAD_SIZE)) (unat (head_len head))) (\<lambda>msg.
          let st = cb msg st;
              unpack_left = read_offset - (ucast (head_len head) + of_nat PROTO_HEAD_SIZE)
          in
          rbind (buf_get b (origin_buffer b (ucast (head_len head) + of_nat PROTO_HEAD_SIZE)) (unat unpack_left)) (\<lambda>rest.
          rbind (buf_put b (origin_buffer b 0) rest) (\<lambda>b.
          sync_loop fuel cb unpack_left b st))))
      else Inr (read_offset, b, st))"

definition sync_read_from_socket ::
  "(byte list \<Rightarrow> 's \<Rightarrow> 's) \<Rightarrow> u64 option \<Rightarrow> byte list option \<Rightarrow> u64 \<Rightarrow> reusable_buffer \<Rightarrow> 's \<Rightarrow> (u64 \<times> reusable_buffer \<times> 's) res" where
  "sync_read_from_socket cb available read_some read_offset b st =
     (case available of None \<Rightarrow> Inr (read_offset, b, st)
      | Some avai_read \<Rightarrow>
          if avai_read = 0 then Inr (read_offset, b, st)
          else (case read_some of None \<Rightarrow> Inr (read_offset, b, st)
                | Some bs \<Rightarrow>
                    rbind (buf_put b (origin_buffer b read_offset) bs) (\<lambda>b.
                    sync_loop 6000 cb (read_offset + of_nat (length bs)) b st)))"

section \<open>The packets it gives out\<close>

definition held_frames :: "byte list \<Rightarrow> (protocol_head \<times> byte list) list \<times> byte list" where
  "held_frames bs =
     (let (fs, rest) = split_frames bs
      in if rest = [] \<and> fs \<noteq> [] \<and> snd (last fs) = [] then (butlast fs, frame_bytes (last fs)) else (fs, rest))"

lemma held_frames_short:
  assumes "length bs \<le> PROTO_HEAD_SIZE"
  shows "held_frames bs = ([], bs)"
proof (cases bs rule: split_frames_cases)
  case frame
  with assms have l: "length bs = PROTO_HEAD_SIZE" "unat (head_len (head_of_bytes bs)) = 0" by simp_all
  then have "split_frames bs = ([(head_of_bytes bs, [])], [])"
    using split_frames_take [of bs "head_of_bytes bs"] by (simp add: split_frames_short)
  then show ?thesis using head_bytes_of_bytes [OF l(1)] by (simp add: held_frames_def frame_bytes_def)
qed (simp_all add: held_frames_def split_frames_short split_frames_waiting)

lemma split_frames_nonempty: "split_frames bs = ([], []) \<Longrightarrow> bs = []"
  using split_frames_bytes [of bs] by simp

lemma held_frames_take:
  assumes "PROTO_HEAD_SIZE < length bs" "h = head_of_bytes (take PROTO_HEAD_SIZE bs)"
    and "unat (head_len h) \<le> length bs - PROTO_HEAD_SIZE"
  shows "held_frames bs =
    ((h, take (unat (head_len h)) (drop PROTO_HEAD_SIZE bs))
       # fst (held_frames (drop (PROTO_HEAD_SIZE + unat (head_len h)) bs)),
     snd (held_frames (drop (PROTO_HEAD_SIZE + unat (head_len h)) bs)))"
proof -
  let ?bs = "drop (PROTO_HEAD_SIZE + unat (head_len h)) bs"
  obtain fs rest where s': "split_frames ?bs = (fs, rest)" by (cases "split_frames ?bs")
  have s: "split_frames bs = ((h, take (unat (head_len h)) (drop PROTO_HEAD_SIZE bs)) # fs, rest)"
    using split_frames_take [of bs h] assms s' by simp
  show ?thesis
  proof (cases fs)
    case Nil
    have "snd (held_frames ?bs) = rest" "fst (held_frames ?bs) = []" by (simp_all add: held_frames_def s' Nil)
    moreover have "take (unat (head_len h)) (drop PROTO_HEAD_SIZE bs) \<noteq> []" if "rest = []"
    proof -
      have "?bs = []" using split_frames_nonempty s' Nil that by blast
      then show ?thesis using assms(1) by auto
    qed
    ultimately show ?thesis by (auto simp: held_frames_def s Nil)
  qed (simp add: held_frames_def s s')
qed

lemma held_frames_waiting:
  "unat (head_len (head_of_bytes (take PROTO_HEAD_SIZE bs))) > length bs - PROTO_HEAD_SIZE \<Longrightarrow>
   held_frames bs = ([], bs)"
  by (simp add: held_frames_def split_frames_waiting)

definition sync_content :: "u64 \<Rightarrow> reusable_buffer \<Rightarrow> byte list" where
  "sync_content read_offset b = mem_read (buf_bytes b) 0 (unat read_offset)"

lemma length_sync_content [simp]: "length (sync_content off b) = unat off"
  by (simp add: sync_content_def)

lemma sync_get:
  assumes "buf_SIZE b = ONCE_BUFFER_SIZE" "unat off \<le> 65536" "unat p + n \<le> unat off"
  shows "buf_get b p n = Inr (take n (drop (unat p) (sync_content off b)))"
  using assms by (simp add: buf_get_def sync_content_def mem_read_drop mem_read_take)

lemma sync_head:
  assumes "buf_SIZE b = ONCE_BUFFER_SIZE" "unat off \<le> 65536" "PROTO_HEAD_SIZE \<le> unat off"
  shows "unpack_head (\<lambda>o' n. buf_get b (origin_buffer b (of_nat o')) n)
    = Inr (head_of_bytes (take PROTO_HEAD_SIZE (sync_content off b)))"
  using sync_get [OF assms(1,2), of 0 PROTO_HEAD_SIZE] assms(3) by (simp add: unpack_head_def)

text \<open>One round: the first packet goes to the callback, the rest to the front of the buffer.\<close>

lemma sync_loop_round:
  defines "h b off \<equiv> head_of_bytes (take PROTO_HEAD_SIZE (sync_content off b))"
  assumes b: "buf_SIZE b = ONCE_BUFFER_SIZE" "unat off \<le> 65536"
    and w: "PROTO_HEAD_SIZE < unat off" "unat (head_len (h b off)) \<le> unat off - PROTO_HEAD_SIZE"
  shows "\<exists>off' b'. sync_loop (Suc fuel) cb off b st
      = sync_loop fuel cb off' b' (cb (take (unat (head_len (h b off))) (drop PROTO_HEAD_SIZE (sync_content off b))) st)
    \<and> sync_content off' b' = drop (PROTO_HEAD_SIZE + unat (head_len (h b off))) (sync_content off b)
    \<and> unat off' = unat off - (PROTO_HEAD_SIZE + unat (head_len (h b off))) \<and> same_block b b'"
proof -
  let ?bs = "sync_content off b" and ?n = "unat (head_len (h b off))"
  let ?p = "ucast (head_len (h b off)) + of_nat PROTO_HEAD_SIZE :: u64"
  have gt: "off > of_nat PROTO_HEAD_SIZE" using w(1) by (simp add: word_less_nat_alt)
  have hd: "unpack_head (\<lambda>o' n. buf_get b (origin_buffer b (of_nat o')) n) = Inr (h b off)"
    using sync_head [OF b] w(1) by (simp add: h_def)
  have m: "unat (off - of_nat PROTO_HEAD_SIZE) = unat off - PROTO_HEAD_SIZE"
    using w(1) by (subst unat_sub_small) simp_all
  have nw: "\<not> ucast (head_len (h b off)) > off - of_nat PROTO_HEAD_SIZE"
    using w(2) unfolding word_less_nat_alt m unat_len16 by simp
  have p: "unat ?p = PROTO_HEAD_SIZE + ?n"
    using len16_less [of "head_len (h b off)"] by (subst unat_add_small) simp_all
  have q: "unat (off - ?p) = unat off - (PROTO_HEAD_SIZE + ?n)" using w p by (subst unat_sub_small) simp_all
  let ?rest = "drop (PROTO_HEAD_SIZE + ?n) ?bs"
  have g1: "buf_get b (of_nat PROTO_HEAD_SIZE) ?n = Inr (take ?n (drop PROTO_HEAD_SIZE ?bs))"
    using sync_get [OF b, of "of_nat PROTO_HEAD_SIZE" ?n] w by simp
  have g2: "buf_get b ?p (unat (off - ?p)) = Inr ?rest"
    using sync_get [OF b, of ?p "unat (off - ?p)"] w p q by simp
  let ?b = "b\<lparr>buf_bytes := mem_write (buf_bytes b) 0 ?rest\<rparr>"
  have put: "buf_put b 0 ?rest = Inr ?b" using b by (simp add: buf_put_def)
  have c: "sync_content (off - ?p) ?b = ?rest"
    unfolding sync_content_def [of "off - ?p"] q by (simp add: mem_simps)
  have "sync_loop (Suc fuel) cb off b st = sync_loop fuel cb (off - ?p) ?b (cb (take ?n (drop PROTO_HEAD_SIZE ?bs)) st)"
    unfolding sync_loop.simps hd rbind_Inr Let_def if_P [OF gt] if_not_P [OF nw]
    unfolding origin_buffer_simp g1 rbind_Inr g2 put by (rule refl)
  with c q show ?thesis by (intro exI [of _ "off - ?p"] exI [of _ ?b]) (simp add: same_block_def)
qed

lemma sync_loop_held:
  assumes "buf_SIZE b = ONCE_BUFFER_SIZE" "unat off \<le> 65536" "unat off < PROTO_HEAD_SIZE * fuel"
  shows "\<exists>off' b'. sync_loop fuel cb off b st
      = Inr (off', b', fold (\<lambda>f. cb (snd f)) (fst (held_frames (sync_content off b))) st)
    \<and> sync_content off' b' = snd (held_frames (sync_content off b)) \<and> same_block b b' \<and> unat off' \<le> 65536"
  using assms
proof (induction fuel arbitrary: off b st)
  case 0
  then show ?case by simp
next
  case (Suc fuel)
  let ?bs = "sync_content off b" and ?h = "head_of_bytes (take PROTO_HEAD_SIZE (sync_content off b))"
  let ?n = "unat (head_len ?h)"
  consider (short) "\<not> PROTO_HEAD_SIZE < unat off"
    | (waiting) "PROTO_HEAD_SIZE < unat off" "?n > unat off - PROTO_HEAD_SIZE"
    | (whole) "PROTO_HEAD_SIZE < unat off" "?n \<le> unat off - PROTO_HEAD_SIZE" by linarith
  then show ?case
  proof cases
    case short
    then have "\<not> off > of_nat PROTO_HEAD_SIZE" by (simp add: word_less_nat_alt)
    with short show ?thesis using Suc.prems(2) by (simp add: held_frames_short)
  next
    case waiting
    have gt: "off > of_nat PROTO_HEAD_SIZE" using waiting(1) by (simp add: word_less_nat_alt)
    have hd: "unpack_head (\<lambda>o' n. buf_get b (origin_buffer b (of_nat o')) n) = Inr ?h"
      using sync_head [OF Suc.prems(1,2)] waiting(1) by simp
    have m: "unat (off - of_nat PROTO_HEAD_SIZE) = unat off - PROTO_HEAD_SIZE"
      using waiting(1) by (subst unat_sub_small) simp_all
    then have "ucast (head_len ?h) > off - of_nat PROTO_HEAD_SIZE"
      using waiting(2) by (simp only: word_less_nat_alt m unat_len16)
    with gt hd waiting Suc.prems(2) show ?thesis by (simp add: held_frames_waiting del: origin_buffer_simp)
  next
    case whole
    let ?body = "take ?n (drop PROTO_HEAD_SIZE ?bs)" and ?rest = "drop (PROTO_HEAD_SIZE + ?n) ?bs"
    obtain off1 b1 where step: "sync_loop (Suc fuel) cb off b st = sync_loop fuel cb off1 b1 (cb ?body st)"
      "sync_content off1 b1 = ?rest" "unat off1 = unat off - (PROTO_HEAD_SIZE + ?n)" "same_block b b1"
      using sync_loop_round [OF Suc.prems(1,2) whole, of fuel cb st] by blast
    have pre: "buf_SIZE b1 = ONCE_BUFFER_SIZE" "unat off1 \<le> 65536" "unat off1 < PROTO_HEAD_SIZE * fuel"
      using Suc.prems step(3,4) whole(1) by (simp_all add: same_block_def)
    have h: "held_frames ?bs = ((?h, ?body) # fst (held_frames ?rest), snd (held_frames ?rest))"
      using held_frames_take [of ?bs ?h] whole by simp
    show ?thesis
      unfolding step(1) h using Suc.IH [OF pre, where st = "cb ?body st", unfolded step(2)] step(4)
      by (fastforce simp: same_block_def)
  qed
qed

section \<open>Properties\<close>

text \<open>C38: a blocking read gives the callback the same packets, in the same order, as an asynchronous
  session would take from the same bytes, except that an empty packet at the very end is held back
  until more bytes come; nothing is lost, and the loop ends.\<close>

theorem sync_read_like_async:
  assumes "buf_SIZE b = ONCE_BUFFER_SIZE" "unat off + length bs \<le> 65536" "avail \<noteq> 0"
  shows "\<exists>off' b'. sync_read_from_socket cb (Some avail) (Some bs) off b st
      = Inr (off', b', fold (\<lambda>f. cb (snd f)) (fst (held_frames (sync_content off b @ bs))) st)
    \<and> sync_content off' b' = snd (held_frames (sync_content off b @ bs))
    \<and> unat off' = length (snd (held_frames (sync_content off b @ bs)))"
proof -
  let ?b = "b\<lparr>buf_bytes := mem_write (buf_bytes b) (unat off) bs\<rparr>"
  have n: "unat (of_nat (length bs) :: u64) = length bs" using assms(2) by (intro unat_of_nat_small) simp
  have o: "unat (off + of_nat (length bs)) = unat off + length bs"
    using n assms(2) by (subst unat_add_small) simp_all
  have put: "buf_put b off bs = Inr ?b" using assms(1,2) by (simp add: buf_put_def)
  have c: "sync_content (off + of_nat (length bs)) ?b = sync_content off b @ bs"
    unfolding sync_content_def o mem_read_append by (simp add: mem_simps)
  have "unat (off + of_nat (length bs)) \<le> 65536" using assms(2) o by simp
  then obtain off' b' where l: "sync_loop 6000 cb (off + of_nat (length bs)) ?b st
      = Inr (off', b', fold (\<lambda>f. cb (snd f)) (fst (held_frames (sync_content off b @ bs))) st)"
      "sync_content off' b' = snd (held_frames (sync_content off b @ bs))"
    using sync_loop_held [of ?b "off + of_nat (length bs)" 6000 cb st] assms(1) by (auto simp: c)
  then have "unat off' = length (snd (held_frames (sync_content off b @ bs)))"
    using length_sync_content [of off' b'] by simp
  with l put assms(3) show ?thesis by (simp add: sync_read_from_socket_def)
qed

lemma sync_read_like_async_witness:
  "\<exists>off' b'. sync_read_from_socket (\<lambda>m ms. ms @ [m]) (Some 3) (Some [1, 2, 3]) 0
      \<lparr>buf_SIZE = 65536, buf_offset = 0, buf_length = 0, buf_bytes = (\<lambda>_. 0)\<rparr> [] = Inr (off', b', [])
    \<and> sync_content off' b' = [1, 2, 3]"
  using sync_read_like_async [of "\<lparr>buf_SIZE = 65536, buf_offset = 0, buf_length = 0, buf_bytes = (\<lambda>_. 0)\<rparr>" 0 "[1, 2, 3]" 3
      "\<lambda>m ms. ms @ [m]" "[]"]
  by (auto simp: held_frames_short sync_content_def [of 0])

end
