(* ===== verification/Message_Storage.thy ===== *)
theory Message_Storage
  imports Ring_Buffer Reusable_Buffer Byte_Order
begin

text \<open>
  The ring of bytes the server-side programs keep received messages in: how a block is written
  into it, and the facts about a ring of the one size that is asked for.
\<close>

text \<open>\<open>tryWrite\<close> from a block: the block is read only where the ring takes it.\<close>

definition write_block :: "byte ring \<Rightarrow> reusable_buffer \<Rightarrow> byte ring res" where
  "write_block r data =
     (if ring_full r 0 \<or> buf_length data + ring_count r \<ge> rb_capacity r then Inr r
      else rbind (payload data) (\<lambda>bs. Inr (snd (tryWrite r bs (buf_length data)))))"

section \<open>A ring of \<open>TOTAL_CACHE_SIZE\<close> bytes\<close>

definition storage_ok :: "byte ring \<Rightarrow> bool" where
  "storage_ok r \<longleftrightarrow> ring_inv r \<and> ring_room r = 10485759"

lemma storage_ok_new: "storage_ok (ring_clear (ring_new junk TOTAL_CACHE_SIZE))"
  by (simp add: storage_ok_def ring_inv_def ring_room_def ring_clear_def ring_new_def)

lemma ring_count_unat: "ring_inv r \<Longrightarrow> unat (ring_count r) = length (ring_list r)"
  by (simp add: unat_ring_count)

lemma storage_capacity: "storage_ok r \<Longrightarrow> unat (rb_capacity r) = 10485760"
  by (auto simp: storage_ok_def ring_room_def ring_inv_def)

text \<open>A short write into the storage: done as a whole or not at all.\<close>

lemma storage_write:
  assumes "storage_ok r" "length xs < 2 ^ 31"
  shows "storage_ok (snd (tryWrite r xs (of_nat (length xs))))
    \<and> ring_list (snd (tryWrite r xs (of_nat (length xs))))
      = (if length (ring_list r) + length xs \<le> ring_room r then ring_list r @ xs else ring_list r)"
proof (cases "length (ring_list r) + length xs \<le> ring_room r")
  case True
  obtain r' where "tryWrite r xs (of_nat (length xs)) = (True, r')" "ring_inv r'" "ring_list r' = ring_list r @ xs"
      "ring_room r' = ring_room r"
    using rbq.write_list [of r xs] assms(1) True by (auto simp: storage_ok_def)
  with True assms(1) show ?thesis by (simp add: storage_ok_def)
next
  case False
  have "unat (of_nat (length xs) :: u64) = length xs" using assms(2) by (intro unat_of_nat_small) simp
  then have "tryWrite r xs (of_nat (length xs)) = (False, r)"
    using rbq.write_full [of r "of_nat (length xs)" xs] assms False by (simp add: storage_ok_def)
  with False assms(1) show ?thesis by simp
qed

lemmas storage_write4 = storage_write [of _ "write_uint32 v" for v, simplified]
lemmas storage_write2 = storage_write [of _ "write_uint16 v" for v, simplified]

lemma ring_full_room:
  "storage_ok r \<Longrightarrow> unat n \<le> 2 ^ 62 \<Longrightarrow> ring_full r n \<longleftrightarrow> ring_room r < length (ring_list r) + unat n"
  using rbq.full_iff [of r n] by (simp add: storage_ok_def)

lemma write_block_short:
  assumes "storage_ok r" "8 \<le> length (ring_list r)" "2 ^ 64 - 8 \<le> unat (buf_length data)" "buf_SIZE data = ONCE_BUFFER_SIZE"
  shows "write_block r data = Inl OutOfBounds"
proof -
  have inv: "ring_inv r" using assms(1) by (simp add: storage_ok_def)
  have c: "unat (ring_count r) = length (ring_list r)" "length (ring_list r) \<le> 10485759"
    using ring_count_unat [OF inv] rbq.within [OF inv] assms(1) by (simp_all add: storage_ok_def)
  have "unat (buf_length data + ring_count r) = unat (buf_length data) + unat (ring_count r) - 2 ^ 64"
    using assms(2,3) c unat_plus_if' [of "buf_length data" "ring_count r"] by simp
  moreover have "unat (buf_length data) < 2 ^ 64" using unsigned_less [of "buf_length data"] by simp
  ultimately have "unat (buf_length data + ring_count r) < 10485760" using c by simp
  then have "\<not> rb_capacity r \<le> buf_length data + ring_count r"
    using storage_capacity [OF assms(1)] by (simp add: word_le_nat_alt)
  moreover have "\<not> ring_full r 0" using ring_full_room [OF assms(1), of 0] c assms(1) by (simp add: storage_ok_def)
  ultimately show ?thesis using assms(3,4) by (simp add: write_block_def payload_def buf_get_def)
qed

lemma write_block_fits:
  assumes "storage_ok r" "length (ring_list r) + unat (buf_length data) \<le> ring_room r" "write_block r data = Inr r'"
  shows "\<exists>bs. payload data = Inr bs \<and> length bs = unat (buf_length data) \<and> storage_ok r' \<and> ring_list r' = ring_list r @ bs"
proof -
  have small: "unat (buf_length data) \<le> 10485759" using assms(1,2) by (simp add: storage_ok_def)
  have "\<not> ring_full r 0" "\<not> ring_full r (buf_length data)"
    using ring_full_room [OF assms(1), of 0] ring_full_room [OF assms(1), of "buf_length data"] assms(2) small by simp_all
  then have "rbind (payload data) (\<lambda>bs. Inr (snd (tryWrite r bs (buf_length data)))) = Inr r'"
    using assms(3) by (simp add: write_block_def ring_full_def add.commute)
  then obtain bs where bs: "payload data = Inr bs" "r' = snd (tryWrite r bs (buf_length data))"
    by (auto simp: rbind_eq_Inr)
  have l: "length bs = unat (buf_length data)" using bs(1) unfolding payload_def by (rule buf_get_length)
  then have "of_nat (length bs) = buf_length data" by simp
  then show ?thesis using storage_write [OF assms(1), of bs] bs l assms(2) small by auto
qed

text \<open>Reading keeps a ring of this size one, however many elements are asked for.\<close>

lemma storage_read:
  assumes "storage_ok r"
  shows "storage_ok (snd (snd (tryRead r n False)))"
proof -
  have "unat ((rb_readIndex r + n) mod rb_capacity r) < unat (rb_capacity r)"
    using assms by (simp add: unat_mod storage_ok_def ring_inv_def)
  with assms show ?thesis by (simp add: tryRead_def storage_ok_def ring_inv_def ring_room_def)
qed

end
