(* ===== verification/Session_Env.thy ===== *)
theory Session_Env
  imports Session_Receive
begin

text \<open>
  What the handlers of a session do to the rest of the program. A session touches it only through
  the logic plugged into it, so whatever the logic's operations keep true of it, every handler
  keeps true. The locale states that contract once; the programs that plug in a logic (the server
  side connection, the inner connection) interpret it with the invariant of their storage.
\<close>

text \<open>The session's own operations leave the rest of the program as it is.\<close>

lemma env_upd_session [runs]: "P (w_env w) \<Longrightarrow> yields (upd_session sid f w) (\<lambda>w'. P (w_env w'))"
  by (rule yields_upd_session) simp

lemma env_pool_buffer: "P (w_env w) \<Longrightarrow> pool_buffer n w = (b, w') \<Longrightarrow> P (w_env w')"
  by (drule pool_buffer_world) simp

lemma env_set_logic [runs]: "P (w_env w) \<Longrightarrow> yields (set_logic sid l w) (\<lambda>w'. P (w_env w'))"
  unfolding set_logic_def by (rule env_upd_session)

lemma env_modify_logic [runs]: "P (w_env w) \<Longrightarrow> yields (modify_session_logic f sid l w) (\<lambda>w'. P (w_env w'))"
  unfolding modify_session_logic_def by (rule env_upd_session)

lemma env_update_recv_time [runs]: "P (w_env w) \<Longrightarrow> yields (update_recv_time sid w) (\<lambda>w'. P (w_env w'))"
  unfolding update_recv_time_def by (rule env_upd_session)

lemma env_update_send_time [runs]: "P (w_env w) \<Longrightarrow> yields (update_send_time sid w) (\<lambda>w'. P (w_env w'))"
  unfolding update_send_time_def by (rule env_upd_session)

lemma env_close_session [runs]: "P (w_env w) \<Longrightarrow> yields (close_session sid e w) (\<lambda>w'. P (w_env w'))"
  unfolding close_session_def by (rule yields_bind [OF yields_True]) simp

lemma env_close_task [runs]: "P (w_env w) \<Longrightarrow> yields (close_task sid w) (\<lambda>w'. P (w_env w'))"
  unfolding close_task_def by (rule env_upd_session)

lemma env_start_write [runs]: "P (w_env w) \<Longrightarrow> yields (start_write sid bs cb w) (\<lambda>w'. P (w_env w'))"
  unfolding start_write_def by (rule env_upd_session)

lemma env_async_connect [runs]: "P (w_env w) \<Longrightarrow> yields (async_connect sid w) (\<lambda>w'. P (w_env w'))"
  unfolding async_connect_def by (rule yields_bind [OF yields_True]) simp

lemma env_recv_loop [runs]: "P (w_env w) \<Longrightarrow> yields (async_recv_loop sid w) (\<lambda>w'. P (w_env w'))"
  unfolding async_recv_loop_def
  by (rule yields_bind [OF yields_True]) (auto simp: Let_def pool_buffer_def split: option.splits prod.splits)

lemma env_write_done [runs]: "P (w_env w) \<Longrightarrow> yields (write_done sid ec w) (\<lambda>w'. P (w_env w'))"
  unfolding write_done_def kick_def
  by (rule yields_bind [OF yields_True])
    (auto simp: Let_def intro!: env_close_session split: list.splits send_callback.splits option.splits)

lemma env_passive [runs]: "P (w_env w) \<Longrightarrow> yields (passively_connect_succ sid w) (\<lambda>w'. P (w_env w'))"
  unfolding passively_connect_succ_def
  by (rule yields_bind [OF env_upd_session [of P]], assumption, rule env_recv_loop)

text \<open>What the logic hands on: the block it was given, with a payload as long as the header says.\<close>

definition packet_block :: "protocol_head \<Rightarrow> reusable_buffer \<Rightarrow> reusable_buffer \<Rightarrow> bool" where
  "packet_block h r b \<longleftrightarrow> buf_SIZE b = buf_SIZE r \<and> buf_length b = ucast (head_len h) \<and> head_len h \<noteq> 0"

locale env_law =
  fixes vt :: "('l, 'x) vtable" and P :: "'x \<Rightarrow> bool"
  assumes unwrap_env: "P (w_env w) \<Longrightarrow>
      yields (vt_unwrap vt sid l db h r w) (\<lambda>(x, w'). P (w_env w') \<and> (fst x \<longrightarrow> packet_block h r (snd (snd x))))"
    and store_env: "P (w_env w) \<Longrightarrow> buf_SIZE b = ONCE_BUFFER_SIZE \<Longrightarrow> buf_length b = ucast (head_len h) \<Longrightarrow>
      head_len h \<noteq> 0 \<Longrightarrow>
      yields (vt_store vt sid l b h w) (\<lambda>(x, w'). P (w_env w'))"
    and wrap_env: "P (w_env w) \<Longrightarrow> yields (vt_wrap vt sid l b w) (\<lambda>(x, w'). P (w_env w'))"
begin

lemma env_async_send: "P (w_env w) \<Longrightarrow> yields (async_send (vt_wrap vt) sid b cb w) (\<lambda>w'. P (w_env w'))"
  unfolding async_send_def
proof (rule yields_bind [OF yields_True], rule yields_if, simp, rule yields_bind, erule env_update_send_time,
    rule yields_option, simp, rule yields_bind_pair, erule wrap_env, rule yields_bind [OF yields_True])
  show "P (w_env w) \<Longrightarrow> yields (start_write sid bs cb w) (\<lambda>w'. P (w_env w'))" for bs w
    by (rule env_start_write)
qed

lemma env_hand_over: "P (w_env w) \<Longrightarrow> yields (hand_over vt sid h db w) (\<lambda>(x, w'). P (w_env w'))"
proof -
  assume e: "P (w_env w)"
  obtain ub w1 where tb: "temp_buffer w = (ub, w1)" by fastforce
  have e1: "P (w_env w1)" using env_pool_buffer [of P, OF e tb] .
  have sz: "buf_SIZE ub = ONCE_BUFFER_SIZE" using pool_buffer_block [OF tb] by simp
  have stored: "yields (if \<not> ok then Inr ((None, db'), w2)
      else rbind (get_logic sid w2) (\<lambda>l. rbind (vt_store vt sid l r' h w2)
        (\<lambda>(stored, w). Inr ((Some stored, db'), w)))) (\<lambda>(x, w'). P (w_env w'))"
    if "P (w_env w2)" "ok \<longrightarrow> packet_block h ub r'" for ok db' r' and w2 :: "('l, 'x) world"
    by (rule yields_if, simp add: that, rule yields_bind [OF yields_True], rule yields_bind_pair [OF store_env [OF that(1)]])
      (use that(2) sz in \<open>auto simp: packet_block_def\<close>)
  have rest: "yields ((case x of (ok, data_block, unwrap_data) \<Rightarrow> \<lambda>w.
        if \<not> ok then Inr ((None, data_block), w)
        else rbind (get_logic sid w) (\<lambda>l. rbind (vt_store vt sid l unwrap_data h w)
          (\<lambda>(stored, w). Inr ((Some stored, data_block), w)))) w2) (\<lambda>(x, w'). P (w_env w'))"
    if "P (w_env w2) \<and> (fst x \<longrightarrow> packet_block h ub (snd (snd x)))" for x and w2 :: "('l, 'x) world"
  proof -
    obtain a b c where x: "x = (a, b, c)" by (cases x)
    then show ?thesis using that unfolding x prod.case fst_conv snd_conv by (intro stored) simp_all
  qed
  have "yields (vt_unwrap vt sid l db h (ub\<lparr>buf_offset := n\<rparr>) w1)
      (\<lambda>(x, w'). P (w_env w') \<and> (fst x \<longrightarrow> packet_block h ub (snd (snd x))))" for l n
    using unwrap_env [OF e1, of sid l db h "ub\<lparr>buf_offset := n\<rparr>"] by (simp add: packet_block_def)
  then show ?thesis unfolding hand_over_def tb Let_def prod.case
    by (intro yields_bind [OF yields_True] yields_bind_pair rest)
qed

lemma env_pick: "P (w_env w) \<Longrightarrow> yields (pick_a_entire_msg vt sid db w) (\<lambda>(x, w'). P (w_env w'))"
  unfolding pick_a_entire_msg_def Let_def
proof (rule yields_bind [OF yields_True], rule yields_option, simp, rule yields_pair, rule yields_if, simp,
    rule yields_bind [OF yields_True], rule yields_if, simp, rule yields_bind [OF yields_True],
    rule yields_bind [OF yields_True], rule yields_bind_pair2, erule env_hand_over, rule yields_if)
  show "yields (rbind (upd_session sid arm_retry_timer w) (\<lambda>w. Inr ((False, db), w))) (\<lambda>(x, w'). P (w_env w'))"
    if "P (w_env w)" for w :: "('l, 'x) world" and db :: reusable_buffer
    by (rule yields_bind [OF env_upd_session [of P, OF that]]) simp
  show "yields (rbind (get_session sid w) (\<lambda>s. case s_recv s of None \<Rightarrow> Inl NullDeref
      | Some recv \<Rightarrow> rbind (consume recv n) (\<lambda>recv. Inr ((True, db), put_session sid (s\<lparr>s_recv := recv\<rparr>) w))))
      (\<lambda>(x, w'). P (w_env w'))"
    if "P (w_env w)" for w :: "('l, 'x) world" and n and db :: reusable_buffer
    by (rule yields_bind [OF yields_True], rule yields_option, simp, rule yields_bind [OF yields_True]) (simp add: that)
qed

lemma env_loop: "P (w_env w) \<Longrightarrow> yields (pick_loop n vt sid db w) (\<lambda>w'. P (w_env w'))"
proof (induction n arbitrary: db w)
  case (Suc n)
  show ?case unfolding pick_loop.simps
    by (rule yields_bind_pair2 [OF env_pick [OF Suc.prems]]) (simp add: Suc.IH)
qed simp

lemma env_pick_entire: "P (w_env w) \<Longrightarrow> yields (pick_entire_msgs vt sid w) (\<lambda>w'. P (w_env w'))"
  unfolding pick_entire_msgs_def Let_def
  by (rule yields_pair, rule yields_bind, rule env_loop, erule (1) env_pool_buffer, erule env_recv_loop)

lemma env_read_done: "P (w_env w) \<Longrightarrow> yields (read_done vt sid ec bs w) (\<lambda>w'. P (w_env w'))"
proof -
  assume e: "P (w_env w)"
  have rest: "yields (rbind (update_recv_time sid v) (\<lambda>w.
       rbind (if ec then close_session sid False w else Inr w) (\<lambda>w.
       rbind (get_session sid w) (\<lambda>s.
       case s_recv s of None \<Rightarrow> Inl NullDeref
       | Some recv \<Rightarrow>
         rbind (deliver_read pr bs recv) (\<lambda>recv.
         pick_entire_msgs vt sid (put_session sid (s\<lparr>s_recv := Some recv\<rparr>) w)))))) (\<lambda>w'. P (w_env w'))"
    if "P (w_env v)" for v pr
    by (rule yields_bind [OF env_update_recv_time [of P, OF that]], rule yields_bind [where Q = "\<lambda>w. P (w_env w)"],
        simp add: env_close_session, rule yields_bind [OF yields_True], rule yields_option, simp,
        rule yields_bind [OF yields_True], rule env_pick_entire) simp
  show ?thesis unfolding read_done_def Let_def
    by (rule yields_bind [OF yields_True]) (auto simp: e rest split: list.split)
qed

lemma env_retry_timer: "P (w_env w) \<Longrightarrow> yields (retry_timer_done vt sid ec w) (\<lambda>w'. P (w_env w'))"
  unfolding retry_timer_done_def
  by (rule yields_bind [OF env_upd_session [of P]]) (auto intro: env_close_session env_pick_entire)

lemma env_tick_alive: "P (w_env w) \<Longrightarrow> yields (tick_alive (vt_wrap vt) sid w) (\<lambda>w'. P (w_env w'))"
  unfolding tick_alive_def Let_def kick_def
  by (rule yields_bind [OF yields_True])
    (auto simp: pool_buffer_def intro!: env_close_session env_async_send split: prod.split)

lemma env_fixed_tick: "P (w_env w) \<Longrightarrow> yields (fixed_tick (vt_wrap vt) sid w) (\<lambda>w'. P (w_env w'))"
  unfolding fixed_tick_def Let_def
proof (rule yields_bind [OF yields_True], rule yields_bind [OF yields_True], rule yields_pair,
    rule yields_bind [where Q = "\<lambda>w. P (w_env w)"])
  show "yields (if b then tick_alive (vt_wrap vt) sid (put_session sid s w) else Inr (put_session sid s w)) (\<lambda>w'. P (w_env w'))"
    if "P (w_env w)" for b s
    using env_tick_alive [of "put_session sid s w"] that by simp
qed (rule env_upd_session)

lemma env_tick_timer: "P (w_env w) \<Longrightarrow> yields (tick_timer_done (vt_wrap vt) sid ec w) (\<lambda>w'. P (w_env w'))"
  unfolding tick_timer_done_def
  by (rule yields_bind [OF env_upd_session [of P]]) (auto intro: env_fixed_tick)

lemma env_start_tick: "P (w_env w) \<Longrightarrow> yields (start_tick (vt_wrap vt) sid i t w) (\<lambda>w'. P (w_env w'))"
  unfolding start_tick_def
  by (rule yields_bind [OF env_upd_session [of P]], assumption,
      rule yields_bind [OF env_update_send_time [of P]], assumption,
      rule yields_bind [OF env_update_recv_time [of P]], assumption, rule env_fixed_tick)

lemma env_connect_done:
  assumes "P (w_env w)" "\<And>f w. cb = Some f \<Longrightarrow> P (w_env w) \<Longrightarrow> yields (f w) (\<lambda>w'. P (w_env w'))"
  shows "yields (connect_done cb sid ec ip w) (\<lambda>w'. P (w_env w'))"
  unfolding connect_done_def
proof (rule yields_if)
  show "yields (close_session sid False w) (\<lambda>w'. P (w_env w'))" by (rule env_close_session [of P, OF assms(1)])
  have called: "yields (case cb of None \<Rightarrow> Inr v | Some f \<Rightarrow> f v) (\<lambda>w'. P (w_env w'))" if "P (w_env v)" for v
    using assms(2) that by (cases cb) auto
  show "yields (rbind (upd_session sid (\<lambda>s. s\<lparr>s_state := CONNECTING, s_remote_ip := Some ip\<rparr>) w) (\<lambda>w.
      rbind (async_recv_loop sid w) (\<lambda>w. case cb of None \<Rightarrow> Inr w | Some f \<Rightarrow> f w))) (\<lambda>w'. P (w_env w'))"
    by (rule yields_bind [OF env_upd_session [of P, OF assms(1)]], rule yields_bind [OF env_recv_loop [of P]],
        assumption, rule called)
qed

end

end
