(* ===== verification/Active_Server.thy ===== *)
theory Active_Server
  imports Session_Env Proxy_Traffic Message_Storage
begin

text \<open>
  The server's end of the link to the proxy: \<open>TestClient/active_server_session_logic.cpp\<close> and
  \<open>TestClient/active_server_session_mgr.cpp\<close>. One session connects to the proxy, asks for its
  authentication, and puts every message it receives into a ring of bytes, from which the
  program picks them. The manager's members are the environment of the world.
\<close>

section \<open>Configuration and state\<close>

text \<open>\<open>cluster_config\<close>, as \<open>proxy_config\<close>; RapidJSON's values are integers or strings.\<close>

datatype json_value = JInt int | JString "byte list"

fun json_int :: "json_value option \<Rightarrow> int option" where
  "json_int (Some (JInt n)) = Some n"
| "json_int _ = None"

fun json_string :: "json_value option \<Rightarrow> byte list option" where
  "json_string (Some (JString s)) = Some s"
| "json_string _ = None"

record cluster_config =
  cc_proxy_ip :: "byte list"
  cc_proxy_port :: u16
  cc_sid :: u16
  cc_area_id :: u16
  cc_platform :: "byte list"
  cc_tick_interval :: u32
  cc_keep_alive_timeout :: u32

definition load_cluster_config :: "(string \<Rightarrow> json_value option) option \<Rightarrow> cluster_config res" where
  "load_cluster_config doc =
     (case doc of None \<Rightarrow> Inl Aborted
      | Some get \<Rightarrow>
        (case (json_string (get ''proxy_ip''), json_int (get ''proxy_port''), json_int (get ''sid''),
               json_int (get ''area_id''), json_string (get ''platform''), json_int (get ''tick_interval''),
               json_int (get ''keep_alive_timeout'')) of
           (Some ip, Some port, Some sid, Some area, Some platform, Some tick, Some alive) \<Rightarrow>
             Inr \<lparr>cc_proxy_ip = ip, cc_proxy_port = word_of_int port, cc_sid = word_of_int sid,
                  cc_area_id = word_of_int area, cc_platform = platform,
                  cc_tick_interval = word_of_int tick, cc_keep_alive_timeout = word_of_int alive\<rparr>
         | _ \<Rightarrow> Inl Aborted))"

text \<open>The logic; \<open>al_storage\<close> says whether it was given the manager's ring.\<close>

record active_logic =
  al_session_holder :: "nat option"
  al_authentication :: AuthenticationState
  al_seq :: u32
  al_server_info :: server_info
  al_storage :: bool

record active_env =
  am_config :: cluster_config
  am_session_excutor :: job_executor
  am_storage :: "byte ring"
  am_session :: "nat option"
  am_already_read_uid :: u32
  am_already_read_cmd :: u16
  am_already_read_length :: u16
  am_sock_info_map :: "u32 \<rightharpoonup> u32"

type_synonym active_world = "(active_logic, active_env) world"

definition upd_am :: "(active_env \<Rightarrow> active_env) \<Rightarrow> active_world \<Rightarrow> active_world" where
  "upd_am f w = w\<lparr>w_env := f (w_env w)\<rparr>"

text \<open>The constructor; the three \<open>_already_read_*\<close> members keep what memory held.\<close>

definition active_mgr_new ::
  "cluster_config \<Rightarrow> memory \<Rightarrow> u32 \<Rightarrow> u16 \<Rightarrow> u16 \<Rightarrow> active_env" where
  "active_mgr_new cfg junk uid cmd len =
     \<lparr>am_config = cfg, am_session_excutor = executor_new 1,
      am_storage = ring_clear (ring_new junk TOTAL_CACHE_SIZE), am_session = None,
      am_already_read_uid = uid, am_already_read_cmd = cmd, am_already_read_length = len,
      am_sock_info_map = Map.empty\<rparr>"

definition get_session_remote_ip :: "active_env \<Rightarrow> u32 \<Rightarrow> u32" where
  "get_session_remote_ip e s_uid = (case am_sock_info_map e s_uid of Some ip \<Rightarrow> ip | None \<Rightarrow> 0)"

definition set_session_remote_ip :: "u32 \<Rightarrow> u32 \<Rightarrow> active_env \<Rightarrow> active_env" where
  "set_session_remote_ip s_uid ip e = e\<lparr>am_sock_info_map := (am_sock_info_map e)(s_uid \<mapsto> ip)\<rparr>"

section \<open>The logic\<close>

definition active_apply_session :: "nat \<Rightarrow> active_logic \<Rightarrow> active_logic" where
  "active_apply_session sid l = l\<lparr>al_session_holder := Some sid\<rparr>"

definition active_prefix_size :: "active_logic \<Rightarrow> u64" where
  "active_prefix_size l = of_nat PROTO_HEAD_SIZE + session_uid_size"

definition active_reset :: "active_logic \<Rightarrow> active_logic" where
  "active_reset l = l\<lparr>al_seq := 0, al_authentication := BEFORE_VERIFY\<rparr>"

definition set_server_info :: "server_info \<Rightarrow> active_logic \<Rightarrow> active_logic" where
  "set_server_info s_info l = l\<lparr>al_server_info := s_info\<rparr>"

definition share_storage :: "active_logic \<Rightarrow> active_logic" where
  "share_storage l = l\<lparr>al_storage := True\<rparr>"

definition active_wrap :: "nat \<Rightarrow> active_logic \<Rightarrow> reusable_buffer \<Rightarrow> active_world \<Rightarrow> (reusable_buffer \<times> active_world) res" where
  "active_wrap sid l b w =
     (let cmd = (if al_authentication l = BEFORE_VERIFY then cmd_code Commands_AuthenticationAAA
                 else cmd_code Commands_RoutingTransparent);
          l = l\<lparr>al_seq := al_seq l + 1\<rparr>;
          head = get_a_head FRAME_KEY (ucast (buf_length b)) 0 cmd False (al_seq l)
      in
      rbind (set_logic sid l w) (\<lambda>w.
      rbind (payload b) (\<lambda>data.
      rbind (put_head b (seal_head head data)) (\<lambda>b. Inr (b, w)))))"

text \<open>
  \<open>check_verify_res\<close> and \<open>remote_session_info_confirm\<close>. The first takes success for failure. The
  second moves the start of the received block, which the caller uses again for the next packet.
\<close>

definition check_verify_res :: "reusable_buffer \<Rightarrow> active_logic \<Rightarrow> active_logic res" where
  "check_verify_res data l =
     rbind (aaa_response_unpack (\<lambda>o' n. buf_get data (buffer_at data (of_nat o')) n) (ucast (buf_length data))) (\<lambda>aaa_res.
     if res_ec aaa_res = error_code EC_Success then Inr (l\<lparr>al_authentication := VERIFY_FAILED\<rparr>)
     else Inr (l\<lparr>al_authentication := VERIFY_SUCC\<rparr>))"

definition remote_session_info_confirm :: "reusable_buffer \<Rightarrow> active_world \<Rightarrow> (reusable_buffer \<times> active_world) res" where
  "remote_session_info_confirm data w =
     rbind (buf_get data (buffer_at data 0) 4) (\<lambda>ub.
     let data = data\<lparr>buf_offset := buf_offset data + session_uid_size, buf_length := buf_length data - session_uid_size\<rparr> in
     rbind (confirm_unpack (\<lambda>o' n. buf_get data (buffer_at data (of_nat o')) n)) (\<lambda>ip.
     Inr (data, upd_am (set_session_remote_ip (read_uint32 ub) ip) w)))"

definition active_unwrap ::
  "nat \<Rightarrow> active_logic \<Rightarrow> reusable_buffer \<Rightarrow> protocol_head \<Rightarrow> reusable_buffer \<Rightarrow> active_world \<Rightarrow>
   ((bool \<times> reusable_buffer \<times> reusable_buffer) \<times> active_world) res" where
  "active_unwrap sid l buffer head ret_block w =
     rbind (mask_ok buffer head) (\<lambda>ok.
     if \<not> ok then Inr ((False, buffer, ret_block), w)
     else if head_len head = 0 then Inr ((False, buffer, ret_block), w)
     else if al_authentication l = BEFORE_VERIFY then
       rbind (check_verify_res buffer l) (\<lambda>l.
       rbind (set_logic sid l w) (\<lambda>w. Inr ((False, buffer, ret_block), w)))
     else if get_cmd head = cmd_code Commands_ConnectionConfirm then
       rbind (remote_session_info_confirm buffer w) (\<lambda>(buffer, w). Inr ((False, buffer, ret_block), w))
     else
       rbind (buf_get buffer (buffer_at buffer 0) (unat (head_len head))) (\<lambda>data.
       rbind (buf_put ret_block (buffer_at ret_block 0) data) (\<lambda>ret_block.
       Inr ((True, buffer, ret_block\<lparr>buf_length := ucast (head_len head)\<rparr>), w))))"

definition active_store ::
  "nat \<Rightarrow> active_logic \<Rightarrow> reusable_buffer \<Rightarrow> protocol_head \<Rightarrow> active_world \<Rightarrow> (bool \<times> active_world) res" where
  "active_store sid l data head w =
     rbind (buf_get data (buffer_at data 0) 4) (\<lambda>ub.
     let target_client_uid = read_uint32 ub;
         data = data\<lparr>buf_offset := buf_offset data + session_uid_size, buf_length := buf_length data - session_uid_size\<rparr>;
         r = am_storage (w_env w)
     in
     if \<not> al_storage l then Inl NullDeref
     else if ring_full r (8 + buf_length data) then Inr (False, w)
     else
       let r = snd (tryWrite r (write_uint32 target_client_uid) 4);
           r = snd (tryWrite r (write_uint16 (get_cmd head)) 2);
           r = snd (tryWrite r (write_uint16 (ucast (buf_length data))) 2)
       in
       rbind (write_block r data) (\<lambda>r. Inr (True, upd_am (\<lambda>e. e\<lparr>am_storage := r\<rparr>) w)))"

definition active_vt :: "(active_logic, active_env) vtable" where
  "active_vt = \<lparr>vt_prefix_size = active_prefix_size, vt_wrap = active_wrap, vt_unwrap = active_unwrap,
     vt_store = active_store\<rparr>"

definition active_kick_peer :: "active_logic \<Rightarrow> active_world \<Rightarrow> active_world" where
  "active_kick_peer l w = w"

text \<open>The request: the platform's name is a string, with a zero byte after it.\<close>

definition send_verify_authentication :: "active_logic \<Rightarrow> active_world \<Rightarrow> active_world res" where
  "send_verify_authentication l w =
     (let (send_buffer, w) = temp_buffer w;
          send_buffer = send_buffer\<lparr>buf_offset := of_nat PROTO_HEAD_SIZE\<rparr>;
          info = al_server_info l
      in
      rbind (aaa_request_pack (si_area_id info) (si_server_id info) (session_code ACTIVE_GAMESVR)
               (list_reader (si_platform info @ [0])) (of_nat (length (si_platform info)))) (\<lambda>(bs, len).
      rbind (buf_put send_buffer (buffer_at send_buffer 0) bs) (\<lambda>send_buffer.
      let send_buffer = send_buffer\<lparr>buf_length := ucast len\<rparr> in
      case al_session_holder l of None \<Rightarrow> Inr w
      | Some h \<Rightarrow> if w_sessions w h = None then Inr w else async_send active_wrap h send_buffer NoCallback w)))"

section \<open>The manager\<close>

text \<open>The callback of \<open>async_connect\<close>.\<close>

definition active_connected :: "active_world \<Rightarrow> active_world res" where
  "active_connected w =
     (case am_session (w_env w) of None \<Rightarrow> Inl NullDeref
      | Some sid \<Rightarrow>
        rbind (start_tick active_wrap sid (uint (cc_tick_interval (am_config (w_env w))))
                 (uint (cc_keep_alive_timeout (am_config (w_env w)))) w) (\<lambda>w.
        rbind (get_logic sid w) (\<lambda>l.
        send_verify_authentication l w)))"

text \<open>\<open>start\<close>: the name \<open>sid\<close> of the new session, what the pooled logic was left with, and what the
  session's uninitialised members hold are arguments.\<close>

definition active_start ::
  "nat \<Rightarrow> u64 \<Rightarrow> u64 \<Rightarrow> u64 \<Rightarrow> int \<Rightarrow> int \<Rightarrow> active_logic \<Rightarrow> active_world \<Rightarrow> active_world res" where
  "active_start sid agent_uuid clock frame_count interval timeout stale w =
     (let w = upd_am (\<lambda>e. e\<lparr>am_session_excutor := executor_start (am_session_excutor e)\<rparr>) w in
      rbind (new_session (am_session_excutor (w_env w)) agent_uuid clock frame_count interval timeout (w_now w)) (\<lambda>s.
      let w = upd_am (\<lambda>e. e\<lparr>am_session := Some sid\<rparr>) (put_session sid s w);
          cfg = am_config (w_env w);
          s_info = \<lparr>si_server_id = cc_sid cfg, si_area_id = cc_area_id cfg, si_platform = cc_platform cfg,
                    si_link_type = session_code ACTIVE_GAMESVR\<rparr>
      in
      rbind (modify_session_logic active_apply_session sid (active_reset stale) w) (\<lambda>w.
      rbind (get_logic sid w) (\<lambda>l.
      rbind (set_logic sid (share_storage (set_server_info s_info l)) w) (\<lambda>w.
      async_connect sid w)))))"

definition active_stop :: "active_env \<Rightarrow> active_env" where
  "active_stop e = e\<lparr>am_session_excutor := executor_stop (am_session_excutor e)\<rparr>"

definition active_send :: "u32 \<Rightarrow> reader \<Rightarrow> u16 \<Rightarrow> active_world \<Rightarrow> active_world res" where
  "active_send target_id data_block len w =
     (case am_session (w_env w) of None \<Rightarrow> Inl NullDeref
      | Some sid \<Rightarrow>
        let (tmp_buffer, w) = temp_buffer w in
        rbind (get_logic sid w) (\<lambda>l.
        let tmp_buffer = tmp_buffer\<lparr>buf_offset := active_prefix_size l\<rparr> in
        rbind (data_block 0 (unat len)) (\<lambda>data.
        rbind (buf_put tmp_buffer (buffer_at tmp_buffer 0) data) (\<lambda>tmp_buffer.
        let tmp_buffer = tmp_buffer\<lparr>buf_length := ucast len\<rparr> in
        rbind (buf_put tmp_buffer (origin_buffer tmp_buffer (of_nat PROTO_HEAD_SIZE)) (write_uint32 target_id)) (\<lambda>tmp_buffer.
        let tmp_buffer = tmp_buffer\<lparr>buf_offset := buf_offset tmp_buffer - session_uid_size,
                                    buf_length := buf_length tmp_buffer + session_uid_size\<rparr>
        in async_send active_wrap sid tmp_buffer NoCallback w)))))"

definition broadcast :: "u32 list \<Rightarrow> reader \<Rightarrow> u16 \<Rightarrow> active_world \<Rightarrow> active_world res" where
  "broadcast targets data_block len w =
     (if of_nat (length targets) > (0xFFFF :: u64) then Inr w
      else
        let (buffer, w) = temp_buffer w;
            buffer = buffer\<lparr>buf_offset := of_nat PROTO_HEAD_SIZE + of_nat (length targets) * session_uid_size + 2\<rparr>
        in
        rbind (data_block 0 (unat len)) (\<lambda>data.
        rbind (buf_put buffer (buffer_at buffer 0) data) (\<lambda>buffer.
        let buffer = buffer\<lparr>buf_length := ucast len\<rparr> in
        rbind (buf_put buffer (origin_buffer buffer (of_nat PROTO_HEAD_SIZE)) (write_uint16 (of_nat (length targets)))) (\<lambda>buffer.
        rbind (rfold (\<lambda>i b. buf_put b (origin_buffer b (of_nat PROTO_HEAD_SIZE + 2 + of_nat i * session_uid_size))
                 (write_uint32 (targets ! i))) [0..<length targets] buffer) (\<lambda>buffer.
        let buffer = buffer\<lparr>buf_offset := of_nat PROTO_HEAD_SIZE\<rparr> in
        case am_session (w_env w) of None \<Rightarrow> Inl NullDeref
        | Some sid \<Rightarrow> async_send active_wrap sid buffer NoCallback w)))))"

text \<open>
  \<open>pick_msg\<close>: the sender, the command, the bytes and their number, if it returns true. \<open>stack\<close> is
  what the three local arrays hold where \<open>tryRead\<close> leaves them alone.
\<close>

definition read_or :: "byte list \<Rightarrow> bool \<times> byte list \<times> byte ring \<Rightarrow> byte list \<times> byte ring" where
  "read_or stack r = (case r of (ok, bs, r) \<Rightarrow> (if ok then bs else stack, r))"

definition pick_header :: "byte list \<Rightarrow> byte list \<Rightarrow> byte list \<Rightarrow> active_env \<Rightarrow> active_env" where
  "pick_header stack_uid stack_cmd stack_len e =
     (let (uid, r) = read_or stack_uid (tryRead (am_storage e) 4 False);
          (cmd, r) = read_or stack_cmd (tryRead r 2 False);
          (len, r) = read_or stack_len (tryRead r 2 False)
      in e\<lparr>am_storage := r, am_already_read_uid := read_uint32 uid, am_already_read_cmd := read_uint16 cmd,
           am_already_read_length := read_uint16 len\<rparr>)"

definition pick_body :: "active_env \<Rightarrow> (u32 \<times> byte \<times> byte list \<times> u16) option \<times> active_env" where
  "pick_body e =
     (if ring_empty (am_storage e) (ucast (am_already_read_length e)) then (None, e)
      else
        let (ok, bs, r) = tryRead (am_storage e) (ucast (am_already_read_length e)) False
        in (Some (am_already_read_uid e, ucast (am_already_read_cmd e), bs, am_already_read_length e),
            e\<lparr>am_storage := r, am_already_read_uid := 0, am_already_read_cmd := 0, am_already_read_length := 0\<rparr>))"

definition pick_msg ::
  "byte list \<Rightarrow> byte list \<Rightarrow> byte list \<Rightarrow> active_env \<Rightarrow> (u32 \<times> byte \<times> byte list \<times> u16) option \<times> active_env" where
  "pick_msg stack_uid stack_cmd stack_len e =
     (if am_already_read_length e \<noteq> 0
      then if ring_empty (am_storage e) 8 then (None, e)
           else pick_body (pick_header stack_uid stack_cmd stack_len e)
      else pick_body e)"

end
