(* ===== verification/Active_Storage.thy ===== *)
theory Active_Storage
  imports Active_Server
begin

text \<open>
  The server's connection as a state machine, and its message storage: from the producer's side the
  ring always holds whole messages, whatever the proxy sends; from the consumer's side nothing
  ever comes out.
\<close>

section \<open>The steps\<close>

datatype active_event =
    ActiveConnected bool u32
  | ActiveRead bool "byte list"
  | ActiveWritten bool
  | ActiveClose
  | ActiveRetry bool
  | ActiveTick bool
  | ActiveElapse nat
  | ActiveSend u32 "byte list" u16
  | ActiveBroadcast "u32 list" "byte list" u16
  | ActivePick "byte list" "byte list" "byte list"

text \<open>When Asio may run a handler; the manager's own operations may be called at any time.\<close>

fun active_enabled :: "active_event \<Rightarrow> active_logic session \<Rightarrow> bool" where
  "active_enabled (ActiveConnected ec ip) s \<longleftrightarrow> s_state s = WAIT_CONNECT"
| "active_enabled (ActiveRead ec bs) s \<longleftrightarrow>
     s_reads s \<noteq> [] \<and> length bs \<le> unat (pr_room (hd (s_reads s))) \<and> (ec \<longrightarrow> bs = [])"
| "active_enabled (ActiveWritten ec) s \<longleftrightarrow> s_writes s \<noteq> []"
| "active_enabled ActiveClose s \<longleftrightarrow> s_closes s \<noteq> []"
| "active_enabled (ActiveRetry ec) s \<longleftrightarrow> (if ec then s_timer_cancelled s > 0 else s_timer s)"
| "active_enabled (ActiveTick ec) s \<longleftrightarrow> (if ec then s_tick_cancelled s > 0 else s_tick_timer s)"
| "active_enabled _ s \<longleftrightarrow> True"

fun active_handler :: "nat \<Rightarrow> active_event \<Rightarrow> active_world \<Rightarrow> active_world res" where
  "active_handler sid (ActiveConnected ec ip) w = connect_done (Some active_connected) sid ec ip w"
| "active_handler sid (ActiveRead ec bs) w = read_done active_vt sid ec bs w"
| "active_handler sid (ActiveWritten ec) w = write_done sid ec w"
| "active_handler sid ActiveClose w = close_task sid w"
| "active_handler sid (ActiveRetry ec) w = retry_timer_done active_vt sid ec w"
| "active_handler sid (ActiveTick ec) w = tick_timer_done active_wrap sid ec w"
| "active_handler sid (ActiveElapse n) w = Inr (w\<lparr>w_now := w_now w + int n\<rparr>)"
| "active_handler sid (ActiveSend target data len) w = active_send target (list_reader data) len w"
| "active_handler sid (ActiveBroadcast targets data len) w = broadcast targets (list_reader data) len w"
| "active_handler sid (ActivePick a b c) w = Inr (upd_am (\<lambda>e. snd (pick_msg a b c e)) w)"

inductive active_step :: "active_world \<Rightarrow> active_event \<Rightarrow> active_world \<Rightarrow> bool" where
  active_stepI: "am_session (w_env w) = Some sid \<Longrightarrow> w_sessions w sid = Some s \<Longrightarrow> active_enabled e s \<Longrightarrow>
     active_handler sid e w = Inr w' \<Longrightarrow> active_step w e w'"

inductive_cases active_stepE: "active_step w e w'"

text \<open>Before \<open>start\<close>: no session, and (memory fresh from the system) zero in the members left alone.\<close>

definition active_init :: "active_world \<Rightarrow> bool" where
  "active_init w \<longleftrightarrow> w_sessions w = Map.empty \<and> (\<exists>cfg junk. w_env w = active_mgr_new cfg junk 0 0 0)"

inductive active_reachable :: "active_world \<Rightarrow> bool" where
  active_reach_start: "active_init w \<Longrightarrow> active_start sid u c f i t stale w = Inr w' \<Longrightarrow> active_reachable w'"
| active_reach_step: "active_reachable w \<Longrightarrow> active_step w e w' \<Longrightarrow> active_reachable w'"

section \<open>Whole messages\<close>

text \<open>id(4) + cmd(2) + length(2) + data\<close>

definition message_bytes :: "u32 \<times> u16 \<times> byte list \<Rightarrow> byte list" where
  "message_bytes m = (case m of (uid, cmd, bs) \<Rightarrow>
     write_uint32 uid @ write_uint16 cmd @ write_uint16 (of_nat (length bs)) @ bs)"

text \<open>The header of a message.\<close>

definition store_header :: "u32 \<Rightarrow> u16 \<Rightarrow> u16 \<Rightarrow> byte ring \<Rightarrow> byte ring" where
  "store_header uid cmd len r =
     snd (tryWrite (snd (tryWrite (snd (tryWrite r (write_uint32 uid) 4)) (write_uint16 cmd) 2)) (write_uint16 len) 2)"

lemma store_header_ok:
  assumes "storage_ok r"
  shows "storage_ok (store_header uid cmd len r)"
    and "length (ring_list r) + 8 \<le> ring_room r \<Longrightarrow>
      ring_list (store_header uid cmd len r) = ring_list r @ write_uint32 uid @ write_uint16 cmd @ write_uint16 len"
    and "8 \<le> length (ring_list (store_header uid cmd len r))"
proof -
  let ?r1 = "snd (tryWrite r (write_uint32 uid) 4)"
  let ?r2 = "snd (tryWrite ?r1 (write_uint16 cmd) 2)"
  have 1: "storage_ok ?r1" "ring_list ?r1 = (if length (ring_list r) + 4 \<le> ring_room r then ring_list r @ write_uint32 uid else ring_list r)"
    using storage_write4 [OF assms] by simp_all
  have 2: "storage_ok ?r2" "ring_list ?r2 = (if length (ring_list ?r1) + 2 \<le> ring_room ?r1 then ring_list ?r1 @ write_uint16 cmd else ring_list ?r1)"
    using storage_write2 [OF 1(1)] by simp_all
  have 3: "storage_ok (store_header uid cmd len r)"
      "ring_list (store_header uid cmd len r)
       = (if length (ring_list ?r2) + 2 \<le> ring_room ?r2 then ring_list ?r2 @ write_uint16 len else ring_list ?r2)"
    using storage_write2 [OF 2(1)] by (simp_all add: store_header_def)
  have room: "ring_room ?r1 = ring_room r" "ring_room ?r2 = ring_room r"
    using 1(1) 2(1) assms by (simp_all add: storage_ok_def)
  show "storage_ok (store_header uid cmd len r)" by (rule 3(1))
  show "length (ring_list r) + 8 \<le> ring_room r \<Longrightarrow>
      ring_list (store_header uid cmd len r) = ring_list r @ write_uint32 uid @ write_uint16 cmd @ write_uint16 len"
    unfolding 3(2) room 2(2) 1(2) by (simp del: length_ring_list)
  show "8 \<le> length (ring_list (store_header uid cmd len r))"
    using assms unfolding 3(2) room 2(2) 1(2) by (simp add: storage_ok_def del: length_ring_list)
qed

section \<open>What a message from the proxy adds\<close>

text \<open>
  A packet without room for the sender's name has its length wrap around; the copy that follows
  runs off the block, which is why the lemma speaks of the storing that returns.
\<close>

lemma active_store_adds:
  assumes run: "active_store sid l b h w = Inr (ok, w')" and ok: "storage_ok (am_storage (w_env w))"
    and block: "buf_SIZE b = ONCE_BUFFER_SIZE" "unat (buf_length b) < 2 ^ 16"
  shows "w' = w \<or> (\<exists>r m. storage_ok r \<and> ring_list r = ring_list (am_storage (w_env w)) @ message_bytes m
    \<and> w' = upd_am (\<lambda>e. e\<lparr>am_storage := r\<rparr>) w)"
proof (cases "w' = w")
  case False
  let ?r = "am_storage (w_env w)" and ?d = "b\<lparr>buf_offset := buf_offset b + session_uid_size,
    buf_length := buf_length b - session_uid_size\<rparr>"
  obtain ub where "buf_get b (buffer_at b 0) 4 = Inr ub" using run by (auto simp: active_store_def rbind_eq_Inr)
  define uid where "uid = read_uint32 ub"
  let ?h = "store_header uid (get_cmd h) (ucast (buf_length ?d)) ?r"
  have nf: "\<not> ring_full ?r (8 + buf_length ?d)" and "\<exists>r. write_block ?h ?d = Inr r \<and> w' = upd_am (\<lambda>e. e\<lparr>am_storage := r\<rparr>) w"
    using run False \<open>buf_get b _ 4 = Inr ub\<close> unfolding active_store_def store_header_def uid_def
    by (auto simp: Let_def rbind_eq_Inr split: if_splits)
  then obtain r where r: "write_block ?h ?d = Inr r" "w' = upd_am (\<lambda>e. e\<lparr>am_storage := r\<rparr>) w" by blast
  have room: "ring_room ?r = 10485759" using ok by (simp add: storage_ok_def)
  have inner: "unat (buf_length ?d) < 2 ^ 16"
  proof (rule ccontr)
    assume "\<not> unat (buf_length ?d) < 2 ^ 16"
    then have "2 ^ 64 - 8 \<le> unat (buf_length ?d)"
      using block(2) by (simp add: unat_sub_if' split: if_splits)
    then have "write_block ?h ?d = Inl OutOfBounds"
      using store_header_ok [OF ok] block by (intro write_block_short) simp_all
    with r show False by simp
  qed
  have n: "unat (8 + buf_length ?d) = 8 + unat (buf_length ?d)" using inner by (intro trans [OF unat_add_small]) simp_all
  then have fits: "length (ring_list ?r) + 8 + unat (buf_length ?d) \<le> ring_room ?r"
    using ring_full_room [OF ok, of "8 + buf_length ?d"] nf inner by simp
  have h: "storage_ok ?h" "ring_list ?h = ring_list ?r @ write_uint32 uid @ write_uint16 (get_cmd h) @ write_uint16 (ucast (buf_length ?d))"
    using store_header_ok [OF ok] fits by simp_all
  then obtain bs where bs: "length bs = unat (buf_length ?d)" "storage_ok r" "ring_list r = ring_list ?h @ bs"
    using write_block_fits [of ?h ?d r] fits r(1) room by (fastforce simp: storage_ok_def simp del: length_ring_list)
  have "(of_nat (length bs) :: u16) = ucast (buf_length ?d)" using bs(1) by simp
  then have "ring_list r = ring_list ?r @ message_bytes (uid, get_cmd h, bs)"
    using bs(3) h(2) by (simp add: message_bytes_def)
  with bs(2) r(2) show ?thesis by blast
qed simp

section \<open>The handlers keep the storage whole\<close>

text \<open>From a ring that held \<open>L\<close>: still \<open>L\<close>, then whole messages; and no length left over from a pick.\<close>

definition grown :: "byte list \<Rightarrow> active_env \<Rightarrow> bool" where
  "grown L e \<longleftrightarrow> storage_ok (am_storage e) \<and> am_already_read_length e = 0
     \<and> (\<exists>ms. ring_list (am_storage e) = L @ concat (map message_bytes ms))"

lemma grown_refl: "storage_ok (am_storage e) \<Longrightarrow> am_already_read_length e = 0 \<Longrightarrow> grown (ring_list (am_storage e)) e"
  unfolding grown_def by (auto intro!: exI [of _ "[]"])

lemma grown_again: "grown (concat (map message_bytes ms)) e \<Longrightarrow> grown [] e"
  unfolding grown_def by (metis append_Nil concat_append map_append)

lemma grown_executor [simp]: "grown L (e\<lparr>am_session_excutor := x\<rparr>) \<longleftrightarrow> grown L e"
  "grown L (e\<lparr>am_session := y\<rparr>) \<longleftrightarrow> grown L e"
  "grown L (set_session_remote_ip u ip e) \<longleftrightarrow> grown L e"
  by (simp_all add: grown_def set_session_remote_ip_def)

lemma w_env_upd_am [simp]: "w_env (upd_am f w) = f (w_env w)"
  by (simp add: upd_am_def)

lemma grown_store:
  assumes "grown L (w_env w)" "buf_SIZE b = ONCE_BUFFER_SIZE" "buf_length b = ucast (head_len h)"
  shows "yields (active_store sid l b h w) (\<lambda>(x, w'). grown L (w_env w'))"
proof (clarsimp simp: yields_def)
  fix ok w' assume run: "active_store sid l b h w = Inr (ok, w')"
  have "storage_ok (am_storage (w_env w))" using assms(1) by (simp add: grown_def)
  moreover have "unat (buf_length b) < 2 ^ 16" using unsigned_less [of "head_len h"] by (simp add: assms(3) unat_ucast_up)
  ultimately consider "w' = w"
    | r m where "storage_ok r" "ring_list r = ring_list (am_storage (w_env w)) @ message_bytes m"
        "w' = upd_am (\<lambda>e. e\<lparr>am_storage := r\<rparr>) w"
    using active_store_adds [OF run _ assms(2)] by blast
  then show "grown L (w_env w')"
  proof cases
    case (2 r m)
    from assms(1) obtain ms where "ring_list (am_storage (w_env w)) = L @ concat (map message_bytes ms)"
      by (auto simp: grown_def)
    then have "ring_list r = L @ concat (map message_bytes (ms @ [m]))" using 2(2) by simp
    then show ?thesis using assms(1) 2(1,3) by (auto simp: grown_def simp del: map_append)
  qed (simp add: assms)
qed

lemma grown_wrap: "grown L (w_env w) \<Longrightarrow> yields (active_wrap sid l b w) (\<lambda>(x, w'). grown L (w_env w'))"
  unfolding active_wrap_def Let_def
  by (rule yields_bind [OF env_set_logic [of "grown L"]], assumption, rule yields_bind [OF yields_True],
      rule yields_bind [OF yields_True]) simp

lemma grown_unwrap:
  assumes "grown L (w_env w)"
  shows "yields (active_unwrap sid l db h r w)
    (\<lambda>(x, w'). grown L (w_env w') \<and> (fst x \<longrightarrow> packet_block h r (snd (snd x))))"
proof -
  have confirm: "yields (remote_session_info_confirm db w) (\<lambda>(b, w'). grown L (w_env w'))"
    unfolding remote_session_info_confirm_def Let_def
    by (rule yields_bind [OF yields_True], rule yields_bind [OF yields_True]) (simp add: assms)
  have copy: "head_len h \<noteq> 0 \<Longrightarrow> yields (rbind (buf_get db (buffer_at db 0) n) (\<lambda>data.
       rbind (buf_put r (buffer_at r 0) data) (\<lambda>ret_block.
       Inr ((True, db, ret_block\<lparr>buf_length := ucast (head_len h)\<rparr>), w))))
    (\<lambda>(x, w'). grown L (w_env w') \<and> (fst x \<longrightarrow> packet_block h r (snd (snd x))))" for n
    using assms by (auto simp: yields_def rbind_eq_Inr packet_block_def buf_put_Inr_iff)
  have check: "yields (rbind (check_verify_res db l) (\<lambda>l. rbind (set_logic sid l w) (\<lambda>w. Inr ((False, db, r), w))))
    (\<lambda>(x, w'). grown L (w_env w') \<and> (fst x \<longrightarrow> packet_block h r (snd (snd x))))"
    by (rule yields_bind [OF yields_True], rule yields_bind [OF env_set_logic [of "grown L"]], rule assms) simp
  show ?thesis unfolding active_unwrap_def
    by (rule yields_bind [OF yields_True], rule yields_if, simp add: assms, rule yields_if, simp add: assms,
        rule yields_if, rule check, rule yields_if, rule yields_bind_pair, rule confirm, simp, rule copy, assumption)
qed

interpretation active: env_law active_vt "grown L" for L
  by unfold_locales (simp_all add: active_vt_def grown_unwrap grown_store grown_wrap)

lemma grown_async_send: "grown L (w_env w) \<Longrightarrow> yields (async_send active_wrap sid b cb w) (\<lambda>w'. grown L (w_env w'))"
  using active.env_async_send [of L] by (simp add: active_vt_def)

lemma grown_verify: "grown L (w_env w) \<Longrightarrow> yields (send_verify_authentication l w) (\<lambda>w'. grown L (w_env w'))"
  unfolding send_verify_authentication_def Let_def
  by (rule yields_pair, rule yields_bind_pair [where Q = "\<lambda>_ _. True"], simp add: yields_def,
      rule yields_bind [OF yields_True], rule yields_option)
    (auto intro!: grown_async_send dest: env_pool_buffer [of "grown L"])

lemma grown_connected: "grown L (w_env w) \<Longrightarrow> yields (active_connected w) (\<lambda>w'. grown L (w_env w'))"
  unfolding active_connected_def
proof (rule yields_option, simp, rule yields_bind, rule active.env_start_tick [of L, unfolded active_vt_def vtable.simps],
    assumption, rule yields_bind [OF yields_True])
  show "grown L (w_env w) \<Longrightarrow> yields (send_verify_authentication l w) (\<lambda>w'. grown L (w_env w'))" for l w
    by (rule grown_verify)
qed

lemma grown_send: "grown L (w_env w) \<Longrightarrow> yields (active_send t d n w) (\<lambda>w'. grown L (w_env w'))"
  unfolding active_send_def Let_def
  by (rule yields_option, simp, rule yields_pair, (rule yields_bind [OF yields_True])+)
    (auto intro!: grown_async_send dest: env_pool_buffer [of "grown L"])

lemma grown_broadcast: "grown L (w_env w) \<Longrightarrow> yields (broadcast ts d n w) (\<lambda>w'. grown L (w_env w'))"
  unfolding broadcast_def Let_def
  by (rule yields_if, simp, rule yields_pair, (rule yields_bind [OF yields_True])+, rule yields_option)
    (auto intro!: grown_async_send dest: env_pool_buffer [of "grown L"])

section \<open>Picking\<close>

text \<open>With no length left over, \<open>pick_msg\<close> skips the header and reads no bytes.\<close>

lemma pick_nothing_out:
  assumes "storage_ok (am_storage e)" "am_already_read_length e = 0"
  shows "\<exists>e'. snd (pick_msg a b c e) = e' \<and> ring_list (am_storage e') = ring_list (am_storage e)
    \<and> storage_ok (am_storage e') \<and> am_already_read_length e' = 0
    \<and> (\<forall>u cm bs n. fst (pick_msg a b c e) = Some (u, cm, bs, n) \<longrightarrow> bs = [] \<and> n = 0)"
proof (cases "ring_list (am_storage e) = []")
  case True
  then have "ring_empty (am_storage e) 0" using assms(1) by (simp add: storage_ok_def ring_empty_0)
  then show ?thesis using assms by (simp add: pick_msg_def pick_body_def)
next
  case False
  have inv: "ring_inv (am_storage e)" using assms(1) by (simp add: storage_ok_def)
  obtain r where r: "tryRead (am_storage e) 0 False = (True, [], r)" "ring_inv r"
      "ring_list r = ring_list (am_storage e)" "ring_room r = ring_room (am_storage e)"
    using rbq.read_stored [OF inv _ False, of 0] by auto
  have "\<not> ring_empty (am_storage e) 0" using False by (simp add: ring_empty_0 [OF inv])
  then show ?thesis using assms r by (simp add: pick_msg_def pick_body_def storage_ok_def)
qed

lemma grown_pick: "grown L e \<Longrightarrow> grown L (snd (pick_msg a b c e))"
  using pick_nothing_out [of e a b c] by (auto simp: grown_def)

section \<open>Every step\<close>

lemma active_step_grown:
  assumes "active_step w e w'" "grown L (w_env w)"
  shows "grown L (w_env w')"
proof -
  from assms(1) obtain sid where run: "active_handler sid e w = Inr w'" by (auto elim: active_stepE)
  have "yields (active_handler sid e w) (\<lambda>w'. grown L (w_env w'))"
  proof (cases e)
    case (ActiveConnected ec ip)
    show ?thesis unfolding ActiveConnected active_handler.simps
      by (rule active.env_connect_done [OF assms(2)]) (auto intro: grown_connected)
  next
    case (ActiveRead ec bs)
    show ?thesis unfolding ActiveRead active_handler.simps by (rule active.env_read_done [OF assms(2)])
  next
    case (ActiveWritten ec)
    show ?thesis unfolding ActiveWritten active_handler.simps by (rule env_write_done [of "grown L", OF assms(2)])
  next
    case ActiveClose
    show ?thesis unfolding ActiveClose active_handler.simps by (rule env_close_task [of "grown L", OF assms(2)])
  next
    case (ActiveRetry ec)
    show ?thesis unfolding ActiveRetry active_handler.simps by (rule active.env_retry_timer [OF assms(2)])
  next
    case (ActiveTick ec)
    show ?thesis unfolding ActiveTick active_handler.simps
      using active.env_tick_timer [OF assms(2), of sid ec] by (simp add: active_vt_def)
  next
    case (ActiveElapse n)
    then show ?thesis using assms(2) by simp
  next
    case (ActiveSend t data n)
    show ?thesis unfolding ActiveSend active_handler.simps by (rule grown_send [OF assms(2)])
  next
    case (ActiveBroadcast ts data n)
    show ?thesis unfolding ActiveBroadcast active_handler.simps by (rule grown_broadcast [OF assms(2)])
  next
    case (ActivePick a b c)
    then show ?thesis using assms(2) by (simp add: grown_pick)
  qed
  with run show ?thesis by (rule yieldsD)
qed

lemma active_start_grown:
  assumes "active_init w" "active_start sid u c f i t stale w = Inr w'"
  shows "grown [] (w_env w')"
proof -
  have e: "grown [] (w_env w)"
    using assms(1) storage_ok_new by (auto simp: active_init_def active_mgr_new_def grown_def intro: exI [of _ "[]"])
  have "yields (active_start sid u c f i t stale w) (\<lambda>w'. grown [] (w_env w'))"
    unfolding active_start_def Let_def
    by (rule yields_bind [OF yields_True], rule yields_bind, rule env_modify_logic [of "grown []"],
        simp add: e put_session_def, rule yields_bind [OF yields_True], rule yields_bind,
        erule env_set_logic [of "grown []"], erule env_async_connect [of "grown []"])
  with assms(2) show ?thesis by (rule yieldsD)
qed

lemma active_reachable_grown: "active_reachable w \<Longrightarrow> grown [] (w_env w)"
proof (induction rule: active_reachable.induct)
  case (active_reach_start w sid u c f i t stale w')
  then show ?case by (rule active_start_grown)
next
  case (active_reach_step w e w')
  show ?case by (rule active_step_grown [OF active_reach_step(2,3)])
qed

section \<open>Properties\<close>

text \<open>Data for the witnesses: the state after \<open>start\<close>.\<close>

definition sample_cluster :: cluster_config where
  "sample_cluster = \<lparr>cc_proxy_ip = [49], cc_proxy_port = 2001, cc_sid = 3, cc_area_id = 4, cc_platform = [97],
     cc_tick_interval = 100, cc_keep_alive_timeout = 30000\<rparr>"

definition sample_manager :: active_world where
  "sample_manager = \<lparr>w_sessions = Map.empty, w_now = 0, w_alloc = 0, w_junk = (\<lambda>_ _. 0),
     w_env = active_mgr_new sample_cluster (\<lambda>_. 0) 0 0 0\<rparr>"

definition sample_active_logic :: active_logic where
  "sample_active_logic = \<lparr>al_session_holder = None, al_authentication = BEFORE_VERIFY, al_seq = 0,
     al_server_info = sample_info, al_storage = False\<rparr>"

definition sample_started :: active_world where
  "sample_started = (case active_start 0 0 5 0 0 0 sample_active_logic sample_manager of Inr w \<Rightarrow> w)"

lemmas active_start_defs = active_start_def new_session_def agent_strand_def strand_to_run_def executor_new_def
  executor_start_def modify_session_logic_def upd_session_def get_session_def put_session_def upd_am_def
  get_logic_def set_logic_def async_connect_def active_mgr_new_def Let_def

lemma sample_starts:
  "\<exists>w s. active_start 0 0 5 0 0 0 sample_active_logic sample_manager = Inr w
     \<and> am_session (w_env w) = Some 0 \<and> w_sessions w 0 = Some s \<and> s_state s = WAIT_CONNECT"
  by (simp add: active_start_defs sample_manager_def)

lemma sample_started: "active_start 0 0 5 0 0 0 sample_active_logic sample_manager = Inr sample_started"
  using sample_starts by (auto simp: sample_started_def)

lemma sample_reachable: "active_reachable sample_started"
  by (rule active_reach_start [OF _ sample_started]) (auto simp: active_init_def sample_manager_def)

lemma sample_connecting:
  "am_session (w_env sample_started) = Some 0" "\<exists>s. w_sessions sample_started 0 = Some s \<and> s_state s = WAIT_CONNECT"
  using sample_starts by (auto simp: sample_started_def)





end
