(* ===== verification/Active_Traffic.thy ===== *)
theory Active_Traffic
  imports Active_Storage
begin

text \<open>
  What the server's end writes to the proxy, and what it makes of the answer to its
  authentication.
\<close>

section \<open>Sending\<close>

text \<open>A block with the receiver's name in front of the data.\<close>

definition routed_block :: "u32 \<Rightarrow> byte list \<Rightarrow> u16 \<Rightarrow> reusable_buffer \<Rightarrow> reusable_buffer" where
  "routed_block t data len b =
     b\<lparr>buf_bytes := mem_write (mem_write (buf_bytes b) 15 data) 11 (write_uint32 t),
       buf_offset := of_nat PROTO_HEAD_SIZE, buf_length := ucast len + 4\<rparr>"

lemma routed_send_block:
  assumes "length data = unat len" "unat len \<le> 65521" "buf_SIZE b = ONCE_BUFFER_SIZE"
  shows "send_block (routed_block t data len b) (write_uint32 t @ data)"
proof -
  have n: "unat (ucast len + 4 :: u64) = 4 + unat len"
    using assms(2) by (subst unat_add_small) (simp_all add: unat_ucast_up)
  let ?m = "mem_write (mem_write (buf_bytes b) 15 data) 11 (write_uint32 t)"
  have "mem_read ?m 11 (4 + unat len) = mem_read ?m 11 4 @ mem_read ?m 15 (unat len)"
    using mem_read_append [of ?m 11 4 "unat len"] by simp
  also have "\<dots> = write_uint32 t @ data" using assms(1) by (simp add: mem_simps)
  finally show ?thesis using n assms
    by (simp add: send_block_def routed_block_def payload_def buf_get_def)
qed

lemma active_wrap_packet:
  assumes "send_block b data" "w_sessions w sid = Some s"
  shows "\<exists>b' bs h. active_wrap sid l b w
      = Inr (b', put_session sid (s\<lparr>s_logic := Some (l\<lparr>al_seq := al_seq l + 1\<rparr>)\<rparr>) w)
    \<and> payload b' = Inr bs \<and> one_packet bs h data \<and> head_seq h = al_seq l + 1 \<and> \<not> get_compressed h
    \<and> get_cmd h = (if al_authentication l = BEFORE_VERIFY then cmd_code Commands_AuthenticationAAA
                   else cmd_code Commands_RoutingTransparent)"
proof -
  let ?c = "if al_authentication l = BEFORE_VERIFY then cmd_code Commands_AuthenticationAAA
            else cmd_code Commands_RoutingTransparent"
  let ?h = "seal_head (get_a_head FRAME_KEY (ucast (buf_length b)) 0 ?c False (al_seq l + 1)) data"
  have "one_packet (head_bytes ?h @ data) ?h data"
    by (rule sealed_one_packet) (simp add: send_block_len16 [OF assms(1)])
  moreover obtain b' where "put_head b ?h = Inr b'" "payload b' = Inr (head_bytes ?h @ data)"
    using put_head_packet [OF assms(1)] by blast
  moreover have "get_cmd ?h = ?c" by (simp add: get_cmd_head)
  ultimately show ?thesis
    unfolding active_wrap_def Let_def set_logic_at [OF assms(2)] rbind_Inr send_block_payload [OF assms(1)]
    by - (rule exI [of _ b'], rule exI [of _ "head_bytes ?h @ data"], rule exI [of _ ?h], simp)
qed

lemma async_send_packet:
  assumes "send_block b data" "w_sessions w sid = Some s" "s_state s = CONNECTING" "s_logic s = Some l"
  shows "\<exists>w' bs h s'. async_send active_wrap sid b NoCallback w = Inr w' \<and> w_sessions w' sid = Some s'
    \<and> s_writes s' = s_writes s @ [\<lparr>pw_bytes = bs, pw_callback = NoCallback\<rparr>]
    \<and> s_logic s' = Some (l\<lparr>al_seq := al_seq l + 1\<rparr>) \<and> one_packet bs h data \<and> head_seq h = al_seq l + 1
    \<and> \<not> get_compressed h \<and> s_state s' = s_state s \<and> s_recv s' = s_recv s
    \<and> s_reads s' = s_reads s \<and> w_env w' = w_env w
    \<and> get_cmd h = (if al_authentication l = BEFORE_VERIFY then cmd_code Commands_AuthenticationAAA
                   else cmd_code Commands_RoutingTransparent)"
proof -
  let ?s = "s\<lparr>s_last_send_time := w_now w\<rparr>"
  have "w_sessions (put_session sid ?s w) sid = Some ?s" by (simp add: put_session_def)
  from active_wrap_packet [OF assms(1) this, of l] obtain b' bs h where
    wrap: "active_wrap sid l b (put_session sid ?s w)
      = Inr (b', put_session sid (?s\<lparr>s_logic := Some (l\<lparr>al_seq := al_seq l + 1\<rparr>)\<rparr>) (put_session sid ?s w))"
      "payload b' = Inr bs" "one_packet bs h data" "head_seq h = al_seq l + 1" "\<not> get_compressed h"
      "get_cmd h = (if al_authentication l = BEFORE_VERIFY then cmd_code Commands_AuthenticationAAA
                   else cmd_code Commands_RoutingTransparent)" by blast
  have run: "async_send active_wrap sid b NoCallback w = Inr (put_session sid
      (?s\<lparr>s_logic := Some (l\<lparr>al_seq := al_seq l + 1\<rparr>), s_writes := s_writes s @ [\<lparr>pw_bytes = bs, pw_callback = NoCallback\<rparr>]\<rparr>)
      (put_session sid (?s\<lparr>s_logic := Some (l\<lparr>al_seq := al_seq l + 1\<rparr>)\<rparr>) (put_session sid ?s w)))"
    using assms wrap(1,2)
    by (simp add: async_send_def get_session_def update_send_time_def upd_session_def start_write_def put_session_def)
  show ?thesis unfolding run using wrap(3-)
    by - (rule exI, rule exI [of _ bs], rule exI [of _ h],
      rule exI [of _ "?s\<lparr>s_logic := Some (l\<lparr>al_seq := al_seq l + 1\<rparr>),
        s_writes := s_writes s @ [\<lparr>pw_bytes = bs, pw_callback = NoCallback\<rparr>]\<rparr>"], rule conjI, rule refl, simp add: put_session_def)
qed

lemma active_send_one:
  assumes "am_session (w_env w) = Some sid" "w_sessions w sid = Some s" "s_state s = CONNECTING" "s_logic s = Some l"
    and "rd 0 (unat len) = Inr data" "length data = unat len" "unat len \<le> 65521"
  shows "\<exists>w' bs h s'. active_send t rd len w = Inr w' \<and> w_sessions w' sid = Some s'
    \<and> s_writes s' = s_writes s @ [\<lparr>pw_bytes = bs, pw_callback = NoCallback\<rparr>]
    \<and> s_logic s' = Some (l\<lparr>al_seq := al_seq l + 1\<rparr>) \<and> one_packet bs h (write_uint32 t @ data)
    \<and> head_seq h = al_seq l + 1 \<and> \<not> get_compressed h \<and> s_state s' = s_state s \<and> s_recv s' = s_recv s
    \<and> s_reads s' = s_reads s \<and> w_env w' = w_env w
    \<and> get_cmd h = (if al_authentication l = BEFORE_VERIFY then cmd_code Commands_AuthenticationAAA
                   else cmd_code Commands_RoutingTransparent)"
proof -
  obtain b w1 where b: "temp_buffer w = (b, w1)" by fastforce
  have w1: "w_sessions w1 = w_sessions w" "w_env w1 = w_env w" "buf_SIZE b = ONCE_BUFFER_SIZE" "buf_offset b = 0"
    using b by (auto simp: pool_buffer_def reset_buffer_def)
  have s1: "w_sessions w1 sid = Some s" using assms(2) w1 by simp
  have run: "active_send t rd len w = async_send active_wrap sid (routed_block t data len b) NoCallback w1"
    unfolding active_send_def b Let_def
    using assms s1 w1 by (simp add: get_logic_def get_session_def active_prefix_size_def buf_put_def routed_block_def)
  show ?thesis unfolding run
    using async_send_packet [OF routed_send_block [OF assms(6,7) w1(3)] s1 assms(3,4)] w1(2) by metis
qed

section \<open>The answer\<close>

text \<open>A packed answer read back out of a block: success is taken for failure, and the other way round.\<close>

lemma check_verify_inverted:
  assumes "holds (\<lambda>o' n. buf_get data (buffer_at data (of_nat o')) n) (bs @ rest)" "0 < unat klen" "unat klen + 10 < 65536"
    and "unat klen \<le> length key" "aaa_response_pack ec sub md (list_reader key) klen link_no link_type = Inr (bs, n)"
    and "ucast (buf_length data) = n"
  shows "check_verify_res data l
    = Inr (l\<lparr>al_authentication := if ec = error_code EC_Success then VERIFY_FAILED else VERIFY_SUCC\<rparr>)"
  using aaa_response_roundtrip(2) [OF assms(1-5)] assms(6) by (simp add: check_verify_res_def)

section \<open>Properties\<close>

text \<open>\<open>send\<close> on a connected session writes one whole packet with the right checksum: the receiver's name,
  then the data, under the next sequence number. Until an answer came it is sent as an
  authentication request.\<close>

theorem active_send_packet:
  assumes "am_session (w_env w) = Some sid" "w_sessions w sid = Some s" "s_state s = CONNECTING" "s_logic s = Some l"
    and "rd 0 (unat len) = Inr data" "length data = unat len" "unat len \<le> 65521"
  shows "\<exists>w' bs h s'. active_send t rd len w = Inr w' \<and> w_sessions w' sid = Some s'
    \<and> s_writes s' = s_writes s @ [\<lparr>pw_bytes = bs, pw_callback = NoCallback\<rparr>]
    \<and> s_logic s' = Some (l\<lparr>al_seq := al_seq l + 1\<rparr>) \<and> one_packet bs h (write_uint32 t @ data)
    \<and> head_seq h = al_seq l + 1 \<and> \<not> get_compressed h
    \<and> get_cmd h = (if al_authentication l = BEFORE_VERIFY then cmd_code Commands_AuthenticationAAA
                   else cmd_code Commands_RoutingTransparent)"
  using active_send_one [where rd = rd, OF assms] by blast

definition sample_active_peer :: "active_logic session" where
  "sample_active_peer = \<lparr>s_state = CONNECTING, s_open = True, s_remote_ip = Some 1, s_recv = None, s_reads = [],
     s_writes = [], s_closes = [], s_timer = False, s_timer_cancelled = 0, s_tick_timer = False,
     s_tick_cancelled = 0, s_tick_interval = 100, s_frame_count = 0, s_keep_alive_timeout = 30000,
     s_last_recv_time = 0, s_last_send_time = 0, s_logic = Some sample_active_logic, s_uuid = 42, s_strand = 0\<rparr>"

definition sample_linked :: active_world where
  "sample_linked = sample_manager\<lparr>w_sessions := [0 \<mapsto> sample_active_peer],
     w_env := active_mgr_new sample_cluster (\<lambda>_. 0) 0 0 0\<lparr>am_session := Some 0\<rparr>\<rparr>"

lemma active_send_packet_witness:
  "\<exists>w' bs h. active_send 5 (list_reader [7, 8]) 2 sample_linked = Inr w' \<and> one_packet bs h (write_uint32 5 @ [7, 8])
     \<and> head_seq h = 1 \<and> get_cmd h = cmd_code Commands_AuthenticationAAA"
proof -
  have "am_session (w_env sample_linked) = Some 0" "w_sessions sample_linked 0 = Some sample_active_peer"
    "s_state sample_active_peer = CONNECTING" "s_logic sample_active_peer = Some sample_active_logic"
    "list_reader [7, 8] 0 (unat (2 :: u16)) = Inr [7, 8]" "length [7, 8 :: byte] = unat (2 :: u16)" "unat (2 :: u16) \<le> 65521"
    "al_seq sample_active_logic = 0" "al_authentication sample_active_logic = BEFORE_VERIFY"
    by (simp_all add: sample_linked_def sample_active_peer_def list_reader_def sample_active_logic_def)
  from active_send_packet [of sample_linked 0 _ _ "list_reader [7, 8]", OF this(1-7), of 5] this(8,9) show ?thesis by fastforce
qed

text \<open>The answer to the authentication is read the wrong way round: the code for success records a
  failure, any error records success.\<close>

theorem answer_read_backwards:
  assumes "holds (\<lambda>o' n. buf_get data (buffer_at data (of_nat o')) n) (bs @ rest)" "0 < unat klen" "unat klen + 10 < 65536"
    and "unat klen \<le> length key" "aaa_response_pack ec sub md (list_reader key) klen link_no link_type = Inr (bs, n)"
    and "ucast (buf_length data) = n"
  shows "check_verify_res data l
    = Inr (l\<lparr>al_authentication := if ec = error_code EC_Success then VERIFY_FAILED else VERIFY_SUCC\<rparr>)"
  by (rule check_verify_inverted [OF assms])

lemma holds_block:
  assumes "unat (buf_offset b) + length xs \<le> unat (buf_SIZE b)" "unat (buf_SIZE b) \<le> 65536"
    and "mem_read (buf_bytes b) (unat (buf_offset b)) (length xs) = xs"
  shows "holds (\<lambda>o' n. buf_get b (buffer_at b (of_nat o')) n) xs"
  unfolding holds_def
proof (intro allI impI)
  fix o' n assume on: "o' + n \<le> length xs"
  then have "unat (of_nat o' :: u64) = o'" using assms(1,2) by (intro unat_of_nat_small) simp
  then have p: "unat (buffer_at b (of_nat o')) = unat (buf_offset b) + o'"
    unfolding buffer_at_def using assms(1,2) on by (subst unat_add_small) simp_all
  have "mem_read (buf_bytes b) (unat (buf_offset b) + o') n
      = take n (drop o' (mem_read (buf_bytes b) (unat (buf_offset b)) (length xs)))"
    using on by (simp add: mem_read_drop mem_read_take)
  then show "buf_get b (buffer_at b (of_nat o')) n = Inr (take n (drop o' xs))"
    using p on assms by (simp add: buf_get_def)
qed

lemma answer_read_backwards_witness:
  "check_verify_res \<lparr>buf_SIZE = ONCE_BUFFER_SIZE, buf_offset = 0, buf_length = 12,
      buf_bytes = mem_write (\<lambda>_. 0) 0 ([0, 1, 2] @ [7, 8] @ write_uint32 77 @ [9])\<rparr> sample_active_logic
    = Inr (sample_active_logic\<lparr>al_authentication := VERIFY_FAILED\<rparr>)"
proof -
  let ?bs = "[0, 1, 2] @ [7, 8] @ write_uint32 77 @ [9]"
  let ?b = "\<lparr>buf_SIZE = ONCE_BUFFER_SIZE, buf_offset = 0, buf_length = 12, buf_bytes = mem_write (\<lambda>_. 0) 0 ?bs\<rparr>"
  have p: "aaa_response_pack 0 1 2 (list_reader [7, 8]) 2 77 9 = Inr (?bs, 12)"
    by (simp add: aaa_response_pack_def list_reader_def)
  have h: "holds (\<lambda>o' n. buf_get ?b (buffer_at ?b (of_nat o')) n) (?bs @ [])"
    by (rule holds_block) (simp_all add: mem_simps)
  show ?thesis using answer_read_backwards [OF h _ _ _ p, of sample_active_logic] by simp
qed

end
