(* ===== verification/Handshake.thy ===== *)
theory Handshake
  imports Proxy_Faults Active_Traffic
begin

text \<open>
  The two programs together: a server's end of the link (\<open>Active_Server\<close>) and the proxy
  (\<open>Proxy_Manager\<close>), connected by what one writes and the other reads. The server's request makes
  its session at the proxy a server's session; the proxy's answer is one packet, which the server
  reads the wrong way round; and from then on the sequence numbers of the two ends agree, so that
  what the server sends the proxy takes.
\<close>

section \<open>The server asks\<close>

text \<open>The bytes of the request.\<close>

definition request_bytes :: "server_info \<Rightarrow> byte list" where
  "request_bytes i = write_uint16 (si_area_id i) @ write_uint16 (si_server_id i) @ [session_code ACTIVE_GAMESVR]
     @ (si_platform i @ [0]) @ write_uint16 (of_nat (length (si_platform i)))"

lemma length_request_bytes [simp]: "length (request_bytes i) = length (si_platform i) + 8"
  by (simp add: request_bytes_def write_uint16_def)

lemma request_pack:
  assumes "length (si_platform i) \<le> 65000"
  shows "aaa_request_pack (si_area_id i) (si_server_id i) (session_code ACTIVE_GAMESVR)
     (list_reader (si_platform i @ [0])) (of_nat (length (si_platform i)))
   = Inr (request_bytes i, of_nat (length (si_platform i) + 8))"
proof -
  have "unat (of_nat (length (si_platform i)) :: u16) = length (si_platform i)"
    using assms by (intro unat_of_nat_small) simp
  then show ?thesis by (simp add: aaa_request_pack_def list_reader_def request_bytes_def)
qed

lemma send_verify_packet:
  assumes "w_sessions w a = Some s" "s_state s = CONNECTING" "s_logic s = Some l" "al_session_holder l = Some a"
    and p: "length (si_platform (al_server_info l)) \<le> 65000"
  shows "\<exists>w' bs h s'. send_verify_authentication l w = Inr w' \<and> w_sessions w' a = Some s'
    \<and> s_writes s' = s_writes s @ [\<lparr>pw_bytes = bs, pw_callback = NoCallback\<rparr>]
    \<and> s_logic s' = Some (l\<lparr>al_seq := al_seq l + 1\<rparr>) \<and> one_packet bs h (request_bytes (al_server_info l))
    \<and> head_seq h = al_seq l + 1 \<and> \<not> get_compressed h \<and> s_state s' = s_state s \<and> s_recv s' = s_recv s
    \<and> s_reads s' = s_reads s \<and> w_env w' = w_env w
    \<and> get_cmd h = (if al_authentication l = BEFORE_VERIFY then cmd_code Commands_AuthenticationAAA
                   else cmd_code Commands_RoutingTransparent)"
proof -
  obtain b w1 where tb: "temp_buffer w = (b, w1)" by fastforce
  note b = pool_buffer_block [OF tb]
  let ?i = "al_server_info l" and ?data = "request_bytes (al_server_info l)"
  let ?b = "b\<lparr>buf_offset := of_nat PROTO_HEAD_SIZE\<rparr>"
  let ?c = "?b\<lparr>buf_bytes := mem_write (buf_bytes b) 11 ?data, buf_length := ucast (of_nat (length (si_platform ?i) + 8) :: u16)\<rparr>"
  have put: "buf_put ?b (buffer_at ?b 0) ?data = Inr (?b\<lparr>buf_bytes := mem_write (buf_bytes b) 11 ?data\<rparr>)"
    using b p by (simp add: buf_put_def)
  have "unat (of_nat (length (si_platform ?i) + 8) :: u16) = length (si_platform ?i) + 8"
    using p by (intro unat_of_nat_small) simp
  then have sb: "send_block ?c ?data"
    using b p by (simp add: send_block_def payload_def buf_get_def mem_simps del: of_nat_add)
  have s1: "w_sessions w1 a = Some s" using pool_buffer_world [OF tb] assms(1) by simp
  have "send_verify_authentication l w = async_send active_wrap a ?c NoCallback w1"
    unfolding send_verify_authentication_def tb Let_def prod.case request_pack [OF p] rbind_Inr put
    using assms(4) s1 by simp
  then show ?thesis using async_send_packet [OF sb s1 assms(2,3)] pool_buffer_world [OF tb] by simp
qed

section \<open>The proxy takes the request\<close>

lemma request_unpack:
  assumes db: "block_ok db" and len: "length (request_bytes i) = unat (head_len h)" and p: "length (si_platform i) \<le> 65000"
  shows "aaa_request_unpack (\<lambda>o' n. buf_get (with_body db h (request_bytes i)) (buffer_at (with_body db h (request_bytes i)) (of_nat o')) n)
      (ucast (buf_length (with_body db h (request_bytes i))))
    = Inr \<lparr>req_area_id = si_area_id i, req_server_id = si_server_id i, req_link_type = session_code ACTIVE_GAMESVR,
        req_platform = si_platform i @ [0], req_platform_len = of_nat (length (si_platform i))\<rparr>"
proof -
  let ?b = "with_body db h (request_bytes i)" and ?plen = "of_nat (length (si_platform i)) :: u16"
  have b: "block_ok ?b" "buf_length ?b = ucast (head_len h)" using block_body [OF db len] by simp_all
  have u: "unat ?plen = length (si_platform i)" using p by (intro unat_of_nat_small) simp
  have "length (request_bytes i) \<le> 65536" using p by simp
  then have h: "holds (\<lambda>o' n. buf_get ?b (buffer_at ?b (of_nat o')) n) (request_bytes i @ [])"
    using db by (intro holds_block) (simp_all add: with_body_def block_ok_def mem_simps)
  have n: "(ucast (buf_length ?b) :: u16) = of_nat (length (si_platform i) + 8)"
  proof -
    have "unat (of_nat (length (si_platform i) + 8) :: u16) = length (si_platform i) + 8"
      using p by (intro unat_of_nat_small) simp
    then have "head_len h = of_nat (length (si_platform i) + 8)" using len by (simp only: word_unat_eq_iff length_request_bytes)
    moreover have "(ucast (ucast (head_len h) :: u64) :: u16) = head_len h"
      by (rule bit_word_eqI) (auto simp: bit_simps)
    ultimately show ?thesis using b(2) by simp
  qed
  show ?thesis
    unfolding n using aaa_request_roundtrip(2) [OF h _ _ request_pack [OF p]] u p by simp
qed

text \<open>The bytes of the answer: eighteen, sent as twenty.\<close>

definition answer_bytes :: "default_logic \<Rightarrow> TransferError \<Rightarrow> byte list" where
  "answer_bytes d ec = [error_code ec, word_of_int (rc4_subtract (dl_rc4_info d)), word_of_int (rc4_modvt (dl_rc4_info d))]
     @ take RC4_KEY_LEN (rc4_key (dl_rc4_info d)) @ write_uint32 (dl_target_uid d) @ [si_link_type (dl_server_info d)]"

lemma answer_pack:
  assumes "keyed (Some (Default d))"
  shows "aaa_response_pack (error_code ec) (word_of_int (rc4_subtract (dl_rc4_info d)))
      (word_of_int (rc4_modvt (dl_rc4_info d))) (list_reader (rc4_key (dl_rc4_info d)))
      (of_nat RC4_KEY_LEN) (dl_target_uid d) (si_link_type (dl_server_info d)) = Inr (answer_bytes d ec, 20)"
    and "length (answer_bytes d ec) = 18"
  using assms by (simp_all add: aaa_response_pack_def list_reader_def answer_bytes_def)

lemma echo_packet:
  assumes s: "w_sessions w sid = Some s" "s_state s = CONNECTING" "s_logic s = Some (Server l)"
    and d: "keyed (Some (Default d))" "dl_session_holder d = Some sid"
  shows "\<exists>w' ans h rest. echo_authentication_res fuel z d EC_Success w = Inr w' \<and> w_env w' = w_env w
    \<and> (\<exists>t. w_sessions w' sid = Some (s\<lparr>s_last_send_time := t,
        s_writes := s_writes s @ [\<lparr>pw_bytes = ans, pw_callback = NoCallback\<rparr>]\<rparr>))
    \<and> one_packet ans h (answer_bytes d EC_Success @ rest) \<and> length rest = 2
    \<and> head_seq h = sl_seq l \<and> get_cmd h = cmd_code Commands_RoutingTransparent"
proof -
  obtain b w1 where tb: "temp_buffer w = (b, w1)" by fastforce
  note b = pool_buffer_block [OF tb] and w1 = pool_buffer_world [OF tb]
  let ?bs = "answer_bytes d EC_Success"
  have lbs: "length ?bs = 18" by (rule answer_pack(2) [OF d(1)])
  let ?b = "b\<lparr>buf_offset := prefix_size (Default d)\<rparr>"
  let ?c = "?b\<lparr>buf_bytes := mem_write (buf_bytes b) 11 ?bs, buf_length := 20\<rparr>"
  have put: "buf_put ?b (buffer_at ?b 0) ?bs = Inr (?b\<lparr>buf_bytes := mem_write (buf_bytes b) 11 ?bs\<rparr>)"
    using b lbs by (simp add: buf_put_def)
  let ?rest = "mem_read (buf_bytes b) 29 2"
  have "mem_read (mem_write (buf_bytes b) 11 ?bs) 11 (18 + 2) = ?bs @ ?rest"
    using mem_read_append [of "mem_write (buf_bytes b) 11 ?bs" 11 18 2] lbs by (simp add: mem_simps)
  then have sb: "send_block ?c (?bs @ ?rest)" using b by (simp add: send_block_def payload_def buf_get_def)
  from server_wrap_packet [OF sb, of l] obtain b' ans h where
    wr: "server_wrap l ?c = Inr b'" "payload b' = Inr ans" "one_packet ans h (?bs @ ?rest)" "head_seq h = sl_seq l"
      "get_cmd h = cmd_code Commands_RoutingTransparent" by blast
  let ?s = "s\<lparr>s_last_send_time := w_now w1\<rparr>"
  let ?t = "?s\<lparr>s_writes := s_writes s @ [\<lparr>pw_bytes = ans, pw_callback = NoCallback\<rparr>]\<rparr>"
  have s1: "w_sessions w1 sid = Some s" using w1 s(1) by simp
  have g: "get_session sid w1 = Inr s" "update_send_time sid w1 = Inr (put_session sid ?s w1)"
    using s1 by (simp_all add: update_send_time_def upd_session_Inr)
  have st: "start_write sid ans cb (put_session sid ?s w1)
      = Inr (put_session sid (?s\<lparr>s_writes := s_writes s @ [\<lparr>pw_bytes = ans, pw_callback = cb\<rparr>]\<rparr>) (put_session sid ?s w1))" for cb
    by (simp add: start_write_def upd_session_def get_session_def)
  have send: "async_send (proxy_wrap fuel z) sid ?c NoCallback w1 = Inr (put_session sid ?t (put_session sid ?s w1))"
    unfolding async_send_def g(1) rbind_Inr g(2) s(3) option.case proxy_wrap.simps wr(1) prod.case wr(2) st
    by (simp add: s(2))
  have lh: "lock_holder (Some sid) w1 = Some sid" using s1 by (simp add: lock_holder_def)
  have "?b\<lparr>buf_bytes := mem_write (buf_bytes b) 11 ?bs\<rparr>\<lparr>buf_length := buf_length (?b\<lparr>buf_bytes := mem_write (buf_bytes b) 11 ?bs\<rparr>) + ucast (20 :: u16)\<rparr> = ?c"
    using b by simp
  then have "echo_authentication_res fuel z d EC_Success w = Inr (put_session sid ?t (put_session sid ?s w1))"
    unfolding echo_authentication_res_def tb Let_def prod.case answer_pack(1) [OF d(1)] rbind_Inr put d(2) lh option.case
    using send by simp
  then show ?thesis
    using wr(3-5) w1 by (intro exI [of _ "put_session sid ?t (put_session sid ?s w1)"] exI [of _ ans] exI [of _ h] exI [of _ ?rest])
      (auto simp: put_session_def)
qed

text \<open>
  Everything \<open>verify_authentication\<close> does with a server's request, from the default logic \<open>d\<close> of a
  connected session that is still unknown: the session is a server's from then on, and the
  answer is under way.
\<close>

definition linked_logic :: "nat \<Rightarrow> u32 \<Rightarrow> server_info \<Rightarrow> server_logic" where
  "linked_logic sid n i = \<lparr>sl_seq = n, sl_server_info = i\<lparr>si_platform := si_platform i @ [0],
     si_link_type := session_code ACTIVE_GAMESVR\<rparr>, sl_session_holder = Some sid\<rparr>"

definition linked_answer :: "byte list \<Rightarrow> rc4_info \<Rightarrow> u32 \<Rightarrow> bool" where
  "linked_answer data info target \<longleftrightarrow> (\<exists>rest. length rest = 2 \<and> data =
     ([error_code EC_Success, word_of_int (rc4_subtract info), word_of_int (rc4_modvt info)]
      @ take RC4_KEY_LEN (rc4_key info) @ write_uint32 target @ [session_code ACTIVE_GAMESVR]) @ rest)"

definition linked_session :: "nat \<Rightarrow> u32 \<Rightarrow> server_info \<Rightarrow> default_logic \<Rightarrow> proxy_logic session \<Rightarrow> proxy_logic session \<Rightarrow> bool" where
  "linked_session sid n i d s s' \<longleftrightarrow> s_logic s' = Some (Server (linked_logic sid n i))
     \<and> s_state s' = CONNECTING \<and> s_uuid s' = s_uuid s
     \<and> (\<exists>ans h data. s_writes s' = s_writes s @ [\<lparr>pw_bytes = ans, pw_callback = NoCallback\<rparr>]
          \<and> one_packet ans h data \<and> linked_answer data (dl_rc4_info d) (dl_target_uid d)
          \<and> head_seq h = n \<and> get_cmd h = cmd_code Commands_RoutingTransparent)"

lemma verify_server:
  assumes s: "w_sessions w sid = Some s" "s_state s = CONNECTING" "s_logic s = Some (Default d)" "s_open s" "s_remote_ip s \<noteq> None"
    and d: "keyed (Some (Default d))" "dl_session_holder d = Some sid"
    and un: "hm_try_get (pm_un_managed_sessions (w_env w)) (s_uuid s) = Some sid"
    and new: "\<not> hm_contains_key (pm_server_sessions (w_env w)) (s_uuid s)"
    and db: "block_ok db" "length (request_bytes i) = unat (head_len h)" "length (si_platform i) \<le> 65000"
  shows "\<exists>w' s'. verify_authentication fuel z sid d (with_body db h (request_bytes i)) (cmd_code Commands_AuthenticationAAA) w = Inr w'
    \<and> w_sessions w' sid = Some s' \<and> linked_session sid (dl_seq d) i d s s'
    \<and> hm_try_get (pm_server_sessions (w_env w')) (s_uuid s) = Some sid"
proof -
  let ?i = "i\<lparr>si_platform := si_platform i @ [0], si_link_type := session_code ACTIVE_GAMESVR\<rparr>"
  let ?d = "d\<lparr>dl_server_info := ?i\<rparr>"
  have i: "\<lparr>si_server_id = si_server_id i, si_area_id = si_area_id i, si_platform = si_platform i @ [0],
      si_link_type = session_code ACTIVE_GAMESVR\<rparr> = ?i" by simp
  let ?s = "s\<lparr>s_logic := Some (Default ?d)\<rparr>" and ?w = "put_session sid (s\<lparr>s_logic := Some (Default ?d)\<rparr>) w"
  have st: "store_default sid ?d w = Inr ?w"
    using s(1,3) by (simp add: store_default_def get_logic_def get_session_def set_logic_at)
  obtain ip where ip: "get_remote_ip sid ?w = Inr ip" using s(4,5) by (auto simp: get_remote_ip_def get_session_def)
  have lh: "lock_holder (Some sid) ?w = Some sid" by (simp add: lock_holder_def)
  have gs: "get_session sid ?w = Inr ?s" by simp
  let ?l = "linked_logic sid (dl_seq d) i"
  have l: "\<lparr>sl_seq = dl_seq ?d, sl_server_info = dl_server_info ?d, sl_session_holder = Some sid\<rparr> = ?l"
    by (simp add: linked_logic_def)
  have mt: "session_code ACTIVE_GAMESVR > session_code MULTI_SESSION_BEGIN" "session_code ACTIVE_GAMESVR \<noteq> session_code CLIENT_PROXY"
    by simp_all
  obtain w2 where w2: "move_server_available (s_uuid ?s) ?w = Inr w2"
      "hm_try_get (pm_server_sessions (w_env w2)) (s_uuid ?s) = Some sid"
      "w_sessions w2 = (w_sessions ?w)(sid \<mapsto> ?s\<lparr>s_logic := Some (Server ?l)\<rparr>)"
    using move_server [of ?w "s_uuid ?s" sid ?s ?d] un new unfolding l by auto
  have mgr: "verify_authentication_mgr sid (session_code ACTIVE_GAMESVR) u t (s_uuid ?s) ip ?w = Inr ((True, t), w2)" for u t
    unfolding verify_authentication_mgr_def using w2(1) new mt by simp
  have hd: "dl_session_holder ?d = Some sid" and tg: "dl_target_uid ?d = dl_target_uid d" using d(2) by simp_all
  let ?d2 = "?d\<lparr>dl_target_uid := dl_target_uid d, dl_authentication := VERIFY_SUCC\<rparr>"
  let ?s2 = "?s\<lparr>s_logic := Some (Server ?l)\<rparr>"
  have s2: "w_sessions w2 sid = Some ?s2" using w2(3) by simp
  have st2: "store_default sid ?d2 w2 = Inr w2" by (simp add: store_default_def get_logic_def get_session_def s2)
  have "keyed (Some (Default ?d2))" "dl_session_holder ?d2 = Some sid" using d by simp_all
  from echo_packet [OF s2 _ _ this, of ?l fuel z] s(2) obtain w' ans h' rest t where
    e: "echo_authentication_res fuel z ?d2 EC_Success w2 = Inr w'" "w_env w' = w_env w2"
      "w_sessions w' sid = Some (?s2\<lparr>s_last_send_time := t, s_writes := s_writes ?s2 @ [\<lparr>pw_bytes = ans, pw_callback = NoCallback\<rparr>]\<rparr>)"
      "one_packet ans h' (answer_bytes ?d2 EC_Success @ rest)" "length rest = 2"
      "head_seq h' = sl_seq ?l" "get_cmd h' = cmd_code Commands_RoutingTransparent" by auto
  let ?s3 = "?s2\<lparr>s_last_send_time := t, s_writes := s_writes ?s2 @ [\<lparr>pw_bytes = ans, pw_callback = NoCallback\<rparr>]\<rparr>"
  have run: "verify_authentication fuel z sid d (with_body db h (request_bytes i)) (cmd_code Commands_AuthenticationAAA) w = Inr w'"
    unfolding verify_authentication_def request_unpack [OF db] rbind_Inr Let_def authentication_aaa_request.simps i st
      hd lh option.case tg
    by (simp only: simp_thms if_False gs rbind_Inr ip mgr prod.case if_True st2 e(1))
  have "linked_answer (answer_bytes ?d2 EC_Success @ rest) (dl_rc4_info d) (dl_target_uid d)"
    using e(5) by (auto simp: linked_answer_def answer_bytes_def)
  with e(4,6,7) have "linked_session sid (dl_seq d) i d s ?s3"
    using s(2) unfolding linked_session_def
    by (auto simp: linked_logic_def)
  moreover have "hm_try_get (pm_server_sessions (w_env w')) (s_uuid s) = Some sid" using w2(2) e(2) by simp
  ultimately show ?thesis using run e(3) by blast
qed

section \<open>Reading one packet\<close>

text \<open>A session that has read all it had: the buffer is empty, and while it is connected it reads on.\<close>

definition reads_on :: "'l session \<Rightarrow> 'l session \<Rightarrow> bool" where
  "reads_on s s' \<longleftrightarrow> (\<exists>r rs. s' = s\<lparr>s_recv := r, s_reads := rs\<rparr> \<and> recv_content r = [] \<and> (s_state s = CONNECTING \<longrightarrow> rs \<noteq> []))"

lemma reads_onI:
  "recv_content r = [] \<Longrightarrow> s_state s = CONNECTING \<longrightarrow> rs \<noteq> [] \<Longrightarrow> reads_on s (s\<lparr>s_recv := r, s_reads := rs\<rparr>)"
  by (auto simp: reads_on_def)

lemma reads_onD:
  "reads_on s s' \<Longrightarrow> s_state s' = s_state s \<and> s_open s' = s_open s \<and> s_logic s' = s_logic s \<and> s_uuid s' = s_uuid s
     \<and> s_writes s' = s_writes s \<and> recv_content (s_recv s') = [] \<and> (s_state s = CONNECTING \<longrightarrow> s_reads s' \<noteq> [])"
  by (auto simp: reads_on_def)

lemma recv_loop_after:
  assumes s: "w_sessions w sid = Some s" "recv_content (s_recv s) = []"
  shows "\<exists>w' s'. async_recv_loop sid w = Inr w' \<and> w_env w' = w_env w \<and> w_sessions w' sid = Some s' \<and> reads_on s s'"
proof -
  obtain b w1 where tb: "temp_buffer w = (b, w1)" by fastforce
  have b: "recv_bytes b = []" using pool_buffer_block [OF tb] by (simp add: recv_bytes_def)
  show ?thesis
  proof (cases "s_state s = CONNECTING")
    case True
    then show ?thesis
      using s b pool_buffer_world [OF tb] unfolding async_recv_loop_def tb
      by (cases "s_recv s") (auto simp: get_session_def Let_def intro!: reads_onI split: prod.split)
  next
    case False
    then have "async_recv_loop sid w = Inr w" using s by (simp add: async_recv_loop_def get_session_def)
    moreover have "reads_on s s" unfolding reads_on_def
      by (rule exI [of _ "s_recv s"], rule exI [of _ "s_reads s"]) (use s False in simp)
    ultimately show ?thesis using s by blast
  qed
qed

lemma pick_loop_two:
  assumes "pick_a_entire_msg vt sid db w = Inr ((True, db1), w1)" "pick_a_entire_msg vt sid db1 w1 = Inr ((False, db2), w2)"
  shows "pick_loop pick_fuel vt sid db w = Inr w2"
proof -
  have "(5999 :: nat) = Suc 5998" by simp
  then have "pick_loop 5999 vt sid db1 w1 = Inr w2" using assms(2) by (simp only: pick_loop.simps) simp
  then show ?thesis using assms(1) by (simp add: pick_loop_once)
qed

text \<open>
  A read that brings exactly one packet, whatever the logic: what handing it over yields is what the
  read yields, but for the receive buffer and the next read.
\<close>

lemma read_single:
  assumes s: "w_sessions w sid = Some s" "s_recv s = Some (name, b)" "recv_ok b" "recv_bytes b = []"
    and rd: "s_reads s = \<lparr>pr_buffer = name, pr_pos = buf_length b, pr_room = n\<rparr> # rest"
      "length bs \<le> unat (ONCE_BUFFER_SIZE - buf_length b)"
    and bs: "split_frames bs = ([(h, body)], [])"
    and ho: "\<And>db v t b'. block_ok db \<Longrightarrow> w_env v = w_env w \<Longrightarrow> w_sessions v = (w_sessions w)(sid \<mapsto> t) \<Longrightarrow>
        t = s\<lparr>s_reads := rest, s_last_recv_time := w_now w, s_recv := Some (name, b')\<rparr> \<Longrightarrow> recv_ok b' \<Longrightarrow>
        length body = unat (head_len h) \<Longrightarrow>
        \<exists>x db' v1. hand_over vt sid h (with_body db h body) v = Inr ((x, db'), v1) \<and> x \<noteq> Some False \<and> calm v v1 \<and> P v1"
  shows "\<exists>v1 t1 w' t'. P v1 \<and> w_sessions v1 sid = Some t1 \<and> read_done vt sid False bs w = Inr w'
    \<and> w_env w' = w_env v1 \<and> w_sessions w' sid = Some t' \<and> reads_on t1 t'"
proof -
  obtain b' where dl: "read_done vt sid False bs w
      = pick_entire_msgs vt sid (put_session sid (s\<lparr>s_reads := rest, s_last_recv_time := w_now w, s_recv := Some (name, b')\<rparr>) w)"
      "recv_ok b'" "recv_bytes b' = bs" using read_done_picks [OF s(1-3) rd, of vt False] s(4) by auto
  let ?t = "s\<lparr>s_reads := rest, s_last_recv_time := w_now w, s_recv := Some (name, b')\<rparr>"
  let ?v = "put_session sid ?t w"
  note v = dl(1)
  obtain db v0 where tb: "temp_buffer ?v = (db, v0)" by fastforce
  have t0: "w_sessions v0 = (w_sessions w)(sid \<mapsto> ?t)" "w_env v0 = w_env w"
    using pool_buffer_world [OF tb] by (simp_all add: put_session_def)
  then have t0': "w_sessions v0 sid = Some ?t" by simp
  have db: "block_ok db" using pool_buffer_block [OF tb] by (simp add: block_ok_def)
  have r: "s_recv ?t = Some (name, b')" "split_frames (recv_bytes b') = ([(h, body)], [])" using dl(3) bs by simp_all
  note pf = pick_frame [OF t0' r(1) dl(2) db r(2)]
  have len: "length body = unat (head_len h)"
    using split_frames_bytes [of bs] bs by (simp add: frame_ok_def)
  obtain x db' v1 where hand: "hand_over vt sid h (with_body db h body) v0 = Inr ((x, db'), v1)" "x \<noteq> Some False" "calm v0 v1" "P v1"
    using ho [OF db t0(2,1) refl dl(2) len] by blast
  then obtain t1 where t1: "w_sessions v1 sid = Some t1" "calm_session ?t t1" using calm_session_at t0' by blast
  have r1: "s_recv t1 = Some (name, b')" using t1(2) by (simp add: calm_session_def)
  obtain r' where cr: "consume (name, b') (of_nat (PROTO_HEAD_SIZE + length body)) = Inr r'" "recv_good r'"
      "recv_content r' = drop (PROTO_HEAD_SIZE + length body) (recv_bytes b')"
    using consume_recv [OF dl(2) pf(3)] by blast
  have g1: "get_session sid v1 = Inr t1" using t1(1) by simp
  let ?v1 = "put_session sid (t1\<lparr>s_recv := r'\<rparr>) v1"
  have "pick_a_entire_msg vt sid db v0 = Inr ((True, db'), ?v1)"
    unfolding pf(1) hand(1) rbind_Inr prod.case if_not_P [OF hand(2)] g1 r1 option.case cr(1) ..
  moreover have "pick_a_entire_msg vt sid db' ?v1 = Inr ((False, db'), ?v1)"
    by (rule pick_nothing [where s = "t1\<lparr>s_recv := r'\<rparr>"]) (use cr pf(2) in simp_all)
  ultimately have loop: "pick_loop pick_fuel vt sid db v0 = Inr ?v1" by (rule pick_loop_two)
  have "bs = head_bytes h @ body" using split_frames_bytes [of bs] bs by (simp add: frame_bytes_def)
  then have "recv_content r' = []" using cr(3) dl(3) by simp
  then obtain w' t' where rl: "async_recv_loop sid ?v1 = Inr w'" "w_env w' = w_env ?v1" "w_sessions w' sid = Some t'"
      "reads_on (t1\<lparr>s_recv := r'\<rparr>) t'"
    using recv_loop_after [of ?v1 sid "t1\<lparr>s_recv := r'\<rparr>"] by auto
  have "reads_on t1 t'" using rl(4) by (auto simp: reads_on_def)
  moreover have "read_done vt sid False bs w = Inr w'"
    unfolding v pick_entire_msgs_def tb Let_def prod.case loop rbind_Inr by (rule rl(1))
  ultimately show ?thesis using hand(4) t1(1) rl(2,3) by auto
qed

text \<open>In the proxy the world handed over is still managed and fitted.\<close>

lemma read_one_done:
  assumes ok: "world_ok k w" and f: "fitted c w" and s: "w_sessions w sid = Some s"
    and en: "enabled (ReadDone sid False bs) w"
    and bs: "recv_content (s_recv s) = []" "split_frames bs = ([(h, body)], [])"
    and ho: "\<And>db v t r. block_ok db \<Longrightarrow> managed k v \<Longrightarrow> fitted c v \<Longrightarrow> w_env v = w_env w \<Longrightarrow> w_sessions v sid = Some t \<Longrightarrow>
        t = s\<lparr>s_reads := [], s_last_recv_time := w_now w, s_recv := r\<rparr> \<Longrightarrow>
        length body = unat (head_len h) \<Longrightarrow>
        \<exists>x db' v1. hand_over (proxy_vt fuel z) sid h (with_body db h body) v = Inr ((x, db'), v1) \<and> x \<noteq> Some False \<and> P v1"
  shows "\<exists>v1 t1 w' t'. P v1 \<and> w_sessions v1 sid = Some t1 \<and> read_done (proxy_vt fuel z) sid False bs w = Inr w'
    \<and> w_env w' = w_env v1 \<and> w_sessions w' sid = Some t' \<and> reads_on t1 t'"
proof -
  have rd: "s_reads s \<noteq> []" "length bs \<le> unat (pr_room (hd (s_reads s)))" using en s by simp_all
  obtain name b where nb: "s_recv s = Some (name, b)" "recv_ok b"
      "s_reads s = [\<lparr>pr_buffer = name, pr_pos = buf_length b, pr_room = ONCE_BUFFER_SIZE - buf_length b\<rparr>]"
    using world_ok_session [OF ok s] rd(1) by (auto simp: reading_def)
  show ?thesis
  proof (rule read_single [OF s nb(1,2) _ nb(3) _ bs(2), where P = P])
    fix db and v :: proxy_world and t b'
    assume db: "block_ok db" and e: "w_env v = w_env w" and v: "w_sessions v = (w_sessions w)(sid \<mapsto> t)"
      and t: "t = s\<lparr>s_reads := [], s_last_recv_time := w_now w, s_recv := Some (name, b')\<rparr>"
      and len: "length body = unat (head_len h)"
    have "same_uids w v" using v t s by (simp add: same_uids_def)
    then have m: "managed k v" using managed_same [OF world_ok_managed [OF ok]] e by blast
    have "fit (uint (cfg_tick_interval c)) t" using fitted_session [OF f s] t by (simp add: fit_def)
    then have "fitted c v" using f e v by (auto simp: fitted_def)
    then obtain x db' v1 where h: "hand_over (proxy_vt fuel z) sid h (with_body db h body) v = Inr ((x, db'), v1)" "x \<noteq> Some False" "P v1"
      using ho [OF db m _ e _ t len] v by auto
    moreover have "calm v v1" using yieldsD [OF h(1) plogic.hand_over_calm] by simp
    ultimately show "\<exists>x db' v1. hand_over (proxy_vt fuel z) sid h (with_body db h body) v = Inr ((x, db'), v1)
        \<and> x \<noteq> Some False \<and> calm v v1 \<and> P v1" by blast
  qed (use bs(1) nb rd(2) in simp_all)
qed

section \<open>The proxy's end\<close>

lemma linked_session_recv: "linked_session sid n i d s t \<Longrightarrow> reads_on t t' \<Longrightarrow> linked_session sid n i d s t'"
  by (drule reads_onD) (simp add: linked_session_def)

lemma request_hand_over:
  assumes m: "managed k w" and f: "fitted c w" and s: "w_sessions w sid = Some s" "s_logic s = Some (Default d)"
    and st: "s_state s = CONNECTING" "s_open s"
    and un: "hm_try_get (pm_un_managed_sessions (w_env w)) (s_uuid s) = Some sid"
    and new: "\<not> hm_contains_key (pm_server_sessions (w_env w)) (s_uuid s)"
    and db: "block_ok db" "length (request_bytes i) = unat (head_len h)" "length (si_platform i) \<le> 65000"
    and acc: "dl_authentication d = BEFORE_VERIFY" "head_seq h = dl_seq d + 1" "get_mask (head_bytes h) (request_bytes i) 0 = 0"
      "get_cmd h = cmd_code Commands_AuthenticationAAA"
  shows "\<exists>x db' w' s'. hand_over (proxy_vt fuel z) sid h (with_body db h (request_bytes i)) w = Inr ((x, db'), w') \<and> x \<noteq> Some False
    \<and> w_sessions w' sid = Some s' \<and> linked_session sid (dl_seq d + 1) i d s s'
    \<and> hm_try_get (pm_server_sessions (w_env w')) (s_uuid s) = Some sid"
proof -
  obtain ub w1 where tb: "temp_buffer w = (ub, w1)" by fastforce
  note w1 = pool_buffer_world [OF tb]
  have s1: "w_sessions w1 sid = Some s" using w1 s(1) by simp
  have g: "get_logic sid w1 = Inr (Default d)" using s1 s(2) by (simp add: get_logic_def get_session_def)
  let ?d = "d\<lparr>dl_seq := dl_seq d + 1\<rparr>" and ?b = "with_body db h (request_bytes i)"
  let ?s = "s\<lparr>s_logic := Some (Default ?d)\<rparr>"
  let ?w = "put_session sid ?s w1"
  have fs: "fit (uint (cfg_tick_interval c)) s" using fitted_session [OF f s(1)] .
  have "keyed (Some (Default ?d))" "s_remote_ip ?s \<noteq> None" using fs s(2) st(2) by (simp_all add: fit_def)
  moreover have "dl_session_holder ?d = Some sid" using m s by (cases rule: managed_cases) auto
  moreover have "hm_try_get (pm_un_managed_sessions (w_env ?w)) (s_uuid ?s) = Some sid"
      "\<not> hm_contains_key (pm_server_sessions (w_env ?w)) (s_uuid ?s)"
    using un new w1 by simp_all
  ultimately obtain w' s' where v: "verify_authentication fuel z sid ?d ?b (cmd_code Commands_AuthenticationAAA) ?w = Inr w'"
      "w_sessions w' sid = Some s'" "linked_session sid (dl_seq ?d) i ?d ?s s'"
      "hm_try_get (pm_server_sessions (w_env w')) (s_uuid ?s) = Some sid"
    using verify_server [of ?w sid ?s ?d db i h fuel z] st db by auto
  have "default_unwrap fuel z sid d ?b h r w1 = Inr ((False, ?b, r), w')" for r
    unfolding default_unwrap_def Let_def set_logic_at [OF s1] rbind_Inr mask_ok_at [OF block_body(1) [OF db(1,2)]]
    using acc v(1) by simp
  then have "hand_over (proxy_vt fuel z) sid h ?b w = Inr ((None, ?b), w')"
    unfolding hand_over_def tb Let_def prod.case proxy_vt_def vtable.simps g rbind_Inr proxy_unwrap.simps by simp
  with v(2-4) show ?thesis by (auto simp: linked_session_def)
qed

text \<open>A session that waits on an empty buffer may be given any packet.\<close>

lemma waits_enabled:
  assumes "proxy_reachable fuel z w" "w_sessions w sid = Some s" "s_reads s \<noteq> []" "recv_content (s_recv s) = []"
    and "one_packet bs h data" "length data \<le> 65525"
  shows "enabled (ReadDone sid False bs) w"
proof -
  obtain k where ok: "world_ok k w" using proxy_reachable_inv [OF assms(1)] by (auto simp: proxy_inv_def)
  obtain pr where "s_reads s = [pr]" "unat (pr_room pr) = 65536"
    using one_read_in_room_at [OF ok assms(2)] assms(3,4) by auto
  then show ?thesis using assms(2,6) one_packet_bytes(2) [OF assms(5)] by simp
qed

lemma request_read:
  assumes reach: "proxy_reachable fuel z w" and s: "w_sessions w sid = Some s" "s_logic s = Some (Default d)"
    and rd: "s_reads s \<noteq> []" "recv_content (s_recv s) = []" and st: "s_state s = CONNECTING" "s_open s"
    and un: "hm_try_get (pm_un_managed_sessions (w_env w)) (s_uuid s) = Some sid"
    and new: "\<not> hm_contains_key (pm_server_sessions (w_env w)) (s_uuid s)"
    and p: "one_packet bs h (request_bytes i)" "length (si_platform i) \<le> 65000"
    and acc: "dl_authentication d = BEFORE_VERIFY" "head_seq h = dl_seq d + 1" "get_cmd h = cmd_code Commands_AuthenticationAAA"
  shows "\<exists>w' s'. read_done (proxy_vt fuel z) sid False bs w = Inr w' \<and> w_sessions w' sid = Some s'
    \<and> linked_session sid (dl_seq d + 1) i d s s' \<and> hm_try_get (pm_server_sessions (w_env w')) (s_uuid s) = Some sid
    \<and> recv_content (s_recv s') = [] \<and> s_reads s' \<noteq> []"
proof -
  obtain k where ok: "world_ok k w" using proxy_reachable_inv [OF reach] by (auto simp: proxy_inv_def)
  have split: "split_frames bs = ([(h, request_bytes i)], [])" and mask: "get_mask (head_bytes h) (request_bytes i) 0 = 0"
    using p(1) by (simp_all add: one_packet_def)
  have en: "enabled (ReadDone sid False bs) w" by (rule waits_enabled [OF reach s(1) rd p(1)]) (use p(2) in simp)
  let ?P = "\<lambda>v :: proxy_world. \<exists>s'. w_sessions v sid = Some s' \<and> linked_session sid (dl_seq d + 1) i d s s'
      \<and> hm_try_get (pm_server_sessions (w_env v)) (s_uuid s) = Some sid"
  have "\<exists>v1 t1 w' t'. ?P v1 \<and> w_sessions v1 sid = Some t1 \<and> read_done (proxy_vt fuel z) sid False bs w = Inr w'
    \<and> w_env w' = w_env v1 \<and> w_sessions w' sid = Some t' \<and> reads_on t1 t'"
  proof (rule read_one_done [where P = ?P, OF ok fitted_reachable [OF reach] s(1) en rd(2) split])
    fix db v t r
    assume db: "block_ok db" and m: "managed k v" and f: "fitted (pm_config (w_env w)) v" and e: "w_env v = w_env w"
      and t: "w_sessions v sid = Some t" "t = s\<lparr>s_reads := [], s_last_recv_time := w_now w, s_recv := r\<rparr>"
      and len: "length (request_bytes i) = unat (head_len h)"
    have "linked_session sid n i d t s' \<longleftrightarrow> linked_session sid n i d s s'" for n s' using t(2) by (simp add: linked_session_def)
    moreover have "\<exists>x db' w' s'. hand_over (proxy_vt fuel z) sid h (with_body db h (request_bytes i)) v = Inr ((x, db'), w') \<and> x \<noteq> Some False
        \<and> w_sessions w' sid = Some s' \<and> linked_session sid (dl_seq d + 1) i d t s'
        \<and> hm_try_get (pm_server_sessions (w_env w')) (s_uuid t) = Some sid"
      by (rule request_hand_over [OF m f t(1) _ _ _ _ _ db len p(2) acc(1,2) mask acc(3)])
        (use t(2) s(2) st un new e in simp_all)
    ultimately show "\<exists>x db' v1. hand_over (proxy_vt fuel z) sid h (with_body db h (request_bytes i)) v = Inr ((x, db'), v1)
        \<and> x \<noteq> Some False \<and> ?P v1"
      using t(2) by simp
  qed
  then obtain v1 t1 w' t' where r: "?P v1" "w_sessions v1 sid = Some t1" "read_done (proxy_vt fuel z) sid False bs w = Inr w'"
      "w_env w' = w_env v1" "w_sessions w' sid = Some t'" "reads_on t1 t'" by blast
  then have l: "linked_session sid (dl_seq d + 1) i d s t1" by auto
  then have "s_state t1 = CONNECTING" by (simp add: linked_session_def)
  then show ?thesis using r(1,3-5) linked_session_recv [OF l r(6)] reads_onD [OF r(6)] by auto
qed

section \<open>The server reads the answer\<close>

lemma answer_unwrapped:
  assumes s: "w_sessions w a = Some s" and p: "one_packet ans h data" and ans: "linked_answer data info target"
    and key: "RC4_KEY_LEN \<le> length (rc4_key info)" and db: "block_ok db" and l: "al_authentication l = BEFORE_VERIFY"
  shows "active_unwrap a l (with_body db h data) h ret w = Inr ((False, with_body db h data, ret),
    put_session a (s\<lparr>s_logic := Some (l\<lparr>al_authentication := VERIFY_FAILED\<rparr>)\<rparr>) w)"
proof -
  let ?b = "with_body db h data"
  let ?bs = "[error_code EC_Success, word_of_int (rc4_subtract info), word_of_int (rc4_modvt info)]
      @ take RC4_KEY_LEN (rc4_key info) @ write_uint32 target @ [session_code ACTIVE_GAMESVR]"
  obtain rest where rest: "data = ?bs @ rest" "length rest = 2" using ans by (auto simp: linked_answer_def)
  have ld: "length data = 20" using rest key by simp
  have len: "length data = unat (head_len h)" using one_packet_bytes(3) [OF p] .
  note b = block_body [OF db len]
  have h20: "head_len h = 20" using len ld by (simp add: word_unat_eq_iff)
  have "get_mask (head_bytes h) data 0 = 0" using p by (simp add: one_packet_def)
  then have ok: "mask_ok ?b h = Inr True" using mask_ok_at [OF b(1)] by simp
  have hold: "holds (\<lambda>o' n. buf_get ?b (buffer_at ?b (of_nat o')) n) (?bs @ rest)"
    unfolding rest(1) [symmetric]
    by (rule holds_block) (use db ld in \<open>simp_all add: with_body_def block_ok_def mem_simps\<close>)
  have pk: "aaa_response_pack (error_code EC_Success) (word_of_int (rc4_subtract info)) (word_of_int (rc4_modvt info))
      (list_reader (rc4_key info)) 10 target (session_code ACTIVE_GAMESVR) = Inr (?bs, 20)"
    using key by (simp add: aaa_response_pack_def list_reader_def)
  have n: "ucast (buf_length ?b) = (20 :: u16)" using b(2) h20 by simp
  have "check_verify_res ?b l = Inr (l\<lparr>al_authentication := VERIFY_FAILED\<rparr>)"
    using check_verify_inverted [OF hold _ _ _ pk n, of l] key by simp
  then show ?thesis
    unfolding active_unwrap_def ok rbind_Inr using l h20 set_logic_at [OF s] by simp
qed

lemma answer_read:
  assumes s: "w_sessions wa a = Some sa" "s_logic sa = Some l" "al_authentication l = BEFORE_VERIFY"
    and r: "s_recv sa = Some (name, buf)" "recv_ok buf" "recv_bytes buf = []"
      "s_reads sa = \<lparr>pr_buffer = name, pr_pos = buf_length buf, pr_room = n\<rparr> # rest"
    and p: "one_packet ans h data" "linked_answer data info target" "RC4_KEY_LEN \<le> length (rc4_key info)"
  shows "\<exists>wa' sa'. read_done active_vt a False ans wa = Inr wa' \<and> w_sessions wa' a = Some sa'
    \<and> s_logic sa' = Some (l\<lparr>al_authentication := VERIFY_FAILED\<rparr>)
    \<and> s_state sa' = s_state sa \<and> s_writes sa' = s_writes sa \<and> w_env wa' = w_env wa"
proof -
  let ?l = "l\<lparr>al_authentication := VERIFY_FAILED\<rparr>"
  have z: "buf_length buf = 0" using r(3) by (metis length_recv_bytes list.size(3) unat_eq_0)
  have "length data = 20" using p(2,3) by (auto simp: linked_answer_def)
  then have room: "length ans \<le> unat (ONCE_BUFFER_SIZE - buf_length buf)" using one_packet_bytes(2) [OF p(1)] z by simp
  have split: "split_frames ans = ([(h, data)], [])" using p(1) by (simp add: one_packet_def)
  let ?P = "\<lambda>v :: active_world. w_env v = w_env wa
      \<and> (\<exists>t. w_sessions v a = Some t \<and> s_logic t = Some ?l \<and> s_state t = s_state sa \<and> s_writes t = s_writes sa)"
  have "\<exists>v1 t1 w' t'. ?P v1 \<and> w_sessions v1 a = Some t1 \<and> read_done active_vt a False ans wa = Inr w'
    \<and> w_env w' = w_env v1 \<and> w_sessions w' a = Some t' \<and> reads_on t1 t'"
  proof (rule read_single [OF s(1) r room split, where P = ?P])
    fix db and v :: active_world and t buf'
    assume db: "block_ok db" and e: "w_env v = w_env wa" and v: "w_sessions v = (w_sessions wa)(a \<mapsto> t)"
      and t: "t = sa\<lparr>s_reads := rest, s_last_recv_time := w_now wa, s_recv := Some (name, buf')\<rparr>"
    obtain ub v0 where tb: "temp_buffer v = (ub, v0)" by fastforce
    have v0: "w_sessions v0 a = Some t" "s_logic t = Some l" using pool_buffer_world [OF tb] v t s(2) by simp_all
    let ?v1 = "put_session a (t\<lparr>s_logic := Some ?l\<rparr>) v0"
    have "hand_over active_vt a h (with_body db h data) v = Inr ((None, with_body db h data), ?v1)"
      unfolding hand_over_def tb Let_def prod.case
      using answer_unwrapped [OF v0(1) p db s(3)] v0 by (simp add: active_vt_def get_logic_def get_session_def)
    moreover have "calm v ?v1"
      by (rule calm_trans [OF calm_pool_buffer [OF calm_refl tb] calm_put [OF v0(1)]]) (use v0(2) in \<open>simp add: calm_session_def\<close>)
    ultimately show "\<exists>x db' v1. hand_over active_vt a h (with_body db h data) v = Inr ((x, db'), v1) \<and> x \<noteq> Some False
        \<and> calm v v1 \<and> ?P v1" using e pool_buffer_world [OF tb] t by fastforce
  qed
  then show ?thesis by (fastforce dest: reads_onD)
qed

section \<open>Properties\<close>

definition sample_storage_block :: reusable_buffer where
  "sample_storage_block = \<lparr>buf_SIZE = ONCE_BUFFER_SIZE, buf_offset = 0, buf_length = 0, buf_bytes = (\<lambda>_. 0)\<rparr>"

text \<open>C3: a server's end and the proxy together. The packet the server sends to authenticate, read by the
  proxy on a fresh session whose uid no server has yet, makes that session a server's: under its uid
  among the servers, with the sequence number of the request (so the two ends agree on the next
  one) and the data the server gave; and the proxy has exactly one packet under way to it, the
  answer with the code for success.\<close>

theorem handshake_links:
  assumes "proxy_reachable fuel z w" "w_sessions w sid = Some s" "s_logic s = Some (Default d)"
    and "s_reads s \<noteq> []" "recv_content (s_recv s) = []" "s_state s = CONNECTING" "s_open s"
    and "hm_try_get (pm_un_managed_sessions (w_env w)) (s_uuid s) = Some sid"
    and "\<not> hm_contains_key (pm_server_sessions (w_env w)) (s_uuid s)"
    and "w_sessions wa a = Some sa" "s_state sa = CONNECTING" "s_logic sa = Some l" "al_session_holder l = Some a"
    and "length (si_platform (al_server_info l)) \<le> 65000"
    and "dl_authentication d = BEFORE_VERIFY" "al_authentication l = BEFORE_VERIFY" "dl_seq d = al_seq l"
  shows "\<exists>wa' sa' bs w' s'. send_verify_authentication l wa = Inr wa' \<and> w_sessions wa' a = Some sa'
    \<and> s_logic sa' = Some (l\<lparr>al_seq := al_seq l + 1\<rparr>)
    \<and> s_writes sa' = s_writes sa @ [\<lparr>pw_bytes = bs, pw_callback = NoCallback\<rparr>]
    \<and> read_done (proxy_vt fuel z) sid False bs w = Inr w' \<and> w_sessions w' sid = Some s'
    \<and> linked_session sid (al_seq l + 1) (al_server_info l) d s s'
    \<and> hm_try_get (pm_server_sessions (w_env w')) (s_uuid s) = Some sid"
proof -
  from send_verify_packet [OF assms(10-14)] obtain wa' bs h sa' where
    a: "send_verify_authentication l wa = Inr wa'" "w_sessions wa' a = Some sa'"
      "s_writes sa' = s_writes sa @ [\<lparr>pw_bytes = bs, pw_callback = NoCallback\<rparr>]"
      "s_logic sa' = Some (l\<lparr>al_seq := al_seq l + 1\<rparr>)" "one_packet bs h (request_bytes (al_server_info l))"
      "head_seq h = al_seq l + 1" "get_cmd h = cmd_code Commands_AuthenticationAAA" using assms(16) by auto
  have "head_seq h = dl_seq d + 1" using a(6) assms(17) by simp
  from request_read [OF assms(1-9) a(5) assms(14,15) this a(7)] a(1-4) assms(17) show ?thesis by fastforce
qed

lemma handshake_links_witness:
  "\<exists>w w' s' bs. sample_run [Accepted False 9] = Inr w \<and> read_done (proxy_vt 5 sample_zlib) 0 False bs w = Inr w'
     \<and> w_sessions w' 0 = Some s' \<and> s_logic s' = Some (Server (linked_logic 0 1 (al_server_info sample_active_logic)))"
proof -
  let ?l = "sample_active_logic\<lparr>al_session_holder := Some 0\<rparr>"
  let ?s = "sample_active_peer\<lparr>s_logic := Some ?l\<rparr>"
  let ?wa = "sample_linked\<lparr>w_sessions := [0 \<mapsto> ?s]\<rparr>"
  obtain w s d where r: "sample_run [Accepted False 9] = Inr w" "w_sessions w 0 = Some s" "s_logic s = Some (Default d)"
      "s_reads s \<noteq> []" "recv_content (s_recv s) = []" "s_state s = CONNECTING" "s_open s"
      "hm_try_get (pm_un_managed_sessions (w_env w)) (s_uuid s) = Some 0"
      "\<not> hm_contains_key (pm_server_sessions (w_env w)) (s_uuid s)" "dl_authentication d = BEFORE_VERIFY" "dl_seq d = 0"
    using sample_waits by (auto simp: hm_contains_key_def)
  have l: "w_sessions ?wa 0 = Some ?s" "s_state ?s = CONNECTING" "s_logic ?s = Some ?l" "al_session_holder ?l = Some 0"
    "length (si_platform (al_server_info ?l)) \<le> 65000" "al_authentication ?l = BEFORE_VERIFY" "dl_seq d = al_seq ?l"
    using r(11) by (simp_all add: sample_active_peer_def sample_active_logic_def sample_info_def)
  from handshake_links [OF sample_run_reachable [OF r(1)] r(2-9) l(1-5) r(10) l(6,7)] r(1)
  show ?thesis by (auto simp: linked_session_def sample_active_logic_def)
qed

text \<open>C17: the answer of a proxy that linked the server is one packet for the server's end too: read there
  on an empty receive buffer, it makes the server record that authentication failed.\<close>

theorem linked_server_thinks_it_failed:
  assumes "linked_session sid n i d s s'" "RC4_KEY_LEN \<le> length (rc4_key (dl_rc4_info d))"
    and "w_sessions wa a = Some sa" "s_logic sa = Some l" "al_authentication l = BEFORE_VERIFY"
    and "s_recv sa = Some (name, buf)" "recv_ok buf" "recv_bytes buf = []"
    and "s_reads sa = \<lparr>pr_buffer = name, pr_pos = buf_length buf, pr_room = room\<rparr> # rest"
  shows "\<exists>ans wa' sa'. s_writes s' = s_writes s @ [\<lparr>pw_bytes = ans, pw_callback = NoCallback\<rparr>]
    \<and> read_done active_vt a False ans wa = Inr wa' \<and> w_sessions wa' a = Some sa'
    \<and> s_logic sa' = Some (l\<lparr>al_authentication := VERIFY_FAILED\<rparr>)"
proof -
  obtain ans h data where p: "s_writes s' = s_writes s @ [\<lparr>pw_bytes = ans, pw_callback = NoCallback\<rparr>]"
      "one_packet ans h data" "linked_answer data (dl_rc4_info d) (dl_target_uid d)"
    using assms(1) unfolding linked_session_def by blast
  from answer_read [OF assms(3-9) p(2,3) assms(2)] p(1) show ?thesis by blast
qed

lemma linked_server_thinks_it_failed_witness:
  "\<exists>w (w' :: proxy_world) s s' ans wa' sa'. sample_run [Accepted False 9] = Inr w \<and> w_sessions w 0 = Some s
     \<and> w_sessions w' 0 = Some s' \<and> s_writes s' = s_writes s @ [\<lparr>pw_bytes = ans, pw_callback = NoCallback\<rparr>]
     \<and> read_done active_vt 0 False ans (sample_linked\<lparr>w_sessions := [0 \<mapsto> sample_active_peer\<lparr>s_recv := Some (0, sample_storage_block),
          s_reads := [\<lparr>pr_buffer = 0, pr_pos = 0, pr_room = ONCE_BUFFER_SIZE\<rparr>]\<rparr>]\<rparr>) = Inr wa'
     \<and> w_sessions wa' 0 = Some sa' \<and> s_logic sa' = Some (sample_active_logic\<lparr>al_authentication := VERIFY_FAILED\<rparr>)"
proof -
  let ?h = "seal_head (get_a_head FRAME_KEY (of_nat (length (request_bytes sample_info))) 0 (cmd_code Commands_AuthenticationAAA) False 1)
      (request_bytes sample_info)"
  have p: "one_packet (head_bytes ?h @ request_bytes sample_info) ?h (request_bytes sample_info)"
    by (rule sealed_one_packet) (simp add: sample_info_def)
  obtain w s d where r: "sample_run [Accepted False 9] = Inr w" "w_sessions w 0 = Some s" "s_logic s = Some (Default d)"
      "s_reads s \<noteq> []" "recv_content (s_recv s) = []" "s_state s = CONNECTING" "s_open s"
      "hm_try_get (pm_un_managed_sessions (w_env w)) (s_uuid s) = Some 0"
      "\<not> hm_contains_key (pm_server_sessions (w_env w)) (s_uuid s)" "dl_authentication d = BEFORE_VERIFY" "dl_seq d = 0"
    using sample_waits by (auto simp: hm_contains_key_def)
  have reach: "proxy_reachable 5 sample_zlib w" by (rule sample_run_reachable [OF r(1)])
  have "head_seq ?h = dl_seq d + 1" "get_cmd ?h = cmd_code Commands_AuthenticationAAA" "length (si_platform sample_info) \<le> 65000"
    using r(11) by (simp_all add: get_cmd_head sample_info_def)
  from request_read [OF reach r(2-9) p this(3) r(10) this(1,2)] obtain w' :: proxy_world and s' where
    w': "w_sessions w' 0 = Some s'" "linked_session 0 (dl_seq d + 1) sample_info d s s'" by blast
  have key: "RC4_KEY_LEN \<le> length (rc4_key (dl_rc4_info d))"
    using fitted_session [OF fitted_reachable [OF reach] r(2)] r(3) by (simp add: fit_def)
  let ?sa = "sample_active_peer\<lparr>s_recv := Some (0, sample_storage_block), s_reads := [\<lparr>pr_buffer = 0, pr_pos = 0, pr_room = ONCE_BUFFER_SIZE\<rparr>]\<rparr>"
  let ?wa = "sample_linked\<lparr>w_sessions := [0 \<mapsto> ?sa]\<rparr>"
  have "w_sessions ?wa 0 = Some ?sa" "s_logic ?sa = Some sample_active_logic" "al_authentication sample_active_logic = BEFORE_VERIFY"
      "s_recv ?sa = Some (0, sample_storage_block)" "recv_ok sample_storage_block" "recv_bytes sample_storage_block = []"
      "s_reads ?sa = \<lparr>pr_buffer = 0, pr_pos = buf_length sample_storage_block, pr_room = ONCE_BUFFER_SIZE\<rparr> # []"
    by (simp_all add: sample_linked_def sample_active_logic_def sample_storage_block_def sample_active_peer_def recv_ok_def recv_bytes_def)
  from linked_server_thinks_it_failed [OF w'(2) key this] r(1,2) w'(1) show ?thesis by blast
qed

text \<open>The two ends stay in step. Once their sequence numbers agree and the answer has come, what the
  server sends is one packet that the proxy takes, whole and unchanged, the receiver's name before
  the data; and the numbers agree again.\<close>

theorem linked_ends_stay_in_step:
  assumes "am_session (w_env wa) = Some a" "w_sessions wa a = Some sa" "s_state sa = CONNECTING" "s_logic sa = Some l"
    and "rd 0 (unat len) = Inr data" "length data = unat len" "unat len \<le> 65521"
    and "w_sessions w sid = Some s" "sl_seq sl = al_seq l" "al_authentication l \<noteq> BEFORE_VERIFY"
    and "block_ok db" "buf_SIZE ret = ONCE_BUFFER_SIZE" "buf_offset ret = prefix_size (Server sl)"
  shows "\<exists>wa' sa' bs h ret' w'. active_send t rd len wa = Inr wa' \<and> w_sessions wa' a = Some sa'
    \<and> s_writes sa' = s_writes sa @ [\<lparr>pw_bytes = bs, pw_callback = NoCallback\<rparr>]
    \<and> split_frames bs = ([(h, write_uint32 t @ data)], [])
    \<and> server_unwrap sid sl (with_body db h (write_uint32 t @ data)) h ret w
      = Inr ((True, with_body db h (write_uint32 t @ data), ret'), w')
    \<and> payload ret' = Inr (write_uint32 t @ data) \<and> get_cmd h = cmd_code Commands_RoutingTransparent
    \<and> s_logic sa' = Some (l\<lparr>al_seq := al_seq l + 1\<rparr>)
    \<and> get_logic sid w' = Inr (Server (sl\<lparr>sl_seq := al_seq l + 1\<rparr>))"
proof -
  let ?data = "write_uint32 t @ data"
  from active_send_one [where rd = rd and len = len and data = data and t = t, OF assms(1-7)] obtain wa' bs h sa' where
    a: "active_send t rd len wa = Inr wa'" "w_sessions wa' a = Some sa'"
      "s_writes sa' = s_writes sa @ [\<lparr>pw_bytes = bs, pw_callback = NoCallback\<rparr>]"
      "s_logic sa' = Some (l\<lparr>al_seq := al_seq l + 1\<rparr>)" "one_packet bs h ?data" "head_seq h = al_seq l + 1"
      "get_cmd h = cmd_code Commands_RoutingTransparent" using assms(10) by auto
  have "unat (buf_offset ret) + length ?data \<le> unat (buf_SIZE ret)" using assms(6,7,12,13) by simp
  from server_unwrap_verdict [OF assms(8) block_body(1) [OF assms(11) one_packet_bytes(3) [OF a(5)]] this, of sl]
  obtain ret' where u: "server_unwrap sid sl (with_body db h ?data) h ret w = Inr ((True, with_body db h ?data, ret'),
      put_session sid (s\<lparr>s_logic := Some (Server (sl\<lparr>sl_seq := sl_seq sl + 1\<rparr>))\<rparr>) w)" "payload ret' = Inr ?data"
    using a(5,6) assms(9) by (auto simp: one_packet_def write_uint32_def)
  have "get_logic sid (put_session sid (s\<lparr>s_logic := Some (Server (sl\<lparr>sl_seq := sl_seq sl + 1\<rparr>))\<rparr>) w)
      = Inr (Server (sl\<lparr>sl_seq := al_seq l + 1\<rparr>))"
    using assms(9) by (simp add: get_logic_def get_session_def)
  with a u show ?thesis unfolding one_packet_def by blast
qed

lemma linked_ends_stay_in_step_witness:
  "\<exists>wa' bs h ret' w'. active_send 5 (list_reader [7, 8]) 2
       (sample_linked\<lparr>w_sessions := [0 \<mapsto> sample_active_peer\<lparr>s_logic := Some (sample_active_logic\<lparr>al_authentication := VERIFY_FAILED\<rparr>)\<rparr>]\<rparr>) = Inr wa'
     \<and> split_frames bs = ([(h, write_uint32 5 @ [7, 8])], [])
     \<and> server_unwrap 0 (linked_logic 0 0 sample_info) (with_body sample_storage_block h (write_uint32 5 @ [7, 8])) h
         (sample_storage_block\<lparr>buf_offset := 7\<rparr>) (sample_peers (Server (linked_logic 0 0 sample_info)))
       = Inr ((True, with_body sample_storage_block h (write_uint32 5 @ [7, 8]), ret'), w')
     \<and> payload ret' = Inr (write_uint32 5 @ [7, 8])"
proof -
  let ?l = "sample_active_logic\<lparr>al_authentication := VERIFY_FAILED\<rparr>"
  let ?sa = "sample_active_peer\<lparr>s_logic := Some ?l\<rparr>"
  let ?wa = "sample_linked\<lparr>w_sessions := [0 \<mapsto> ?sa]\<rparr>"
  let ?sl = "linked_logic 0 0 sample_info" and ?w = "sample_peers (Server (linked_logic 0 0 sample_info))"
  have "am_session (w_env ?wa) = Some 0" "w_sessions ?wa 0 = Some ?sa" "s_state ?sa = CONNECTING" "s_logic ?sa = Some ?l"
    "list_reader [7, 8] 0 (unat (2 :: u16)) = Inr [7, 8]" "length [7, 8 :: byte] = unat (2 :: u16)" "unat (2 :: u16) \<le> 65521"
    "w_sessions ?w 0 = Some (sample_peer (Server ?sl))" "sl_seq ?sl = al_seq ?l" "al_authentication ?l \<noteq> BEFORE_VERIFY"
    "block_ok sample_storage_block" "buf_SIZE (sample_storage_block\<lparr>buf_offset := 7\<rparr>) = ONCE_BUFFER_SIZE"
    "buf_offset (sample_storage_block\<lparr>buf_offset := 7\<rparr>) = prefix_size (Server ?sl)"
    by (simp_all add: sample_linked_def sample_active_peer_def list_reader_def sample_active_logic_def sample_peers_def
        linked_logic_def sample_storage_block_def block_ok_def)
  from linked_ends_stay_in_step [of ?wa 0 ?sa ?l "list_reader [7, 8]" 2 "[7, 8]" ?w 0, OF this, of 5] show ?thesis by blast
qed

end
