(* ===== verification/Inner_Pair.thy ===== *)
theory Inner_Pair
  imports Session_Env Proxy_Traffic Message_Storage
begin

text \<open>
  The direct connection of two programs in one network: \<open>TestClient/inner_session_logic.cpp\<close> and
  \<open>TestClient/inner_pair_session.cpp\<close>. A pair has one session, which connects or is accepted; its
  logic checks the checksum only, and stores whole packets, header included, in a ring.
\<close>

section \<open>State\<close>

record session_config =
  sc_is_connector :: bool
  sc_tick_interval :: u32
  sc_keep_alive_timeout :: u32
  sc_ip :: "byte list"
  sc_port :: u16
  sc_listened_port :: u16

text \<open>\<open>il_storage\<close> says whether the logic was given the pair's ring.\<close>

record inner_logic =
  il_storage :: bool
  il_session_holder :: "nat option"

record inner_env =
  ip_session_executor :: job_executor
  ip_session :: "nat option"
  ip_cfg :: session_config
  ip_storage :: "byte ring"
  ip_already_read_head :: "protocol_head option"

type_synonym inner_world = "(inner_logic, inner_env) world"

definition upd_ip :: "(inner_env \<Rightarrow> inner_env) \<Rightarrow> inner_world \<Rightarrow> inner_world" where
  "upd_ip f w = w\<lparr>w_env := f (w_env w)\<rparr>"

definition inner_logic_new :: inner_logic where
  "inner_logic_new = \<lparr>il_storage = False, il_session_holder = None\<rparr>"

definition inner_pair_new :: "memory \<Rightarrow> session_config \<Rightarrow> inner_env" where
  "inner_pair_new junk cfg =
     \<lparr>ip_session_executor = executor_new 1, ip_session = None, ip_cfg = cfg,
      ip_storage = ring_clear (ring_new junk TOTAL_CACHE_SIZE), ip_already_read_head = None\<rparr>"

definition set_config :: "session_config \<Rightarrow> inner_env \<Rightarrow> inner_env" where
  "set_config cfg e = e\<lparr>ip_cfg := cfg\<rparr>"

section \<open>The logic\<close>

definition inner_share_storage :: "inner_logic \<Rightarrow> inner_logic" where
  "inner_share_storage l = l\<lparr>il_storage := True\<rparr>"

definition inner_apply_session :: "nat \<Rightarrow> inner_logic \<Rightarrow> inner_logic" where
  "inner_apply_session sid l = l\<lparr>il_session_holder := Some sid\<rparr>"

definition inner_prefix_size :: "inner_logic \<Rightarrow> u64" where
  "inner_prefix_size l = of_nat PROTO_HEAD_SIZE"

definition inner_unwrap ::
  "nat \<Rightarrow> inner_logic \<Rightarrow> reusable_buffer \<Rightarrow> protocol_head \<Rightarrow> reusable_buffer \<Rightarrow> inner_world \<Rightarrow>
   ((bool \<times> reusable_buffer \<times> reusable_buffer) \<times> inner_world) res" where
  "inner_unwrap sid l buffer head ret_block w =
     rbind (mask_ok buffer head) (\<lambda>ok.
     if \<not> ok then Inr ((False, buffer, ret_block), w)
     else if head_len head = 0 then Inr ((False, buffer, ret_block), w)
     else
       rbind (buf_get buffer (buffer_at buffer 0) (unat (head_len head))) (\<lambda>data.
       rbind (buf_put ret_block (buffer_at ret_block 0) data) (\<lambda>ret_block.
       Inr ((True, buffer, ret_block\<lparr>buf_length := ucast (head_len head)\<rparr>), w))))"

definition inner_wrap :: "nat \<Rightarrow> inner_logic \<Rightarrow> reusable_buffer \<Rightarrow> inner_world \<Rightarrow> (reusable_buffer \<times> inner_world) res" where
  "inner_wrap sid l b w =
     (let head = get_a_head FRAME_KEY (ucast (buf_length b)) 0 (cmd_code Commands_RoutingTransparent) False 0 in
      rbind (payload b) (\<lambda>data.
      rbind (put_head b (seal_head head data)) (\<lambda>b. Inr (b, w))))"

definition inner_store ::
  "nat \<Rightarrow> inner_logic \<Rightarrow> reusable_buffer \<Rightarrow> protocol_head \<Rightarrow> inner_world \<Rightarrow> (bool \<times> inner_world) res" where
  "inner_store sid l data head w =
     (let r = ip_storage (w_env w) in
      if \<not> il_storage l then Inl NullDeref
      else if ring_full r (of_nat PROTO_HEAD_SIZE + buf_length data) then Inr (False, w)
      else
        let r = snd (tryWrite r (head_bytes head) (of_nat PROTO_HEAD_SIZE)) in
        rbind (write_block r data) (\<lambda>r. Inr (True, upd_ip (\<lambda>e. e\<lparr>ip_storage := r\<rparr>) w)))"

definition inner_vt :: "(inner_logic, inner_env) vtable" where
  "inner_vt = \<lparr>vt_prefix_size = inner_prefix_size, vt_wrap = inner_wrap, vt_unwrap = inner_unwrap,
     vt_store = inner_store\<rparr>"

definition inner_kick_peer :: "inner_logic \<Rightarrow> inner_world \<Rightarrow> inner_world" where
  "inner_kick_peer l w = w"

section \<open>The pair\<close>

text \<open>The callback of \<open>async_connect\<close>; \<open>done\<close> is the program's own action, if it bound one.\<close>

definition inner_connected :: "(inner_world \<Rightarrow> inner_world res) option \<Rightarrow> inner_world \<Rightarrow> inner_world res" where
  "inner_connected connect_done' w =
     (case ip_session (w_env w) of None \<Rightarrow> Inl NullDeref
      | Some sid \<Rightarrow>
        rbind (start_tick inner_wrap sid (uint (sc_tick_interval (ip_cfg (w_env w))))
                 (uint (sc_keep_alive_timeout (ip_cfg (w_env w)))) w) (\<lambda>w.
        case connect_done' of None \<Rightarrow> Inr w | Some f \<Rightarrow> f w))"

text \<open>
  \<open>start\<close>. The base class \<open>enable_shared_from_this\<close> is private, so no \<open>shared_ptr\<close> sets its weak
  pointer and \<open>shared_from_this\<close> throws; nothing catches it.
\<close>

definition inner_session ::
  "nat \<Rightarrow> u64 \<Rightarrow> u64 \<Rightarrow> u64 \<Rightarrow> int \<Rightarrow> int \<Rightarrow> inner_world \<Rightarrow> inner_world res" where
  "inner_session sid agent_uuid clock frame_count interval timeout w =
     rbind (new_session (ip_session_executor (w_env w)) agent_uuid clock frame_count interval timeout (w_now w)) (\<lambda>s.
     modify_session_logic inner_apply_session sid inner_logic_new
       (upd_ip (\<lambda>e. e\<lparr>ip_session := Some sid\<rparr>) (put_session sid s w)))"

definition inner_start ::
  "nat \<Rightarrow> u64 \<Rightarrow> u64 \<Rightarrow> u64 \<Rightarrow> int \<Rightarrow> int \<Rightarrow> inner_world \<Rightarrow> inner_world res" where
  "inner_start sid agent_uuid clock frame_count interval timeout w =
     (let w = upd_ip (\<lambda>e. e\<lparr>ip_session_executor := executor_start (ip_session_executor e)\<rparr>) w in
      rbind (inner_session sid agent_uuid clock frame_count interval timeout w) (\<lambda>w.
      if sc_is_connector (ip_cfg (w_env w))
      then rbind (get_logic sid w) (\<lambda>l.
           rbind (set_logic sid (inner_share_storage l) w) (\<lambda>w.
           async_connect sid w))
      else Inl Aborted))"

text \<open>The handler the acceptor would run.\<close>

definition inner_stop :: "inner_env \<Rightarrow> inner_env" where
  "inner_stop e = e\<lparr>ip_session_executor := executor_stop (ip_session_executor e)\<rparr>"

definition inner_accepted :: "bool \<Rightarrow> inner_world \<Rightarrow> inner_world res" where
  "inner_accepted ec w =
     (if ec then Inr (upd_ip inner_stop w)
      else case ip_session (w_env w) of None \<Rightarrow> Inl NullDeref
      | Some sid \<Rightarrow>
        rbind (passively_connect_succ sid w) (\<lambda>w.
        start_tick inner_wrap sid (uint (sc_tick_interval (ip_cfg (w_env w))))
          (uint (sc_keep_alive_timeout (ip_cfg (w_env w)))) w))"

definition inner_send :: "reader \<Rightarrow> u64 \<Rightarrow> inner_world \<Rightarrow> inner_world res" where
  "inner_send data length' w =
     (case ip_session (w_env w) of None \<Rightarrow> Inl NullDeref
      | Some sid \<Rightarrow>
        let (tmp_buffer, w) = temp_buffer w in
        rbind (get_logic sid w) (\<lambda>l.
        let tmp_buffer = tmp_buffer\<lparr>buf_offset := inner_prefix_size l\<rparr> in
        rbind (data 0 (unat length')) (\<lambda>bs.
        rbind (buf_put tmp_buffer (buffer_at tmp_buffer 0) bs) (\<lambda>tmp_buffer.
        async_send inner_wrap sid (tmp_buffer\<lparr>buf_length := length'\<rparr>) NoCallback w))))"

text \<open>
  \<open>pick_msg\<close>: its result, and what it stored through its two pointers, if it came that far.
  \<open>stale\<close> is what the pooled header holds.
\<close>

definition take_head :: "protocol_head \<Rightarrow> inner_env \<Rightarrow> (protocol_head \<times> inner_env) option" where
  "take_head stale e =
     (case ip_already_read_head e of Some h \<Rightarrow> Some (h, e)
      | None \<Rightarrow>
        if ring_empty (ip_storage e) (of_nat PROTO_HEAD_SIZE) then None
        else
          let (ok, bs, r) = tryRead (ip_storage e) (of_nat PROTO_HEAD_SIZE) False;
              h = (if ok then head_of_bytes bs else stale)
          in Some (h, e\<lparr>ip_storage := r, ip_already_read_head := Some h\<rparr>))"

definition inner_pick :: "protocol_head \<Rightarrow> inner_env \<Rightarrow> bool \<times> (protocol_head \<times> byte list) option \<times> inner_env" where
  "inner_pick stale e =
     (case take_head stale e of None \<Rightarrow> (False, None, e)
      | Some (h, e) \<Rightarrow>
        let (ok, bs, r) = tryRead (ip_storage e) (ucast (head_len h)) False in
        if \<not> ok then (False, None, e)
        else (False, Some (h, bs), e\<lparr>ip_storage := r, ip_already_read_head := None\<rparr>))"

section \<open>The steps\<close>

datatype inner_event =
    InnerConnected bool u32
  | InnerRead bool "byte list"
  | InnerWritten bool
  | InnerClose
  | InnerRetry bool
  | InnerTick bool
  | InnerElapse nat
  | InnerSend "byte list" u64
  | InnerPick protocol_head

fun inner_enabled :: "inner_event \<Rightarrow> inner_logic session \<Rightarrow> bool" where
  "inner_enabled (InnerConnected ec ip) s \<longleftrightarrow> s_state s = WAIT_CONNECT"
| "inner_enabled (InnerRead ec bs) s \<longleftrightarrow>
     s_reads s \<noteq> [] \<and> length bs \<le> unat (pr_room (hd (s_reads s))) \<and> (ec \<longrightarrow> bs = [])"
| "inner_enabled (InnerWritten ec) s \<longleftrightarrow> s_writes s \<noteq> []"
| "inner_enabled InnerClose s \<longleftrightarrow> s_closes s \<noteq> []"
| "inner_enabled (InnerRetry ec) s \<longleftrightarrow> (if ec then s_timer_cancelled s > 0 else s_timer s)"
| "inner_enabled (InnerTick ec) s \<longleftrightarrow> (if ec then s_tick_cancelled s > 0 else s_tick_timer s)"
| "inner_enabled _ s \<longleftrightarrow> True"

fun inner_handler :: "nat \<Rightarrow> inner_event \<Rightarrow> inner_world \<Rightarrow> inner_world res" where
  "inner_handler sid (InnerConnected ec ip) w = connect_done (Some (inner_connected None)) sid ec ip w"
| "inner_handler sid (InnerRead ec bs) w = read_done inner_vt sid ec bs w"
| "inner_handler sid (InnerWritten ec) w = write_done sid ec w"
| "inner_handler sid InnerClose w = close_task sid w"
| "inner_handler sid (InnerRetry ec) w = retry_timer_done inner_vt sid ec w"
| "inner_handler sid (InnerTick ec) w = tick_timer_done inner_wrap sid ec w"
| "inner_handler sid (InnerElapse n) w = Inr (w\<lparr>w_now := w_now w + int n\<rparr>)"
| "inner_handler sid (InnerSend data len) w = inner_send (list_reader data) len w"
| "inner_handler sid (InnerPick stale) w = Inr (upd_ip (\<lambda>e. snd (snd (inner_pick stale e))) w)"

inductive inner_step :: "inner_world \<Rightarrow> inner_event \<Rightarrow> inner_world \<Rightarrow> bool" where
  inner_stepI: "ip_session (w_env w) = Some sid \<Longrightarrow> w_sessions w sid = Some s \<Longrightarrow> inner_enabled e s \<Longrightarrow>
     inner_handler sid e w = Inr w' \<Longrightarrow> inner_step w e w'"

inductive_cases inner_stepE: "inner_step w e w'"

definition inner_init :: "inner_world \<Rightarrow> bool" where
  "inner_init w \<longleftrightarrow> w_sessions w = Map.empty \<and> (\<exists>cfg junk. w_env w = inner_pair_new junk cfg)"

inductive inner_reachable :: "inner_world \<Rightarrow> bool" where
  inner_reach_start: "inner_init w \<Longrightarrow> inner_start sid u c f i t w = Inr w' \<Longrightarrow> inner_reachable w'"
| inner_reach_step: "inner_reachable w \<Longrightarrow> inner_step w e w' \<Longrightarrow> inner_reachable w'"

section \<open>Storing whole packets\<close>

text \<open>From a ring that held \<open>L\<close>: still \<open>L\<close>, then whole packets, none of them empty.\<close>

definition framed :: "byte list \<Rightarrow> inner_env \<Rightarrow> bool" where
  "framed L e \<longleftrightarrow> storage_ok (ip_storage e)
     \<and> (\<exists>fs. (\<forall>f \<in> set fs. frame_ok f \<and> snd f \<noteq> []) \<and> ring_list (ip_storage e) = L @ concat (map frame_bytes fs))"

lemma framed_refl: "storage_ok (ip_storage e) \<Longrightarrow> framed (ring_list (ip_storage e)) e"
  unfolding framed_def by (auto intro!: exI [of _ "[]"])

lemma framed_other [simp]:
  "framed L (e\<lparr>ip_session_executor := x\<rparr>) \<longleftrightarrow> framed L e" "framed L (e\<lparr>ip_session := y\<rparr>) \<longleftrightarrow> framed L e"
  by (simp_all add: framed_def)

lemma w_env_upd_ip [simp]: "w_env (upd_ip f w) = f (w_env w)"
  by (simp add: upd_ip_def)

lemma inner_store_adds:
  assumes run: "inner_store sid l b h w = Inr (ok, w')" and ok: "storage_ok (ip_storage (w_env w))"
    and len: "buf_length b = ucast (head_len h)"
  shows "w' = w \<or> (\<exists>r data. length data = unat (head_len h) \<and> payload b = Inr data \<and> storage_ok r
    \<and> ring_list r = ring_list (ip_storage (w_env w)) @ frame_bytes (h, data) \<and> w' = upd_ip (\<lambda>e. e\<lparr>ip_storage := r\<rparr>) w)"
proof (cases "w' = w")
  case False
  let ?r = "ip_storage (w_env w)"
  let ?h = "snd (tryWrite ?r (head_bytes h) (of_nat PROTO_HEAD_SIZE))"
  have nf: "\<not> ring_full ?r (of_nat PROTO_HEAD_SIZE + buf_length b)"
    and "\<exists>r. write_block ?h b = Inr r \<and> w' = upd_ip (\<lambda>e. e\<lparr>ip_storage := r\<rparr>) w"
    using run False unfolding inner_store_def by (auto simp: Let_def rbind_eq_Inr split: if_splits)
  then obtain r where r: "write_block ?h b = Inr r" "w' = upd_ip (\<lambda>e. e\<lparr>ip_storage := r\<rparr>) w" by blast
  have n: "unat (of_nat PROTO_HEAD_SIZE + buf_length b) = PROTO_HEAD_SIZE + unat (head_len h)" and l: "unat (buf_length b) = unat (head_len h)"
    using len16_less [of "head_len h"] len by (simp_all add: trans [OF unat_add_small])
  have fits: "length (ring_list ?r) + PROTO_HEAD_SIZE + unat (head_len h) \<le> ring_room ?r"
    using ring_full_room [OF ok, of "of_nat PROTO_HEAD_SIZE + buf_length b"] nf n len16_less [of "head_len h"] by simp
  have h: "storage_ok ?h" "ring_list ?h = ring_list ?r @ head_bytes h"
    using storage_write [OF ok, of "head_bytes h"] fits by simp_all
  have room: "ring_room ?h = ring_room ?r" using h(1) ok by (simp add: storage_ok_def)
  obtain data where "payload b = Inr data" "length data = unat (head_len h)" "storage_ok r" "ring_list r = ring_list ?h @ data"
    using write_block_fits [OF h(1) _ r(1)] fits l h(2) room by (auto simp del: length_ring_list)
  with h(2) r(2) show ?thesis by (auto simp: frame_bytes_def)
qed simp

lemma framed_store:
  assumes "framed L (w_env w)" "buf_length b = ucast (head_len h)" "head_len h \<noteq> 0"
  shows "yields (inner_store sid l b h w) (\<lambda>(x, w'). framed L (w_env w'))"
proof (clarsimp simp: yields_def)
  fix ok w' assume run: "inner_store sid l b h w = Inr (ok, w')"
  from assms(1) obtain fs where ok: "storage_ok (ip_storage (w_env w))"
    and fs: "\<forall>f \<in> set fs. frame_ok f \<and> snd f \<noteq> []" "ring_list (ip_storage (w_env w)) = L @ concat (map frame_bytes fs)"
    by (auto simp: framed_def)
  from inner_store_adds [OF run ok assms(2)] consider "w' = w"
    | r data where "length data = unat (head_len h)" "storage_ok r"
        "ring_list r = ring_list (ip_storage (w_env w)) @ frame_bytes (h, data)" "w' = upd_ip (\<lambda>e. e\<lparr>ip_storage := r\<rparr>) w"
    by blast
  then show "framed L (w_env w')"
  proof cases
    case (2 r data)
    have "frame_ok (h, data)" "data \<noteq> []"
      using 2(1) assms(3) by (auto simp: frame_ok_def unat_eq_zero)
    then have "(\<forall>f \<in> set (fs @ [(h, data)]). frame_ok f \<and> snd f \<noteq> [])
        \<and> ring_list r = L @ concat (map frame_bytes (fs @ [(h, data)]))"
      using 2(3) fs by auto
    then show ?thesis using 2(2,4) unfolding framed_def by (auto simp del: map_append set_append)
  qed (simp add: assms)
qed

lemma framed_wrap: "framed L (w_env w) \<Longrightarrow> yields (inner_wrap sid l b w) (\<lambda>(x, w'). framed L (w_env w'))"
  unfolding inner_wrap_def Let_def
  by (rule yields_bind [OF yields_True], rule yields_bind [OF yields_True]) simp

lemma framed_unwrap:
  assumes "framed L (w_env w)"
  shows "yields (inner_unwrap sid l db h r w)
    (\<lambda>(x, w'). framed L (w_env w') \<and> (fst x \<longrightarrow> packet_block h r (snd (snd x))))"
proof -
  have copy: "head_len h \<noteq> 0 \<Longrightarrow> yields (rbind (buf_get db (buffer_at db 0) n) (\<lambda>data.
       rbind (buf_put r (buffer_at r 0) data) (\<lambda>ret_block.
       Inr ((True, db, ret_block\<lparr>buf_length := ucast (head_len h)\<rparr>), w))))
    (\<lambda>(x, w'). framed L (w_env w') \<and> (fst x \<longrightarrow> packet_block h r (snd (snd x))))" for n
    using assms by (auto simp: yields_def rbind_eq_Inr packet_block_def buf_put_Inr_iff)
  show ?thesis unfolding inner_unwrap_def
    by (rule yields_bind [OF yields_True], rule yields_if, simp add: assms, rule yields_if, simp add: assms,
        rule copy, assumption)
qed

interpretation inner: env_law inner_vt "framed L" for L
  by unfold_locales (simp_all add: inner_vt_def framed_unwrap framed_store framed_wrap)

lemma framed_connected: "framed L (w_env w) \<Longrightarrow> yields (inner_connected None w) (\<lambda>w'. framed L (w_env w'))"
  unfolding inner_connected_def
  by (rule yields_option, simp, rule yields_bind, rule inner.env_start_tick [of L, unfolded inner_vt_def vtable.simps])
    simp_all

lemma framed_send: "framed L (w_env w) \<Longrightarrow> yields (inner_send d n w) (\<lambda>w'. framed L (w_env w'))"
  unfolding inner_send_def Let_def
proof (rule yields_option, simp, rule yields_pair, (rule yields_bind [OF yields_True])+)
  show "yields (async_send inner_wrap sid b NoCallback w1) (\<lambda>w'. framed L (w_env w'))"
    if "framed L (w_env w)" "temp_buffer w = (b', w1)" for sid b b' w1
    using inner.env_async_send [of L w1 sid b NoCallback] env_pool_buffer [of "framed L", OF that] by (simp add: inner_vt_def)
qed

section \<open>Every step\<close>

lemma inner_step_framed:
  assumes "inner_step w e w'" "framed L (w_env w)" "\<forall>stale. e \<noteq> InnerPick stale"
  shows "framed L (w_env w')"
proof -
  from assms(1) obtain sid where run: "inner_handler sid e w = Inr w'" by (auto elim: inner_stepE)
  have "yields (inner_handler sid e w) (\<lambda>w'. framed L (w_env w'))"
  proof (cases e)
    case (InnerConnected ec ip)
    show ?thesis unfolding InnerConnected inner_handler.simps
      by (rule inner.env_connect_done [OF assms(2)]) (auto intro: framed_connected)
  next
    case (InnerRead ec bs)
    show ?thesis unfolding InnerRead inner_handler.simps by (rule inner.env_read_done [OF assms(2)])
  next
    case (InnerWritten ec)
    show ?thesis unfolding InnerWritten inner_handler.simps by (rule env_write_done [of "framed L", OF assms(2)])
  next
    case InnerClose
    show ?thesis unfolding InnerClose inner_handler.simps by (rule env_close_task [of "framed L", OF assms(2)])
  next
    case (InnerRetry ec)
    show ?thesis unfolding InnerRetry inner_handler.simps by (rule inner.env_retry_timer [OF assms(2)])
  next
    case (InnerTick ec)
    show ?thesis unfolding InnerTick inner_handler.simps
      using inner.env_tick_timer [OF assms(2), of sid ec] by (simp add: inner_vt_def)
  next
    case (InnerElapse n)
    then show ?thesis using assms(2) by simp
  next
    case (InnerSend data n)
    show ?thesis unfolding InnerSend inner_handler.simps by (rule framed_send [OF assms(2)])
  next
    case (InnerPick stale)
    then show ?thesis using assms(3) by simp
  qed
  with run show ?thesis by (rule yieldsD)
qed

lemma inner_pick_storage:
  assumes "storage_ok (ip_storage e)"
  shows "storage_ok (ip_storage (snd (snd (inner_pick stale e))))"
proof -
  have "storage_ok (ip_storage e')" if "take_head stale e = Some (h, e')" for h e'
    using that assms storage_read [OF assms, of "of_nat PROTO_HEAD_SIZE"]
    by (auto simp: take_head_def Let_def split: option.splits prod.splits if_splits)
  moreover have "storage_ok (ip_storage (snd (snd (inner_pick stale e))))" if "take_head stale e = Some (h, e')" "storage_ok (ip_storage e')" for h e'
    using that storage_read [OF that(2), of "ucast (head_len h)"] by (auto simp: inner_pick_def split: prod.split)
  moreover have "storage_ok (ip_storage (snd (snd (inner_pick stale e))))" if "take_head stale e = None"
    using that assms by (simp add: inner_pick_def)
  ultimately show ?thesis by (cases "take_head stale e") auto
qed

lemma inner_reachable_storage: "inner_reachable w \<Longrightarrow> storage_ok (ip_storage (w_env w))"
proof (induction rule: inner_reachable.induct)
  case (inner_reach_start w sid u c f i t w')
  have e: "framed [] (w_env w)"
    using inner_reach_start(1) storage_ok_new
    by (auto simp: inner_init_def inner_pair_new_def framed_def intro: exI [of _ "[]"])
  have s: "yields (inner_session sid u c f i t v) (\<lambda>w'. framed [] (w_env w'))" if "framed [] (w_env v)" for v
    unfolding inner_session_def
    by (rule yields_bind [OF yields_True], rule env_modify_logic [of "framed []"]) (simp add: that put_session_def)
  have "yields (inner_start sid u c f i t w) (\<lambda>w'. framed [] (w_env w'))"
    unfolding inner_start_def Let_def
    by (rule yields_bind [OF s], simp add: e, rule yields_if, rule yields_bind [OF yields_True], rule yields_bind,
        erule env_set_logic [of "framed []"], erule env_async_connect [of "framed []"], simp)
  with inner_reach_start(2) have "framed [] (w_env w')" by (rule yieldsD)
  then show ?case by (simp add: framed_def)
next
  case (inner_reach_step w e w')
  show ?case
  proof (cases "\<exists>stale. e = InnerPick stale")
    case True
    then show ?thesis using inner_reach_step inner_pick_storage by (auto elim!: inner_stepE)
  next
    case False
    then have "framed (ring_list (ip_storage (w_env w))) (w_env w')"
      using inner_step_framed [OF inner_reach_step(2) framed_refl [OF inner_reach_step(3)]] by blast
    then show ?thesis by (simp add: framed_def)
  qed
qed

section \<open>Picking\<close>

lemma inner_pick_frame:
  assumes ok: "storage_ok (ip_storage e)" and none: "ip_already_read_head e = None"
    and f: "ring_list (ip_storage e) = frame_bytes (h, data) @ rest" "frame_ok (h, data)" "data \<noteq> []"
  shows "\<exists>r. inner_pick stale e = (False, Some (h, data), e\<lparr>ip_storage := r, ip_already_read_head := None\<rparr>)
    \<and> storage_ok r \<and> ring_list r = rest"
proof -
  have inv: "ring_inv (ip_storage e)" "ring_room (ip_storage e) = 10485759" using ok by (simp_all add: storage_ok_def)
  have l: "ring_list (ip_storage e) = head_bytes h @ (data @ rest)" using f(1) by (simp add: frame_bytes_def)
  then have ne: "ring_list (ip_storage e) \<noteq> []" using f(3) by simp
  have "length (ring_list (ip_storage e)) \<noteq> PROTO_HEAD_SIZE" unfolding l using f(3) by simp
  then have full: "\<not> ring_empty (ip_storage e) (of_nat PROTO_HEAD_SIZE)"
    using ring_empty_iff [OF inv(1), of "of_nat PROTO_HEAD_SIZE"] by simp
  obtain r1 where r1: "tryRead (ip_storage e) (of_nat PROTO_HEAD_SIZE) False = (True, head_bytes h, r1)" "ring_inv r1"
      "ring_list r1 = data @ rest" "ring_room r1 = ring_room (ip_storage e)"
    using rbq.read_list [OF inv(1) l ne] by auto
  have take: "take_head stale e = Some (h, e\<lparr>ip_storage := r1, ip_already_read_head := Some h\<rparr>)"
    using none full r1(1) by (simp add: take_head_def)
  have n: "of_nat (length data) = (ucast (head_len h) :: u64)" using f(2) by (simp add: frame_ok_def)
  have ne1: "ring_list r1 \<noteq> []" using r1(3) f(3) by simp
  obtain r where "tryRead r1 (ucast (head_len h)) False = (True, data, r)" "ring_inv r" "ring_list r = rest"
      "ring_room r = ring_room r1"
    using rbq.read_list [OF r1(2,3) ne1] by (auto simp: n)
  then show ?thesis using r1(4) inv(2) take by (auto simp: inner_pick_def storage_ok_def)
qed

lemma inner_pick_pending:
  assumes "storage_ok (ip_storage e)" "ip_already_read_head e = Some h"
    and "unat (head_len h) \<le> length (ring_list (ip_storage e))" "ring_list (ip_storage e) \<noteq> []"
  shows "\<exists>r. inner_pick stale e = (False, Some (h, take (unat (head_len h)) (ring_list (ip_storage e))),
      e\<lparr>ip_storage := r, ip_already_read_head := None\<rparr>) \<and> ring_list r = drop (unat (head_len h)) (ring_list (ip_storage e))"
proof -
  have inv: "ring_inv (ip_storage e)" using assms(1) by (simp add: storage_ok_def)
  have n: "unat (ucast (head_len h) :: u64) = unat (head_len h)" by simp
  obtain r where "tryRead (ip_storage e) (ucast (head_len h)) False
      = (True, take (unat (head_len h)) (ring_list (ip_storage e)), r)"
      "ring_list r = drop (unat (head_len h)) (ring_list (ip_storage e))"
    using rbq.read_stored [OF inv _ assms(4), of "ucast (head_len h)"] assms(3) unfolding n by auto
  with assms(2) show ?thesis by (auto simp: inner_pick_def take_head_def)
qed

section \<open>Properties\<close>

definition sample_session_config :: session_config where
  "sample_session_config = \<lparr>sc_is_connector = True, sc_tick_interval = 100, sc_keep_alive_timeout = 30000,
     sc_ip = [49], sc_port = 2001, sc_listened_port = 2002\<rparr>"

definition sample_pair :: inner_world where
  "sample_pair = \<lparr>w_sessions = Map.empty, w_now = 0, w_alloc = 0, w_junk = (\<lambda>_ _. 0),
     w_env = inner_pair_new (\<lambda>_. 0) sample_session_config\<rparr>"

definition sample_pair_started :: inner_world where
  "sample_pair_started = (case inner_start 0 0 5 0 0 0 sample_pair of Inr w \<Rightarrow> w)"

lemmas inner_start_defs = inner_start_def inner_session_def new_session_def agent_strand_def strand_to_run_def
  executor_new_def executor_start_def modify_session_logic_def upd_session_def get_session_def put_session_def upd_ip_def
  get_logic_def set_logic_def async_connect_def inner_pair_new_def Let_def

lemma sample_pair_starts:
  "\<exists>w s. inner_start 0 0 5 0 0 0 sample_pair = Inr w
     \<and> ip_session (w_env w) = Some 0 \<and> w_sessions w 0 = Some s \<and> s_state s = WAIT_CONNECT"
  by (simp add: inner_start_defs sample_pair_def sample_session_config_def)

lemma sample_pair_reachable: "inner_reachable sample_pair_started"
proof (rule inner_reach_start)
  show "inner_start 0 0 5 0 0 0 sample_pair = Inr sample_pair_started"
    using sample_pair_starts by (auto simp: sample_pair_started_def)
qed (auto simp: inner_init_def sample_pair_def)

text \<open>C32: whatever the peer sends, the other handlers only append whole packets to the ring, each with
  its header, as long as the header says, and not empty.\<close>

theorem inner_stores_whole_packets:
  assumes "inner_reachable w" "inner_step w e w'" "\<forall>stale. e \<noteq> InnerPick stale"
  shows "\<exists>fs. (\<forall>f \<in> set fs. frame_ok f \<and> snd f \<noteq> [])
    \<and> ring_list (ip_storage (w_env w')) = ring_list (ip_storage (w_env w)) @ concat (map frame_bytes fs)"
  using inner_step_framed [OF assms(2) framed_refl [OF inner_reachable_storage [OF assms(1)]] assms(3)]
  by (simp add: framed_def)

lemma inner_stores_whole_packets_witness:
  "\<exists>w' fs. inner_step sample_pair_started (InnerConnected True 1) w'
     \<and> ring_list (ip_storage (w_env w')) = ring_list (ip_storage (w_env sample_pair_started)) @ concat (map frame_bytes fs)"
proof -
  obtain s where s: "ip_session (w_env sample_pair_started) = Some 0" "w_sessions sample_pair_started 0 = Some s"
      "s_state s = WAIT_CONNECT" using sample_pair_starts by (auto simp: sample_pair_started_def)
  then obtain w' where "inner_handler 0 (InnerConnected True 1) sample_pair_started = Inr w'"
    by (simp add: connect_done_def close_session_def get_session_def)
  then have step: "inner_step sample_pair_started (InnerConnected True 1) w'"
    using s by (intro inner_stepI) simp_all
  from inner_stores_whole_packets [OF sample_pair_reachable step] step show ?thesis by blast
qed

text \<open>With a packet stored and no header pending, \<open>pick_msg\<close> takes the packet out of the ring and stores
  header and data where the caller asked, but returns false.\<close>

theorem inner_pick_denies_its_packet:
  assumes "storage_ok (ip_storage e)" "ip_already_read_head e = None"
    and "ring_list (ip_storage e) = frame_bytes (h, data) @ rest" "frame_ok (h, data)" "data \<noteq> []"
  shows "\<exists>r. inner_pick stale e = (False, Some (h, data), e\<lparr>ip_storage := r, ip_already_read_head := None\<rparr>)
    \<and> storage_ok r \<and> ring_list r = rest"
  by (rule inner_pick_frame [OF assms])

definition sample_head :: protocol_head where
  "sample_head = get_a_head FRAME_KEY 2 0 5 False 0"

definition sample_ring :: "byte ring" where
  "sample_ring = snd (tryWrite (ring_clear (ring_new (\<lambda>_. 0) TOTAL_CACHE_SIZE)) (frame_bytes (sample_head, [7, 8]))
     (of_nat (length (frame_bytes (sample_head, [7, 8])))))"

definition sample_pair_env :: inner_env where
  "sample_pair_env = inner_pair_new (\<lambda>_. 0) sample_session_config\<lparr>ip_storage := sample_ring\<rparr>"

lemma sample_ring: "storage_ok sample_ring" "ring_list sample_ring = frame_bytes (sample_head, [7, 8])"
proof -
  have l: "length (frame_bytes (sample_head, [7, 8])) = 13" by (simp add: frame_bytes_def)
  have room: "ring_room (ring_clear (ring_new (\<lambda>_. 0 :: byte) TOTAL_CACHE_SIZE)) = 10485759"
    using storage_ok_new [of "\<lambda>_. 0"] by (simp add: storage_ok_def)
  have w: "storage_ok (snd (tryWrite q xs (of_nat (length xs)))) \<and> ring_list (snd (tryWrite q xs (of_nat (length xs)))) = xs"
    if "storage_ok q" "ring_list q = []" "length xs \<le> 13" for q and xs :: "byte list"
    using storage_write [OF that(1), of xs] that by (simp add: storage_ok_def flip: length_ring_list)
  show "storage_ok sample_ring" "ring_list sample_ring = frame_bytes (sample_head, [7, 8])"
    unfolding sample_ring_def using w [OF storage_ok_new [of "\<lambda>_. 0"], of "frame_bytes (sample_head, [7, 8])"] l by simp_all
qed

lemma inner_pick_denies_its_packet_witness:
  "\<exists>e'. inner_pick sample_head sample_pair_env = (False, Some (sample_head, [7, 8]), e')"
proof -
  have "frame_ok (sample_head, [7, 8])" by (simp add: frame_ok_def sample_head_def)
  then show ?thesis
    using inner_pick_denies_its_packet [of sample_pair_env sample_head "[7, 8]" "[]" sample_head] sample_ring
    by (auto simp: sample_pair_env_def inner_pair_new_def)
qed

text \<open>Asking an empty ring leaves the header of an unused pool object behind, and the next packet is cut
  by that header's length: what is handed out starts with the bytes of the real header.\<close>

theorem inner_poll_spoils_next:
  assumes "storage_ok (ip_storage e)" "ring_list (ip_storage e) = []" "ip_already_read_head e = None"
    and "storage_ok r" "ring_list r = frame_bytes f" "unat (head_len stale) \<le> length (frame_bytes f)"
  shows "\<exists>e1 r'. inner_pick stale e = (False, None, e1) \<and> ip_already_read_head e1 = Some stale
    \<and> inner_pick other (e1\<lparr>ip_storage := r\<rparr>)
        = (False, Some (stale, take (unat (head_len stale)) (frame_bytes f)), e1\<lparr>ip_storage := r', ip_already_read_head := None\<rparr>)
    \<and> ring_list r' = drop (unat (head_len stale)) (frame_bytes f)"
proof -
  have inv: "ring_inv (ip_storage e)" using assms(1) by (simp add: storage_ok_def)
  have ne: "\<not> ring_empty (ip_storage e) (of_nat PROTO_HEAD_SIZE)"
    using ring_empty_iff [OF inv, of "of_nat PROTO_HEAD_SIZE"] assms(2) by simp
  have rd: "tryRead (ip_storage e) n False = (False, [], ip_storage e)" for n
    by (rule rbq.read_empty [OF inv assms(2)])
  have pick: "inner_pick stale e = (False, None, e\<lparr>ip_already_read_head := Some stale\<rparr>)"
    using assms(3) ne rd by (simp add: inner_pick_def take_head_def)
  have "ring_list r \<noteq> []" using assms(5) by (auto simp: frame_bytes_def head_bytes_def)
  then obtain r' where "inner_pick other (e\<lparr>ip_already_read_head := Some stale, ip_storage := r\<rparr>)
      = (False, Some (stale, take (unat (head_len stale)) (frame_bytes f)), e\<lparr>ip_storage := r', ip_already_read_head := None\<rparr>)"
      "ring_list r' = drop (unat (head_len stale)) (frame_bytes f)"
    using inner_pick_pending [of "e\<lparr>ip_already_read_head := Some stale, ip_storage := r\<rparr>" stale other] assms(4,5,6)
    by auto
  with pick show ?thesis by auto
qed

lemma inner_poll_spoils_next_witness:
  "\<exists>e1 e2. inner_pick sample_head (inner_pair_new (\<lambda>_. 0) sample_session_config) = (False, None, e1)
     \<and> inner_pick sample_head (e1\<lparr>ip_storage := sample_ring\<rparr>)
        = (False, Some (sample_head, take 2 (frame_bytes (sample_head, [7, 8]))), e2)"
  using inner_poll_spoils_next [of "inner_pair_new (\<lambda>_. 0) sample_session_config" sample_ring "(sample_head, [7, 8])"
      sample_head sample_head] sample_ring storage_ok_new [of "\<lambda>_. 0"]
  by (fastforce simp: inner_pair_new_def frame_bytes_def sample_head_def)

end
