(* ===== verification/Inner_Link.thy ===== *)
theory Inner_Link
  imports Inner_Pair Handshake
begin

text \<open>
  The two ends of an inner pair together: what one program sends, the other one reads, stores in
  its ring and hands out, byte for byte.
\<close>

section \<open>The pair's logic runs under the session\<close>

lemma calm_upd_ip [simp]: "calm w (upd_ip f w)"
  by (simp add: calm_def upd_ip_def option.rel_refl)

interpretation pair: session_logic inner_vt
proof
  show "yields (vt_unwrap inner_vt sid l db h r w) (\<lambda>(x, w'). calm w w' \<and> same_block db (fst (snd x)))"
    for sid l db h r w
    by (auto simp: inner_vt_def inner_unwrap_def intro!: yields_bind [OF yields_True] yields_if)
  show "yields (vt_store inner_vt sid l b h w) (\<lambda>(x, w'). calm w w')" for sid l b h w
    by (auto simp: inner_vt_def inner_store_def Let_def intro!: yields_bind [OF yields_True] yields_if)
  show "yields (vt_wrap inner_vt sid l b w) (\<lambda>(x, w'). calm w w')" for sid l b w
    by (auto simp: inner_vt_def inner_wrap_def Let_def intro!: yields_bind [OF yields_True])
qed

section \<open>Sending\<close>

lemma inner_wrap_packet:
  assumes "send_block b data"
  shows "\<exists>b' bs h. inner_wrap sid l b w = Inr (b', w) \<and> payload b' = Inr bs \<and> one_packet bs h data
    \<and> get_cmd h = cmd_code Commands_RoutingTransparent"
proof -
  let ?h = "seal_head (get_a_head FRAME_KEY (ucast (buf_length b)) 0 (cmd_code Commands_RoutingTransparent) False 0) data"
  have "one_packet (head_bytes ?h @ data) ?h data"
    by (rule sealed_one_packet) (simp add: send_block_len16 [OF assms])
  moreover obtain b' where "put_head b ?h = Inr b'" "payload b' = Inr (head_bytes ?h @ data)"
    using put_head_packet [OF assms] by blast
  ultimately show ?thesis
    unfolding inner_wrap_def Let_def send_block_payload [OF assms] rbind_Inr
    by (intro exI [of _ b'] exI [of _ "head_bytes ?h @ data"] exI [of _ ?h]) (simp add: get_cmd_head)
qed

lemma inner_send_one:
  assumes "ip_session (w_env w) = Some sid" "w_sessions w sid = Some s" "s_state s = CONNECTING" "s_logic s = Some l"
    and "rd 0 (unat len) = Inr data" "length data = unat len" "unat len \<le> 65525"
  shows "\<exists>w' bs h s'. inner_send rd len w = Inr w' \<and> w_sessions w' sid = Some s'
    \<and> s_writes s' = s_writes s @ [\<lparr>pw_bytes = bs, pw_callback = NoCallback\<rparr>] \<and> one_packet bs h data
    \<and> get_cmd h = cmd_code Commands_RoutingTransparent"
proof -
  obtain b w1 where tb: "temp_buffer w = (b, w1)" by fastforce
  note w1 = pool_buffer_world [OF tb] and b = pool_buffer_block [OF tb]
  let ?b = "b\<lparr>buf_offset := of_nat PROTO_HEAD_SIZE, buf_bytes := mem_write (buf_bytes b) PROTO_HEAD_SIZE data, buf_length := len\<rparr>"
  have sb: "send_block ?b data" using b assms(6,7) by (simp add: send_block_def payload_def buf_get_def mem_simps)
  let ?s = "s\<lparr>s_last_send_time := w_now w1\<rparr>"
  let ?w = "put_session sid ?s w1"
  obtain b' bs h where wr: "inner_wrap sid l ?b ?w = Inr (b', ?w)" "payload b' = Inr bs" "one_packet bs h data"
      "get_cmd h = cmd_code Commands_RoutingTransparent" using inner_wrap_packet [OF sb] by blast
  have s1: "w_sessions w1 sid = Some s" using assms(2) w1 by simp
  have run: "inner_send rd len w = async_send inner_wrap sid ?b NoCallback w1"
    unfolding inner_send_def tb Let_def
    using assms w1 b by (simp add: get_logic_def get_session_def inner_prefix_size_def buf_put_def)
  have up: "get_session sid w1 = Inr s" "update_send_time sid w1 = Inr ?w" "get_session sid ?w = Inr ?s"
    using s1 by (simp_all add: update_send_time_def upd_session_Inr)
  have "async_send inner_wrap sid ?b NoCallback w1
      = Inr (put_session sid (?s\<lparr>s_writes := s_writes s @ [\<lparr>pw_bytes = bs, pw_callback = NoCallback\<rparr>]\<rparr>) ?w)"
    unfolding async_send_def up rbind_Inr assms(4) option.case wr(1) prod.case wr(2)
    using assms(3) by (simp add: start_write_def upd_session_def get_session_def put_session_def)
  then show ?thesis unfolding run using wr(3,4) by (intro exI [of _ bs] exI [of _ h] exI conjI) (auto simp: put_session_def)
qed

section \<open>Storing\<close>

lemma inner_store_room:
  assumes "storage_ok (ip_storage (w_env w))" "il_storage l" "payload b = Inr data" "buf_length b = ucast (head_len h)"
    and "length (ring_list (ip_storage (w_env w))) + PROTO_HEAD_SIZE + unat (head_len h) \<le> 10485759"
  shows "\<exists>r. inner_store sid l b h w = Inr (True, upd_ip (\<lambda>e. e\<lparr>ip_storage := r\<rparr>) w) \<and> storage_ok r
    \<and> ring_list r = ring_list (ip_storage (w_env w)) @ frame_bytes (h, data)"
proof -
  let ?r = "ip_storage (w_env w)"
  let ?h = "snd (tryWrite ?r (head_bytes h) (of_nat PROTO_HEAD_SIZE))"
  have room: "ring_room ?r = 10485759" using assms(1) by (simp add: storage_ok_def)
  have n: "unat (of_nat PROTO_HEAD_SIZE + buf_length b) = PROTO_HEAD_SIZE + unat (head_len h)"
    using len16_less [of "head_len h"] assms(4) by (simp add: trans [OF unat_add_small])
  have nf: "\<not> ring_full ?r (of_nat PROTO_HEAD_SIZE + buf_length b)"
    using ring_full_room [OF assms(1), of "of_nat PROTO_HEAD_SIZE + buf_length b"] n room assms(5) len16_less [of "head_len h"]
    by simp
  have hd: "storage_ok ?h" "ring_list ?h = ring_list ?r @ head_bytes h"
    using storage_write [OF assms(1), of "head_bytes h"] room assms(5) by simp_all
  have fits: "length (ring_list ?h) + unat (buf_length b) \<le> ring_room ?h"
    using hd assms(4,5) by (simp add: storage_ok_def)
  have "\<exists>r. write_block ?h b = Inr r" unfolding write_block_def assms(3) rbind_Inr by simp
  then obtain r where wb: "write_block ?h b = Inr r" ..
  from write_block_fits [OF hd(1) fits wb] assms(3) hd(2)
  have "storage_ok r" "ring_list r = ring_list ?r @ frame_bytes (h, data)" by (auto simp: frame_bytes_def)
  then show ?thesis using nf assms(2) wb by (auto simp: inner_store_def)
qed

lemma inner_hand_over:
  assumes t: "w_sessions v sid = Some t" "s_logic t = Some l" "il_storage l"
    and db: "block_ok db" and body: "length body = unat (head_len h)" "body \<noteq> []" "length body \<le> 65525"
    and mask: "get_mask (head_bytes h) body 0 = 0" and ok: "storage_ok (ip_storage (w_env v))"
    and room: "length (ring_list (ip_storage (w_env v))) + PROTO_HEAD_SIZE + length body \<le> 10485759"
  shows "\<exists>r v1. hand_over inner_vt sid h (with_body db h body) v = Inr ((Some True, with_body db h body), v1)
    \<and> w_env v1 = (w_env v)\<lparr>ip_storage := r\<rparr> \<and> storage_ok r
    \<and> ring_list r = ring_list (ip_storage (w_env v)) @ frame_bytes (h, body)"
proof -
  obtain ub v0 where tb: "temp_buffer v = (ub, v0)" by fastforce
  note v0 = pool_buffer_world [OF tb] and ub = pool_buffer_block [OF tb] and b = block_body [OF db body(1)]
  let ?ret = "ub\<lparr>buf_offset := of_nat PROTO_HEAD_SIZE, buf_bytes := mem_write (buf_bytes ub) PROTO_HEAD_SIZE body,
      buf_length := ucast (head_len h)\<rparr>"
  have g: "get_logic sid v0 = Inr l" using t v0 by (simp add: get_logic_def get_session_def)
  have "head_len h \<noteq> 0" using body(1,2) by auto
  then have un: "inner_unwrap sid l (with_body db h body) h (ub\<lparr>buf_offset := of_nat PROTO_HEAD_SIZE\<rparr>) v0
      = Inr ((True, with_body db h body, ?ret), v0)"
    using mask_ok_at [OF b(1)] mask b(1) ub body(3) by (simp add: inner_unwrap_def buf_put_def)
  have pl: "payload ?ret = Inr body" using body(1,3) ub by (simp add: payload_def buf_get_def mem_simps)
  obtain r where "inner_store sid l ?ret h v0 = Inr (True, upd_ip (\<lambda>e. e\<lparr>ip_storage := r\<rparr>) v0)" "storage_ok r"
      "ring_list r = ring_list (ip_storage (w_env v0)) @ frame_bytes (h, body)"
    using inner_store_room [of v0 l ?ret body h sid] ok room t(3) pl body(1) v0 by auto
  then show ?thesis
    unfolding hand_over_def tb Let_def prod.case
    using g un v0 by (auto simp: inner_vt_def inner_prefix_size_def)
qed


section \<open>Properties\<close>


text \<open>Two connected ends.\<close>

definition sample_pair_end :: inner_world where
  "sample_pair_end = sample_pair\<lparr>w_sessions := [0 \<mapsto>
     \<lparr>s_state = CONNECTING, s_open = True, s_remote_ip = Some 1,
      s_recv = Some (0, \<lparr>buf_SIZE = ONCE_BUFFER_SIZE, buf_offset = 0, buf_length = 0, buf_bytes = (\<lambda>_. 0)\<rparr>),
      s_reads = [\<lparr>pr_buffer = 0, pr_pos = 0, pr_room = ONCE_BUFFER_SIZE\<rparr>],
      s_writes = [], s_closes = [], s_timer = False, s_timer_cancelled = 0,
      s_tick_timer = True, s_tick_cancelled = 0, s_tick_interval = 100, s_frame_count = 0, s_keep_alive_timeout = 30000,
      s_last_recv_time = 0, s_last_send_time = 0, s_logic = Some \<lparr>il_storage = True, il_session_holder = Some 0\<rparr>,
      s_uuid = 5, s_strand = 0\<rparr>],
     w_env := (inner_pair_new (\<lambda>_. 0) sample_session_config)\<lparr>ip_session := Some 0\<rparr>\<rparr>"


end
