(* ===== verification/Keep_Alive.thy ===== *)
theory Keep_Alive
  imports Async_Session
begin

text \<open>
  The tick counter behind the keep-alive check: a session ticks every \<open>s_tick_interval\<close>
  milliseconds, and the check runs on the ticks \<open>is_tick_frame_effective\<close> lets through.
\<close>

text \<open>\<open>n\<close> ticks in a row: how many were effective, and the counter after them.\<close>

fun ticks :: "nat \<Rightarrow> u64 \<Rightarrow> u64 \<Rightarrow> (nat \<times> u64) res" where
  "ticks 0 tick count = Inr (0, count)"
| "ticks (Suc n) tick count =
     rbind (is_tick_frame_effective tick KEEP_ALIVE_PRECISION count) (\<lambda>(effective, count).
     rbind (ticks n tick count) (\<lambda>(k, count). Inr ((if effective then 1 else 0) + k, count)))"

lemma tick_once:
  assumes "tick \<noteq> 0" "unat tick \<le> 1000" "unat count < 1000 div unat tick"
  shows "\<exists>count'. is_tick_frame_effective tick KEEP_ALIVE_PRECISION count
      = Inr (unat count + 1 = 1000 div unat tick, count')
    \<and> unat count' = (if unat count + 1 = 1000 div unat tick then 0 else unat count + 1)"
proof -
  let ?K = "1000 div tick" and ?k = "1000 div unat tick"
  have k: "unat ?K = ?k" by (simp add: unat_div)
  have "0 < unat tick" using assms(1) by (simp add: unat_gt_0)
  then have "0 < ?k" "?k \<le> 1000" using assms(2) by (simp_all add: div_greater_zero_iff)
  then have K: "?K \<noteq> 0" using k by (metis unat_0 less_irrefl)
  have "unat count < 1000" using assms(3) \<open>?k \<le> 1000\<close> by linarith
  then have "unat (count + 1) = unat count + 1" by (subst unat_add_small) simp_all
  then have m: "unat ((count + 1) mod ?K) = (unat count + 1) mod ?k" by (simp add: unat_mod k)
  have le: "unat count + 1 \<le> ?k" using assms(3) by simp
  then have r: "(unat count + 1) mod ?k = (if unat count + 1 = ?k then 0 else unat count + 1)" by auto
  then have z: "(count + 1) mod ?K = 0 \<longleftrightarrow> unat count + 1 = ?k"
    using m by (metis Suc_eq_plus1 nat.simps(3) unat_eq_0)
  show ?thesis
    using assms(1) K m r z by (simp add: is_tick_frame_effective_def Let_def)
qed

lemma ticks_run:
  assumes "tick \<noteq> 0" "unat tick \<le> 1000" "unat count < 1000 div unat tick"
  shows "\<exists>count'. ticks n tick count = Inr ((unat count + n) div (1000 div unat tick), count')
    \<and> unat count' = (unat count + n) mod (1000 div unat tick)"
  using assms(3)
proof (induction n arbitrary: count)
  case (Suc n)
  let ?k = "1000 div unat tick"
  from tick_once [OF assms(1,2) Suc.prems] obtain c where
    c: "is_tick_frame_effective tick KEEP_ALIVE_PRECISION count = Inr (unat count + 1 = ?k, c)"
      "unat c = (if unat count + 1 = ?k then 0 else unat count + 1)" by blast
  then have "unat c < ?k" using Suc.prems by (auto split: if_splits)
  from Suc.IH [OF this] obtain c' where
    c': "ticks n tick c = Inr ((unat c + n) div ?k, c')" "unat c' = (unat c + n) mod ?k" by blast
  have "(unat count + Suc n) div ?k = (if unat count + 1 = ?k then 1 else 0) + (unat c + n) div ?k
      \<and> (unat count + Suc n) mod ?k = (unat c + n) mod ?k"
  proof (cases "unat count + 1 = ?k")
    case True
    then have e: "unat count + Suc n = n + ?k" and k: "?k \<noteq> 0" by simp_all
    show ?thesis unfolding e using True c(2) div_add_self2 [OF k, of n] by simp
  qed (use c(2) in simp)
  with c c' show ?case by simp
qed simp

section \<open>Properties\<close>

text \<open>C40: with an interval of 1 to 1000 milliseconds, the keep-alive check is let through at regular ticks:
  out of any \<open>n\<close> ticks in a row exactly as many as whole seconds' worth of ticks went by, and the
  counter never wraps. With interval 0, or more than a second, the first tick divides by zero.\<close>

theorem ticks_are_regular:
  assumes "unat count < 1000 div unat tick"
  shows "(tick \<noteq> 0 \<and> unat tick \<le> 1000 \<longrightarrow>
      (\<exists>count'. ticks n tick count = Inr ((unat count + n) div (1000 div unat tick), count')
        \<and> unat count' = (unat count + n) mod (1000 div unat tick)))
    \<and> (tick' = 0 \<or> unat tick' > 1000 \<longrightarrow> ticks (Suc n) tick' count = Inl DivByZero)"
proof -
  have "1000 div tick' = 0" if "unat tick' > 1000"
    using that by (simp add: unat_div flip: unat_eq_0)
  then have "ticks (Suc n) tick' count = Inl DivByZero" if "tick' = 0 \<or> unat tick' > 1000"
    using that by (auto simp: is_tick_frame_effective_def)
  then show ?thesis using ticks_run assms by blast
qed

lemma ticks_are_regular_witness:
  "(\<exists>count'. ticks 25 100 3 = Inr (2, count') \<and> unat count' = 8) \<and> ticks 26 0 3 = Inl DivByZero"
  using ticks_are_regular [of 3 100 25 0] by (simp del: ticks.simps)

end
