(* ===== verification/Log_Writer.thy ===== *)
theory Log_Writer
  imports Prelude
begin

text \<open>
  \<open>WLog/WLog.cpp\<close> and \<open>WLog/LogDefine.h\<close>: the log. A record taken from a pool of slots is filled and
  written at once, or queued for a worker thread (the next theory). A \<open>char\<close> array is the
  list of its characters before the terminator; a full array has none, and reading it as a string
  runs out of it. The file system, the clock and what \<open>vsnprintf\<close> makes of its arguments
  are given.
\<close>

section \<open>Types\<close>

datatype ELogType = ELT_KeyInfo | ELT_Error | ELT_Warning | ELT_Info

abbreviation ELT_Max :: nat where
  "ELT_Max \<equiv> 4"

fun log_type_code :: "ELogType \<Rightarrow> byte" where
  "log_type_code ELT_KeyInfo = 0"
| "log_type_code ELT_Error = 1"
| "log_type_code ELT_Warning = 2"
| "log_type_code ELT_Info = 3"

abbreviation MAX_STR_LEN :: nat where
  "MAX_STR_LEN \<equiv> 512"

record SLogContent =
  lc_bType :: byte
  lc_wYear :: u16
  lc_wMonth :: u16
  lc_wDate :: u16
  lc_szContent :: "byte list"

text \<open>The file system: which paths can be written, made and opened, and the lines written so far.\<close>

record log_host =
  lh_accessible :: "byte list list"
  lh_mkdir :: "byte list \<Rightarrow> bool"
  lh_fopen :: "byte list \<Rightarrow> bool"
  lh_written :: "(byte list \<times> byte list) list"

record WLog =
  wl_pFileStream :: "byte list option list"
  wl_nLogMask :: u32
  wl_strLogPath :: "byte list"
  wl_strLogName :: "byte list"
  wl_strCurLogName :: "byte list list"
  wl_bUseWorkThread :: bool
  wl_astContent :: "SLogContent list"
  wl_bStopWorkThread :: bool
  wl_listFreeContent :: "nat list"
  wl_listUsedContent :: "nat list"
  wl_host :: log_host

text \<open>The parts of \<open>struct tm\<close> that are used, \<open>tm_year\<close> and \<open>tm_mon\<close> as years and months from 0 and 1.\<close>

record log_time =
  lt_year :: nat
  lt_month :: nat
  lt_mday :: nat
  lt_hour :: nat
  lt_min :: nat
  lt_sec :: nat

section \<open>Strings\<close>

definition ascii :: "string \<Rightarrow> byte list" where
  "ascii s = map of_char s"

text \<open>\<open>strncpy\<close> into an array; reading an array as a string; \<open>snprintf\<close> into \<open>n\<close> characters.\<close>

definition c_copy :: "byte list \<Rightarrow> byte list" where
  "c_copy src = take MAX_STR_LEN src"

definition c_string :: "byte list \<Rightarrow> byte list res" where
  "c_string a = (if length a < MAX_STR_LEN then Inr a else Inl OutOfBounds)"

definition c_print :: "nat \<Rightarrow> byte list \<Rightarrow> byte list" where
  "c_print n s = take (n - 1) s"

fun dec_digits :: "nat \<Rightarrow> byte list" where
  "dec_digits n = (if n < 10 then [48 + of_nat n] else dec_digits (n div 10) @ [48 + of_nat (n mod 10)])"

declare dec_digits.simps [simp del]

text \<open>\<open>%0kd\<close> of a number that is not negative.\<close>

definition dec_pad :: "nat \<Rightarrow> nat \<Rightarrow> byte list" where
  "dec_pad k n = replicate (k - length (dec_digits n)) 48 @ dec_digits n"

section \<open>Masks\<close>

text \<open>A shift of an \<open>unsigned int\<close> by 32 or more is undefined.\<close>

definition log_bit :: "byte \<Rightarrow> u32 res" where
  "log_bit bType = (if unat bType < 32 then Inr (push_bit (unat bType) 1) else Inl OutOfBounds)"

definition AppendLogMask :: "byte \<Rightarrow> WLog \<Rightarrow> WLog res" where
  "AppendLogMask bType l = rbind (log_bit bType) (\<lambda>m. Inr (l\<lparr>wl_nLogMask := wl_nLogMask l OR m\<rparr>))"

definition RemoveLogMask :: "byte \<Rightarrow> WLog \<Rightarrow> WLog res" where
  "RemoveLogMask bType l = rbind (log_bit bType) (\<lambda>m. Inr (l\<lparr>wl_nLogMask := wl_nLogMask l AND NOT m\<rparr>))"

definition PeekLogMask :: "byte \<Rightarrow> WLog \<Rightarrow> bool res" where
  "PeekLogMask bType l = rbind (log_bit bType) (\<lambda>m. Inr (wl_nLogMask l AND m \<noteq> 0))"

section \<open>Paths\<close>

definition LogFileExternName :: "nat \<Rightarrow> byte list" where
  "LogFileExternName t = [ascii ''Key'', ascii ''Error'', ascii ''Warning'', ascii ''Info''] ! t"

text \<open>\<open>VerifyDirectory\<close> makes every directory on the way that is missing.\<close>

definition strip_slash :: "byte list \<Rightarrow> byte list" where
  "strip_slash p = (if p \<noteq> [] \<and> last p = 47 then butlast p else p)"

definition make_directory :: "byte list \<Rightarrow> log_host \<Rightarrow> log_host" where
  "make_directory parent h =
     (if strip_slash parent \<notin> set (lh_accessible h) \<and> lh_mkdir h parent
      then h\<lparr>lh_accessible := lh_accessible h @ [strip_slash parent]\<rparr> else h)"

definition VerifyDirectory :: "byte list \<Rightarrow> log_host \<Rightarrow> log_host" where
  "VerifyDirectory szDir h =
     fold (\<lambda>nIndex h. if nIndex = length szDir \<or> szDir ! nIndex = 47 then make_directory (take nIndex szDir) h else h)
       [1..<length szDir + 1] h"

text \<open>
  \<open>CreateLogPath\<close>: on Windows the path is taken as it is, and the system makes its directories. Elsewhere
  a slash is put at its end; the character before the end of an empty path is not in the array.
\<close>

definition slash_path :: "byte list \<Rightarrow> byte list res" where
  "slash_path path =
     rbind (c_string path) (\<lambda>p.
     if p = [] then Inl OutOfBounds
     else if last p \<noteq> 47
     then (if length p < MAX_STR_LEN - 1 then Inr (p @ [47]) else Inr (butlast p @ [47]))
     else Inr p)"

definition CreateLogPath :: "bool \<Rightarrow> WLog \<Rightarrow> WLog res" where
  "CreateLogPath win32 l =
     rbind (if win32 then c_string (wl_strLogPath l) else slash_path (wl_strLogPath l)) (\<lambda>p.
     Inr (l\<lparr>wl_strLogPath := p, wl_host := (if win32 then wl_host l else VerifyDirectory p (wl_host l))\<rparr>))"

section \<open>Initialisation\<close>

text \<open>The constructor sets the mask only; the lists are empty.\<close>

definition wlog_new :: "WLog \<Rightarrow> WLog" where
  "wlog_new stale = stale\<lparr>wl_nLogMask := 0, wl_listFreeContent := [], wl_listUsedContent := []\<rparr>"

text \<open>\<open>Init\<close>; \<open>stale\<close> is what the new slots hold.\<close>

definition Init ::
  "bool \<Rightarrow> (nat \<Rightarrow> SLogContent) \<Rightarrow> byte list \<Rightarrow> byte list \<Rightarrow> bool \<Rightarrow> int \<Rightarrow> WLog \<Rightarrow> WLog res" where
  "Init win32 stale strLogPath strLogName bUseWorkThread iContentCount l =
     (let l = l\<lparr>wl_bUseWorkThread := bUseWorkThread, wl_pFileStream := replicate ELT_Max None,
                wl_strCurLogName := replicate ELT_Max [], wl_strLogPath := c_copy strLogPath\<rparr>
      in
      rbind (CreateLogPath win32 l) (\<lambda>l.
      let count = nat (max (if bUseWorkThread then iContentCount else 1) 1);
          l = l\<lparr>wl_strLogName := c_copy strLogName, wl_astContent := map stale [0..<count],
                wl_listFreeContent := wl_listFreeContent l @ [0..<count]\<rparr>
      in Inr (if bUseWorkThread then l\<lparr>wl_bStopWorkThread := False\<rparr> else l)))"

section \<open>Writing\<close>

definition log_file_name :: "byte list \<Rightarrow> SLogContent \<Rightarrow> byte list" where
  "log_file_name name c = c_print MAX_STR_LEN
     (name @ [95] @ dec_pad 4 (unat (lc_wYear c)) @ dec_pad 2 (unat (lc_wMonth c)) @ dec_pad 2 (unat (lc_wDate c))
      @ [46] @ LogFileExternName (unat (lc_bType c)))"

text \<open>\<open>PrepareLogFile\<close>: the day's file for the type, opened if it is not the open one.\<close>

definition open_log_file :: "nat \<Rightarrow> byte list \<Rightarrow> WLog \<Rightarrow> WLog res" where
  "open_log_file t strFileName l =
     (let l = l\<lparr>wl_strCurLogName := (wl_strCurLogName l)[t := strFileName]\<rparr> in
      rbind (c_string (wl_strLogPath l)) (\<lambda>path.
      let full = path @ strFileName in
      if length full < MAX_STR_LEN
      then Inr (l\<lparr>wl_pFileStream := (wl_pFileStream l)[t := if lh_fopen (wl_host l) full then Some full else None]\<rparr>)
      else Inl OutOfBounds))"

definition PrepareLogFile :: "SLogContent \<Rightarrow> WLog \<Rightarrow> (bool \<times> WLog) res" where
  "PrepareLogFile c l =
     (let t = unat (lc_bType c) in
      if t \<ge> ELT_Max then Inr (False, l)
      else
        rbind (c_string (wl_strLogName l)) (\<lambda>name.
        let strFileName = log_file_name name c in
        rbind (if wl_strCurLogName l ! t \<noteq> strFileName \<or> wl_pFileStream l ! t = None
               then open_log_file t strFileName l else Inr l) (\<lambda>l.
        Inr (wl_pFileStream l ! t \<noteq> None, l))))"

definition append_line :: "byte list \<Rightarrow> byte list \<Rightarrow> log_host \<Rightarrow> log_host" where
  "append_line path line h = h\<lparr>lh_written := lh_written h @ [(path, line)]\<rparr>"

definition WriteImmediately :: "SLogContent \<Rightarrow> WLog \<Rightarrow> WLog res" where
  "WriteImmediately c l =
     rbind (PrepareLogFile c l) (\<lambda>(ok, l).
     if \<not> ok then Inr l
     else case wl_pFileStream l ! unat (lc_bType c) of None \<Rightarrow> Inl NullDeref
     | Some path \<Rightarrow> Inr (l\<lparr>wl_host := append_line path (lc_szContent c) (wl_host l)\<rparr>))"

section \<open>Slots\<close>

definition AllocFreeLogContent :: "WLog \<Rightarrow> nat option \<times> WLog" where
  "AllocFreeLogContent l =
     (if wl_bUseWorkThread l
      then (case wl_listFreeContent l of [] \<Rightarrow> (None, l)
            | i # free \<Rightarrow> (Some i, l\<lparr>wl_listFreeContent := free\<rparr>))
      else (Some 0, l))"

definition ReleaseFreeLogContent :: "nat \<Rightarrow> WLog \<Rightarrow> WLog" where
  "ReleaseFreeLogContent i l =
     (if wl_bUseWorkThread l then l\<lparr>wl_listFreeContent := wl_listFreeContent l @ [i]\<rparr> else l)"

text \<open>\<open>Trace\<close>, in the parts other threads can come between.\<close>

definition trace_enabled :: "byte \<Rightarrow> WLog \<Rightarrow> bool res" where
  "trace_enabled bType l = (if unat bType \<ge> ELT_Max then Inr False else PeekLogMask bType l)"

definition log_content :: "byte \<Rightarrow> log_time \<Rightarrow> byte list \<Rightarrow> SLogContent" where
  "log_content bType t text' =
     (let stamp = c_print MAX_STR_LEN
            (dec_pad 2 (lt_hour t) @ [58] @ dec_pad 2 (lt_min t) @ [58] @ dec_pad 2 (lt_sec t) @ [32])
      in \<lparr>lc_bType = bType, lc_wYear = of_nat (lt_year t), lc_wMonth = of_nat (lt_month t), lc_wDate = of_nat (lt_mday t),
          lc_szContent = stamp @ c_print (MAX_STR_LEN - length stamp) text'\<rparr>)"

definition fill_slot :: "nat \<Rightarrow> SLogContent \<Rightarrow> WLog \<Rightarrow> WLog" where
  "fill_slot i c l = l\<lparr>wl_astContent := (wl_astContent l)[i := c]\<rparr>"

definition queue_slot :: "nat \<Rightarrow> WLog \<Rightarrow> WLog" where
  "queue_slot i l = l\<lparr>wl_listUsedContent := wl_listUsedContent l @ [i]\<rparr>"

text \<open>The whole of it, run by one thread alone. A slot filled while stopping is not given back.\<close>

definition Trace :: "byte \<Rightarrow> log_time \<Rightarrow> byte list option \<Rightarrow> WLog \<Rightarrow> WLog res" where
  "Trace bType t strInfo l =
     (case strInfo of None \<Rightarrow> Inr l
      | Some text' \<Rightarrow>
        rbind (trace_enabled bType l) (\<lambda>on.
        if \<not> on then Inr l
        else case AllocFreeLogContent l of
          (None, l) \<Rightarrow> Inr l
        | (Some i, l) \<Rightarrow>
            let l = fill_slot i (log_content bType t text') l in
            if wl_bUseWorkThread l
            then Inr (if \<not> wl_bStopWorkThread l then queue_slot i l else l)
            else WriteImmediately (wl_astContent l ! i) l))"

text \<open>The destructor closes the files.\<close>

definition close_log :: "WLog \<Rightarrow> WLog" where
  "close_log l = l\<lparr>wl_astContent := [], wl_pFileStream := replicate ELT_Max None,
     wl_bStopWorkThread := (if wl_bUseWorkThread l then True else wl_bStopWorkThread l)\<rparr>"

section \<open>A well-formed log\<close>

text \<open>
  Strings end inside their arrays, there is a slot, there is one stream and one name per type, and an
  open stream is the one of the current name.
\<close>

definition stream_ok :: "WLog \<Rightarrow> nat \<Rightarrow> bool" where
  "stream_ok l t \<longleftrightarrow> (\<forall>p. wl_pFileStream l ! t = Some p \<longrightarrow>
     p = wl_strLogPath l @ wl_strCurLogName l ! t \<and> lh_fopen (wl_host l) p)"

definition log_ok :: "WLog \<Rightarrow> bool" where
  "log_ok l \<longleftrightarrow> length (wl_strLogPath l) < MAX_STR_LEN \<and> length (wl_strLogName l) < MAX_STR_LEN
     \<and> length (wl_pFileStream l) = ELT_Max \<and> length (wl_strCurLogName l) = ELT_Max
     \<and> wl_astContent l \<noteq> [] \<and> (\<forall>t < ELT_Max. stream_ok l t)"

text \<open>The file and the line a record goes to.\<close>

definition log_path :: "WLog \<Rightarrow> SLogContent \<Rightarrow> byte list" where
  "log_path l c = wl_strLogPath l @ log_file_name (wl_strLogName l) c"

definition same_files :: "WLog \<Rightarrow> WLog \<Rightarrow> bool" where
  "same_files l l' \<longleftrightarrow> wl_strLogPath l' = wl_strLogPath l \<and> wl_strLogName l' = wl_strLogName l
     \<and> lh_fopen (wl_host l') = lh_fopen (wl_host l)"

lemma same_files_refl [simp]: "same_files l l"
  by (simp add: same_files_def)

lemma same_files_path: "same_files l l' \<Longrightarrow> log_path l' c = log_path l c"
  by (simp add: same_files_def log_path_def)

text \<open>The queue and the slots are not touched by writing.\<close>

definition same_slots :: "WLog \<Rightarrow> WLog \<Rightarrow> bool" where
  "same_slots l l' \<longleftrightarrow> wl_astContent l' = wl_astContent l \<and> wl_listFreeContent l' = wl_listFreeContent l
     \<and> wl_listUsedContent l' = wl_listUsedContent l \<and> wl_bStopWorkThread l' = wl_bStopWorkThread l
     \<and> wl_bUseWorkThread l' = wl_bUseWorkThread l \<and> wl_nLogMask l' = wl_nLogMask l"

lemma same_slots_refl [simp]: "same_slots l l"
  by (simp add: same_slots_def)

lemma prepare_opens:
  assumes ok: "log_ok l" and t: "unat (lc_bType c) < ELT_Max" and short: "length (log_path l c) < MAX_STR_LEN"
  shows "\<exists>l'. PrepareLogFile c l = Inr (lh_fopen (wl_host l) (log_path l c), l') \<and> log_ok l' \<and> same_files l l' \<and> same_slots l l'
    \<and> wl_host l' = wl_host l
    \<and> (lh_fopen (wl_host l) (log_path l c) \<longrightarrow> wl_pFileStream l' ! unat (lc_bType c) = Some (log_path l c))"
proof -
  let ?t = "unat (lc_bType c)" and ?n = "log_file_name (wl_strLogName l) c"
  have s: "c_string (wl_strLogName l) = Inr (wl_strLogName l)" "c_string (wl_strLogPath l) = Inr (wl_strLogPath l)"
    using ok by (simp_all add: log_ok_def c_string_def)
  have len: "length (wl_pFileStream l) = ELT_Max" "length (wl_strCurLogName l) = ELT_Max" and st: "stream_ok l ?t"
    using ok t by (simp_all add: log_ok_def)
  show ?thesis
  proof (cases "wl_strCurLogName l ! ?t \<noteq> ?n \<or> wl_pFileStream l ! ?t = None")
    case True
    let ?l = "l\<lparr>wl_strCurLogName := (wl_strCurLogName l)[?t := ?n],
      wl_pFileStream := (wl_pFileStream l)[?t := if lh_fopen (wl_host l) (log_path l c) then Some (log_path l c) else None]\<rparr>"
    have open': "open_log_file ?t ?n l = Inr ?l"
      using s(2) short by (simp add: open_log_file_def Let_def log_path_def)
    have "stream_ok ?l t'" if "t' < ELT_Max" for t'
      using that ok t len by (cases "t' = ?t") (auto simp: stream_ok_def log_path_def log_ok_def nth_list_update split: if_splits)
    then have "log_ok ?l" using ok by (simp add: log_ok_def)
    then show ?thesis using open' True t s(1) len
      by (auto simp: PrepareLogFile_def Let_def same_files_def same_slots_def)
  next
    case False
    then obtain p where p: "wl_pFileStream l ! ?t = Some p" "wl_strCurLogName l ! ?t = ?n" by auto
    then have "p = log_path l c" "lh_fopen (wl_host l) p" using st by (auto simp: stream_ok_def log_path_def)
    then show ?thesis using False p t s(1) ok by (simp add: PrepareLogFile_def Let_def)
  qed
qed

lemma write_appends:
  assumes "log_ok l" "unat (lc_bType c) < ELT_Max" "length (log_path l c) < MAX_STR_LEN"
  shows "\<exists>l'. WriteImmediately c l = Inr l' \<and> log_ok l' \<and> same_files l l' \<and> same_slots l l'
    \<and> lh_written (wl_host l') = lh_written (wl_host l)
        @ (if lh_fopen (wl_host l) (log_path l c) then [(log_path l c, lc_szContent c)] else [])"
proof -
  obtain l' where l': "PrepareLogFile c l = Inr (lh_fopen (wl_host l) (log_path l c), l')" "log_ok l'" "same_files l l'"
      "same_slots l l'" "wl_host l' = wl_host l"
      "lh_fopen (wl_host l) (log_path l c) \<longrightarrow> wl_pFileStream l' ! unat (lc_bType c) = Some (log_path l c)"
    using prepare_opens [OF assms] by blast
  show ?thesis
  proof (cases "lh_fopen (wl_host l) (log_path l c)")
    case True
    let ?l = "l'\<lparr>wl_host := append_line (log_path l c) (lc_szContent c) (wl_host l')\<rparr>"
    have "log_ok ?l" using l'(2) by (simp add: log_ok_def stream_ok_def append_line_def)
    then show ?thesis using True l' by (simp add: WriteImmediately_def append_line_def same_files_def same_slots_def)
  next
    case False
    then show ?thesis using l' by (simp add: WriteImmediately_def)
  qed
qed

section \<open>Masks, bit by bit\<close>

lemma and_push_bit_nonzero: "(m :: u32) AND push_bit n 1 \<noteq> 0 \<longleftrightarrow> bit m n"
proof
  assume "m AND push_bit n 1 \<noteq> 0"
  then obtain k where "bit (m AND push_bit n 1) k" by (metis bit_eqI bit_0_eq bot_apply bot_bool_def)
  then show "bit m n" by (auto simp: bit_simps)
next
  assume "bit m n"
  then have "bit (m AND push_bit n 1) n" using bit_imp_le_length [of m n] by (simp add: bit_simps)
  then show "m AND push_bit n 1 \<noteq> 0" by auto
qed

lemma peek_bit: "unat b < 32 \<Longrightarrow> PeekLogMask b l = Inr (bit (wl_nLogMask l) (unat b))"
  by (simp add: PeekLogMask_def log_bit_def and_push_bit_nonzero del: push_bit_of_1)

section \<open>A run of the logger by one thread\<close>

datatype log_op =
    LogAppend byte
  | LogRemove byte
  | LogTrace byte log_time "byte list option"

fun run_log_op :: "log_op \<Rightarrow> WLog \<Rightarrow> WLog res" where
  "run_log_op (LogAppend b) l = AppendLogMask b l"
| "run_log_op (LogRemove b) l = RemoveLogMask b l"
| "run_log_op (LogTrace b t s) l = Trace b t s l"

lemma log_ok_open: "log_ok l \<Longrightarrow> t < ELT_Max \<Longrightarrow> yields (open_log_file t n l) log_ok"
proof -
  assume ok: "log_ok l" and t: "t < ELT_Max"
  then have len: "length (wl_pFileStream l) = ELT_Max" "length (wl_strCurLogName l) = ELT_Max"
    and path: "c_string (wl_strLogPath l) = Inr (wl_strLogPath l)" by (simp_all add: log_ok_def c_string_def)
  let ?l = "l\<lparr>wl_strCurLogName := (wl_strCurLogName l)[t := n], wl_pFileStream := (wl_pFileStream l)[t :=
    if lh_fopen (wl_host l) (wl_strLogPath l @ n) then Some (wl_strLogPath l @ n) else None]\<rparr>"
  have "stream_ok ?l t'" if "t' < ELT_Max" for t'
    using that ok t len by (cases "t' = t") (auto simp: stream_ok_def log_ok_def nth_list_update split: if_splits)
  then have "log_ok ?l" using ok by (simp add: log_ok_def)
  then show ?thesis using path by (simp add: open_log_file_def Let_def)
qed

lemma log_ok_prepare: "log_ok l \<Longrightarrow> yields (PrepareLogFile c l) (\<lambda>(b, l'). log_ok l')"
  unfolding PrepareLogFile_def Let_def
  by (rule yields_if, simp, rule yields_bind [OF yields_True], rule yields_bind [where Q = log_ok])
    (auto intro!: log_ok_open)

lemma log_ok_write: "log_ok l \<Longrightarrow> yields (WriteImmediately c l) log_ok"
  unfolding WriteImmediately_def
  by (rule yields_bind_pair [OF log_ok_prepare], assumption)
    (auto simp: log_ok_def stream_ok_def append_line_def split: option.split)

lemma log_ok_other [simp]:
  "log_ok (l\<lparr>wl_nLogMask := m\<rparr>) \<longleftrightarrow> log_ok l" "log_ok (l\<lparr>wl_listFreeContent := f\<rparr>) \<longleftrightarrow> log_ok l"
  "log_ok (queue_slot i l) \<longleftrightarrow> log_ok l" "log_ok (fill_slot i c l) \<longleftrightarrow> log_ok l"
  by (simp_all add: log_ok_def stream_ok_def queue_slot_def fill_slot_def)

lemma log_ok_op: "log_ok l \<Longrightarrow> yields (run_log_op op l) log_ok"
proof (cases op)
  case (LogTrace b t s)
  assume ok: "log_ok l"
  have alloc: "log_ok l'" if "AllocFreeLogContent l = (i, l')" for i l'
    using that ok by (auto simp: AllocFreeLogContent_def split: if_splits list.splits)
  show ?thesis unfolding LogTrace run_log_op.simps Trace_def Let_def
    by (rule yields_option, simp add: ok, rule yields_bind [OF yields_True], rule yields_if, simp add: ok)
      (auto dest: alloc intro!: log_ok_write split: prod.split option.split)
qed (auto simp: AppendLogMask_def RemoveLogMask_def yields_def rbind_eq_Inr)

lemma log_ok_run: "log_ok l \<Longrightarrow> yields (rfold run_log_op ops l) log_ok"
proof (induction ops arbitrary: l)
  case (Cons op ops)
  show ?case unfolding rfold.simps by (rule yields_bind [OF log_ok_op [OF Cons.prems] Cons.IH])
qed simp

lemma log_ok_path: "yields (CreateLogPath win32 l) (\<lambda>l'. length (wl_strLogPath l') < MAX_STR_LEN
    \<and> wl_pFileStream l' = wl_pFileStream l \<and> wl_strCurLogName l' = wl_strCurLogName l)"
  by (auto simp: CreateLogPath_def slash_path_def c_string_def yields_def rbind_eq_Inr split: if_splits)

lemma log_ok_init:
  assumes "length name < MAX_STR_LEN"
  shows "yields (Init win32 stale path name thr count l) log_ok"
  unfolding Init_def Let_def
  by (rule yields_bind [OF log_ok_path])
    (use assms in \<open>auto simp: log_ok_def stream_ok_def c_copy_def\<close>)

section \<open>Properties\<close>


text \<open>Without a worker thread, a record whose type is switched on is written before the call returns:
  one line, with the time in front, appended to the file of its type and day, if that can be
  opened; a record that is switched off or of no type leaves the log as it was.\<close>

theorem trace_writes_one_line:
  assumes "log_ok l" "\<not> wl_bUseWorkThread l" "length (log_path l (log_content b t text')) < MAX_STR_LEN"
  shows "if unat b < ELT_Max \<and> bit (wl_nLogMask l) (unat b)
    then \<exists>l'. Trace b t (Some text') l = Inr l' \<and> log_ok l'
      \<and> lh_written (wl_host l') = lh_written (wl_host l)
          @ (if lh_fopen (wl_host l) (log_path l (log_content b t text'))
             then [(log_path l (log_content b t text'), lc_szContent (log_content b t text'))] else [])
    else Trace b t (Some text') l = Inr l"
proof (cases "unat b < ELT_Max \<and> bit (wl_nLogMask l) (unat b)")
  case True
  let ?c = "log_content b t text'" and ?l = "fill_slot 0 (log_content b t text') l"
  have ok: "log_ok ?l" using assms(1) by simp
  have path: "log_path ?l ?c = log_path l ?c" "wl_host ?l = wl_host l"
    by (simp_all add: log_path_def fill_slot_def)
  have "unat (lc_bType ?c) < ELT_Max" using True by (simp add: log_content_def Let_def)
  moreover have "length (log_path ?l ?c) < MAX_STR_LEN" using assms(3) path by simp
  ultimately obtain l' where l': "WriteImmediately ?c ?l = Inr l'" "log_ok l'"
      "lh_written (wl_host l') = lh_written (wl_host ?l)
        @ (if lh_fopen (wl_host ?l) (log_path ?l ?c) then [(log_path ?l ?c, lc_szContent ?c)] else [])"
    using write_appends [OF ok] by blast
  have on: "trace_enabled b l = Inr True" using True by (simp add: trace_enabled_def peek_bit)
  have slot: "wl_astContent ?l ! 0 = ?c" using assms(1) by (simp add: fill_slot_def log_ok_def)
  have "Trace b t (Some text') l = WriteImmediately ?c ?l"
    using on slot assms(2) by (simp add: Trace_def AllocFreeLogContent_def fill_slot_def)
  then show ?thesis using True l' path by simp
next
  case False
  then have "trace_enabled b l = Inr False" by (auto simp: trace_enabled_def peek_bit)
  then show ?thesis unfolding if_not_P [OF False] by (simp add: Trace_def)
qed

definition sample_host :: log_host where
  "sample_host = \<lparr>lh_accessible = [], lh_mkdir = (\<lambda>_. True), lh_fopen = (\<lambda>_. True), lh_written = []\<rparr>"

definition sample_log :: WLog where
  "sample_log = \<lparr>wl_pFileStream = replicate 4 None, wl_nLogMask = 2, wl_strLogPath = [97, 47], wl_strLogName = [98],
     wl_strCurLogName = replicate 4 [], wl_bUseWorkThread = False,
     wl_astContent = [\<lparr>lc_bType = 0, lc_wYear = 0, lc_wMonth = 0, lc_wDate = 0, lc_szContent = []\<rparr>],
     wl_bStopWorkThread = False, wl_listFreeContent = [0], wl_listUsedContent = [], wl_host = sample_host\<rparr>"

definition sample_time :: log_time where
  "sample_time = \<lparr>lt_year = 2020, lt_month = 1, lt_mday = 2, lt_hour = 3, lt_min = 4, lt_sec = 5\<rparr>"


lemma sample_log_name: "length (log_path sample_log (log_content b t text')) < MAX_STR_LEN \<longleftrightarrow>
    length (log_file_name [98] (log_content b t text')) < 510"
  by (auto simp: log_path_def sample_log_def)

lemma trace_writes_one_line_witness:
  "\<exists>l' path line. Trace 1 sample_time (Some [104, 105]) sample_log = Inr l' \<and> lh_written (wl_host l') = [(path, line)]"
proof -
  have d: "dec_digits 2020 = [50, 48, 50, 48]" "dec_digits (Suc 0) = [49]" "dec_digits 2 = [50]"
    by (simp_all add: dec_digits.simps)
  have "length (log_file_name [98] (log_content 1 sample_time [104, 105])) = 16"
    by (simp add: log_file_name_def log_content_def sample_time_def c_print_def dec_pad_def d LogFileExternName_def ascii_def)
  then have "length (log_path sample_log (log_content 1 sample_time [104, 105])) < MAX_STR_LEN"
    unfolding sample_log_name by simp
  moreover have "log_ok sample_log" "\<not> wl_bUseWorkThread sample_log" "lh_written (wl_host sample_log) = []"
    "\<And>p. lh_fopen (wl_host sample_log) p" "bit (wl_nLogMask sample_log) (unat (1 :: byte))"
    by (simp_all add: sample_log_def log_ok_def stream_ok_def less_Suc_eq numeral_eq_Suc sample_host_def bit_simps)
  ultimately show ?thesis using trace_writes_one_line [of sample_log 1 sample_time "[104, 105]"] by auto
qed

end
