(* ===== verification/Log_Threads.thy ===== *)
theory Log_Threads
  imports Log_Writer
begin

text \<open>
  The log with a worker thread: \<open>Trace\<close> queues filled slots, \<open>LogWriteHandler\<close> writes them and gives
  them back, \<open>StopWorkThead\<close> makes it write what is left and end. Callers are serialised by the
  critical section of \<open>Trace\<close>, so one call at most is under way; between its parts the worker
  runs. While it writes what is left, the worker keeps the lock of the queue.
\<close>

section \<open>The two threads\<close>

datatype log_caller = NoCall | Filled nat | Accepted nat

datatype log_worker =
    AtLoop
  | Taking
  | Writing nat
  | Releasing nat
  | Draining
  | DrainWriting nat
  | DrainReleasing nat
  | Ended

record log_threads =
  lg_log :: WLog
  lg_caller :: log_caller
  lg_worker :: log_worker

datatype log_event =
    CallTrace byte log_time "byte list"
  | CallCheck
  | CallPush
  | WorkerGo
  | StopWork

definition set_log :: "(WLog \<Rightarrow> WLog) \<Rightarrow> log_worker \<Rightarrow> log_threads \<Rightarrow> log_threads" where
  "set_log f p s = s\<lparr>lg_log := f (lg_log s), lg_worker := p\<rparr>"

text \<open>Taking the first slot off the queue, and writing a slot.\<close>

definition take_used :: "(nat \<Rightarrow> log_worker) \<Rightarrow> log_worker \<Rightarrow> log_threads \<Rightarrow> log_threads" where
  "take_used hold none s =
     (case wl_listUsedContent (lg_log s) of [] \<Rightarrow> s\<lparr>lg_worker := none\<rparr>
      | i # used \<Rightarrow> set_log (\<lambda>l. l\<lparr>wl_listUsedContent := used\<rparr>) (hold i) s)"

definition write_slot :: "nat \<Rightarrow> log_worker \<Rightarrow> log_threads \<Rightarrow> log_threads option" where
  "write_slot i p s =
     (case WriteImmediately (wl_astContent (lg_log s) ! i) (lg_log s) of Inl e \<Rightarrow> None
      | Inr l \<Rightarrow> Some (s\<lparr>lg_log := l, lg_worker := p\<rparr>))"

text \<open>\<open>LogWriteHandler\<close>, one part after the other.\<close>

definition LogWriteHandler :: "log_threads \<Rightarrow> log_threads option" where
  "LogWriteHandler s =
     (case lg_worker s of
        AtLoop \<Rightarrow> Some (s\<lparr>lg_worker := if wl_bStopWorkThread (lg_log s) then Draining else Taking\<rparr>)
      | Taking \<Rightarrow> Some (take_used Writing AtLoop s)
      | Writing i \<Rightarrow> write_slot i (Releasing i) s
      | Releasing i \<Rightarrow> Some (set_log (ReleaseFreeLogContent i) AtLoop s)
      | Draining \<Rightarrow> Some (take_used DrainWriting Ended s)
      | DrainWriting i \<Rightarrow> write_slot i (DrainReleasing i) s
      | DrainReleasing i \<Rightarrow> Some (set_log (ReleaseFreeLogContent i) Draining s)
      | Ended \<Rightarrow> None)"

definition queue_locked :: "log_worker \<Rightarrow> bool" where
  "queue_locked p \<longleftrightarrow> (case p of Draining \<Rightarrow> True | DrainWriting i \<Rightarrow> True | DrainReleasing i \<Rightarrow> True | _ \<Rightarrow> False)"

text \<open>The parts of \<open>Trace\<close>: take and fill a slot, look at the stop flag, queue the slot.\<close>

definition trace_begin :: "byte \<Rightarrow> log_time \<Rightarrow> byte list \<Rightarrow> log_threads \<Rightarrow> log_threads option" where
  "trace_begin b t text' s =
     (if lg_caller s \<noteq> NoCall \<or> trace_enabled b (lg_log s) \<noteq> Inr True then None
      else case AllocFreeLogContent (lg_log s) of (None, l) \<Rightarrow> Some s
      | (Some i, l) \<Rightarrow> Some (s\<lparr>lg_log := fill_slot i (log_content b t text') l, lg_caller := Filled i\<rparr>))"

definition trace_check :: "log_threads \<Rightarrow> log_threads option" where
  "trace_check s =
     (case lg_caller s of Filled i \<Rightarrow>
        Some (s\<lparr>lg_caller := if wl_bStopWorkThread (lg_log s) then NoCall else Accepted i\<rparr>)
      | _ \<Rightarrow> None)"

definition trace_push :: "log_threads \<Rightarrow> log_threads option" where
  "trace_push s =
     (case lg_caller s of Accepted i \<Rightarrow>
        if queue_locked (lg_worker s) then None
        else Some (s\<lparr>lg_log := queue_slot i (lg_log s), lg_caller := NoCall\<rparr>)
      | _ \<Rightarrow> None)"

definition StopWorkThead :: "WLog \<Rightarrow> WLog" where
  "StopWorkThead l = (if wl_bUseWorkThread l then l\<lparr>wl_bStopWorkThread := True\<rparr> else l)"

fun log_move :: "log_event \<Rightarrow> log_threads \<Rightarrow> log_threads option" where
  "log_move (CallTrace b t text') s = trace_begin b t text' s"
| "log_move CallCheck s = trace_check s"
| "log_move CallPush s = trace_push s"
| "log_move WorkerGo s = LogWriteHandler s"
| "log_move StopWork s = Some (s\<lparr>lg_log := StopWorkThead (lg_log s)\<rparr>)"

definition log_started :: "WLog \<Rightarrow> log_threads" where
  "log_started l = \<lparr>lg_log = l, lg_caller = NoCall, lg_worker = AtLoop\<rparr>"

text \<open>A new log, initialised with a name that fits, some types switched on, and running.\<close>

inductive log_reachable :: "log_threads \<Rightarrow> bool" where
  log_reach_start: "length name < MAX_STR_LEN \<Longrightarrow> Init win32 stale path name True count (wlog_new l) = Inr l1 \<Longrightarrow>
     log_reachable (log_started (l1\<lparr>wl_nLogMask := m\<rparr>))"
| log_reach_step: "log_reachable s \<Longrightarrow> log_move e s = Some s' \<Longrightarrow> log_reachable s'"

section \<open>Slots\<close>

fun caller_slots :: "log_caller \<Rightarrow> nat list" where
  "caller_slots NoCall = []"
| "caller_slots (Filled i) = [i]"
| "caller_slots (Accepted i) = [i]"

fun writing_slots :: "log_worker \<Rightarrow> nat list" where
  "writing_slots (Writing i) = [i]"
| "writing_slots (DrainWriting i) = [i]"
| "writing_slots _ = []"

fun releasing_slots :: "log_worker \<Rightarrow> nat list" where
  "releasing_slots (Releasing i) = [i]"
| "releasing_slots (DrainReleasing i) = [i]"
| "releasing_slots _ = []"

definition log_slots :: "log_threads \<Rightarrow> nat list" where
  "log_slots s = wl_listFreeContent (lg_log s) @ caller_slots (lg_caller s) @ writing_slots (lg_worker s)
     @ wl_listUsedContent (lg_log s) @ releasing_slots (lg_worker s)"

definition live_slots :: "log_threads \<Rightarrow> nat list" where
  "live_slots s = caller_slots (lg_caller s) @ writing_slots (lg_worker s) @ wl_listUsedContent (lg_log s)"

definition typed_slots :: "log_threads \<Rightarrow> bool" where
  "typed_slots s \<longleftrightarrow> (\<forall>i \<in> set (live_slots s). unat (lc_bType (wl_astContent (lg_log s) ! i)) < ELT_Max)"

definition slots_inv :: "log_threads \<Rightarrow> bool" where
  "slots_inv s \<longleftrightarrow> log_ok (lg_log s) \<and> wl_bUseWorkThread (lg_log s) \<and> distinct (log_slots s)
     \<and> set (log_slots s) \<subseteq> {0..<length (wl_astContent (lg_log s))}
     \<and> (\<not> wl_bStopWorkThread (lg_log s) \<longrightarrow> set (log_slots s) = {0..<length (wl_astContent (lg_log s))})
     \<and> typed_slots s"

lemmas slots_defs = slots_inv_def log_slots_def live_slots_def typed_slots_def

lemma slots_start:
  assumes "length name < MAX_STR_LEN" "Init win32 stale path name True count (wlog_new l) = Inr l1"
  shows "slots_inv (log_started (l1\<lparr>wl_nLogMask := m\<rparr>))"
proof -
  have "log_ok l1" using assms(2) log_ok_init [OF assms(1)] by (rule yieldsD)
  moreover have "wl_bUseWorkThread l1 \<and> wl_listUsedContent l1 = []
      \<and> wl_listFreeContent l1 = [0..<length (wl_astContent l1)]"
    using assms(2) by (auto simp: Init_def Let_def rbind_eq_Inr CreateLogPath_def wlog_new_def)
  ultimately show ?thesis by (simp add: slots_defs log_started_def)
qed

lemma slots_trace_begin:
  assumes "slots_inv s" "trace_begin b t text' s = Some s'"
  shows "slots_inv s'"
proof (cases "s' = s")
  case False
  then obtain i free where i: "wl_listFreeContent (lg_log s) = i # free" "lg_caller s = NoCall" "trace_enabled b (lg_log s) = Inr True"
      "s' = s\<lparr>lg_log := fill_slot i (log_content b t text') (lg_log s\<lparr>wl_listFreeContent := free\<rparr>), lg_caller := Filled i\<rparr>"
    using assms by (auto simp: trace_begin_def AllocFreeLogContent_def slots_inv_def split: if_splits list.splits)
  have ty: "unat (lc_bType (log_content b t text')) < ELT_Max"
    using i(3) by (auto simp: trace_enabled_def log_content_def Let_def split: if_splits)
  have fresh: "i \<notin> set (writing_slots (lg_worker s) @ wl_listUsedContent (lg_log s))"
    and len: "i < length (wl_astContent (lg_log s))"
    using assms(1) i by (auto simp: slots_inv_def log_slots_def)
  have "typed_slots s'"
    using assms(1) i fresh len ty
    by (auto simp: slots_inv_def typed_slots_def live_slots_def fill_slot_def nth_list_update)
  moreover have "log_ok (lg_log s')" using assms(1) i(4) by (simp add: slots_inv_def)
  moreover have "set (log_slots s') = set (log_slots s)" "distinct (log_slots s') \<longleftrightarrow> distinct (log_slots s)"
    using i by (auto simp: log_slots_def fill_slot_def)
  ultimately show ?thesis using assms(1) i(4) by (simp add: slots_inv_def fill_slot_def)
qed (use assms in simp)

text \<open>A step that only moves slots around keeps the invariant.\<close>

lemma slots_keep:
  assumes "slots_inv s" "log_ok (lg_log s')" "wl_bUseWorkThread (lg_log s') \<longleftrightarrow> wl_bUseWorkThread (lg_log s)"
    and "wl_astContent (lg_log s') = wl_astContent (lg_log s)"
    and "distinct (log_slots s) \<Longrightarrow> distinct (log_slots s')" "set (log_slots s') \<subseteq> set (log_slots s)"
    and "\<not> wl_bStopWorkThread (lg_log s') \<Longrightarrow> \<not> wl_bStopWorkThread (lg_log s) \<and> set (log_slots s) \<subseteq> set (log_slots s')"
    and "set (live_slots s') \<subseteq> set (live_slots s)"
  shows "slots_inv s'"
  using assms unfolding slots_inv_def typed_slots_def by (metis subset_antisym subset_iff subset_trans)

lemma slots_ok: "slots_inv s \<Longrightarrow> log_ok (lg_log s)"
  by (simp add: slots_inv_def)

lemma slots_trace_check:
  assumes "slots_inv s" "trace_check s = Some s'"
  shows "slots_inv s'"
proof -
  obtain i where i: "lg_caller s = Filled i"
      "s' = s\<lparr>lg_caller := if wl_bStopWorkThread (lg_log s) then NoCall else Accepted i\<rparr>"
    using assms(2) by (auto simp: trace_check_def split: log_caller.splits)
  show ?thesis
    by (rule slots_keep [OF assms(1)]) (use i slots_ok [OF assms(1)] in \<open>auto simp: log_slots_def live_slots_def\<close>)
qed

lemma slots_trace_push:
  assumes "slots_inv s" "trace_push s = Some s'"
  shows "slots_inv s'"
proof -
  obtain i where i: "lg_caller s = Accepted i" "s' = s\<lparr>lg_log := queue_slot i (lg_log s), lg_caller := NoCall\<rparr>"
    using assms(2) by (auto simp: trace_push_def split: log_caller.splits if_splits)
  have "log_ok (lg_log s')" using slots_ok [OF assms(1)] i(2) by simp
  then show ?thesis
    by (rule slots_keep [OF assms(1)]) (use i in \<open>auto simp: log_slots_def live_slots_def queue_slot_def\<close>)
qed

lemma same_slots_open: "yields (open_log_file t n l) (same_slots l)"
  by (auto simp: open_log_file_def Let_def yields_def rbind_eq_Inr same_slots_def split: if_splits)

lemma same_slots_write: "yields (WriteImmediately c l) (same_slots l)"
proof -
  have prep: "yields (PrepareLogFile c l) (\<lambda>(ok, l'). same_slots l l')"
    unfolding PrepareLogFile_def Let_def
    by (rule yields_if, simp, rule yields_bind [OF yields_True], rule yields_bind [where Q = "same_slots l"])
      (auto intro: same_slots_open)
  show ?thesis unfolding WriteImmediately_def
    by (rule yields_bind_pair [OF prep]) (auto simp: same_slots_def split: option.split)
qed

lemma slots_write_slot:
  assumes "slots_inv s" "write_slot i p s = Some s'" "writing_slots (lg_worker s) = [i]" "releasing_slots p = [i]"
    "writing_slots p = []" "releasing_slots (lg_worker s) = []"
  shows "slots_inv s'"
proof -
  let ?c = "wl_astContent (lg_log s) ! i"
  obtain l where l: "WriteImmediately ?c (lg_log s) = Inr l" "s' = s\<lparr>lg_log := l, lg_worker := p\<rparr>"
    using assms(2) by (auto simp: write_slot_def split: sum.splits)
  have same: "same_slots (lg_log s) l" using l(1) same_slots_write by (rule yieldsD)
  have "log_ok l" using l(1) log_ok_write [of "lg_log s"] assms(1) by (auto simp: slots_inv_def dest: yieldsD)
  then have "log_ok (lg_log s')" using l(2) by simp
  then show ?thesis
    by (rule slots_keep [OF assms(1)]) (use assms(3-) l(2) same in \<open>auto simp: log_slots_def live_slots_def same_slots_def\<close>)
qed

lemma slots_take_used:
  assumes "slots_inv s" "writing_slots (lg_worker s) = []" "releasing_slots (lg_worker s) = []"
    and "\<And>i. writing_slots (hold i) = [i] \<and> releasing_slots (hold i) = []" "writing_slots none = []" "releasing_slots none = []"
  shows "slots_inv (take_used hold none s)"
proof -
  have "log_ok (lg_log (take_used hold none s))"
    using slots_ok [OF assms(1)] by (auto simp: take_used_def set_log_def log_ok_def stream_ok_def split: list.split)
  then show ?thesis
    by (rule slots_keep [OF assms(1)])
      (use assms(2-) in \<open>auto simp: take_used_def set_log_def log_slots_def live_slots_def split: list.splits\<close>)
qed

lemma slots_release:
  assumes "slots_inv s" "releasing_slots (lg_worker s) = [i]" "writing_slots (lg_worker s) = []"
    "writing_slots p = []" "releasing_slots p = []"
  shows "slots_inv (set_log (ReleaseFreeLogContent i) p s)"
proof -
  have use: "wl_bUseWorkThread (lg_log s)" using assms(1) by (simp add: slots_inv_def)
  then have "log_ok (lg_log (set_log (ReleaseFreeLogContent i) p s))"
    using slots_ok [OF assms(1)] by (simp add: set_log_def ReleaseFreeLogContent_def)
  then show ?thesis
    by (rule slots_keep [OF assms(1)])
      (use assms(2-) use in \<open>auto simp: ReleaseFreeLogContent_def log_slots_def live_slots_def set_log_def\<close>)
qed

lemma slots_look:
  assumes "slots_inv s" "lg_worker s = AtLoop" "writing_slots p = []" "releasing_slots p = []"
  shows "slots_inv (s\<lparr>lg_worker := p\<rparr>)"
  by (rule slots_keep [OF assms(1)])
    (use assms(2-) slots_ok [OF assms(1)] in \<open>auto simp: log_slots_def live_slots_def\<close>)

lemma slots_worker: "slots_inv s \<Longrightarrow> LogWriteHandler s = Some s' \<Longrightarrow> slots_inv s'"
proof (cases "lg_worker s")
  case AtLoop
  assume "slots_inv s" "LogWriteHandler s = Some s'"
  then show ?thesis using AtLoop slots_look by (auto simp: LogWriteHandler_def)
next
  case Taking
  assume "slots_inv s" "LogWriteHandler s = Some s'"
  then show ?thesis using Taking by (auto simp: LogWriteHandler_def intro: slots_take_used)
next
  case (Writing i)
  assume "slots_inv s" "LogWriteHandler s = Some s'"
  then show ?thesis using Writing by (auto simp: LogWriteHandler_def intro: slots_write_slot)
next
  case (Releasing i)
  assume "slots_inv s" "LogWriteHandler s = Some s'"
  then show ?thesis using Releasing by (auto simp: LogWriteHandler_def intro: slots_release)
next
  case Draining
  assume "slots_inv s" "LogWriteHandler s = Some s'"
  then show ?thesis using Draining by (auto simp: LogWriteHandler_def intro: slots_take_used)
next
  case (DrainWriting i)
  assume "slots_inv s" "LogWriteHandler s = Some s'"
  then show ?thesis using DrainWriting by (auto simp: LogWriteHandler_def intro: slots_write_slot)
next
  case (DrainReleasing i)
  assume "slots_inv s" "LogWriteHandler s = Some s'"
  then show ?thesis using DrainReleasing by (auto simp: LogWriteHandler_def intro: slots_release)
qed (simp add: LogWriteHandler_def)

lemma slots_stop:
  assumes "slots_inv s"
  shows "slots_inv (s\<lparr>lg_log := StopWorkThead (lg_log s)\<rparr>)"
proof -
  have "log_ok (StopWorkThead (lg_log s))"
    using slots_ok [OF assms] by (simp add: StopWorkThead_def log_ok_def stream_ok_def)
  then show ?thesis
    by (intro slots_keep [OF assms]) (auto simp: StopWorkThead_def log_slots_def live_slots_def split: if_splits)
qed

lemma slots_step:
  assumes "slots_inv s" "log_move e s = Some s'"
  shows "slots_inv s'"
proof (cases e)
  case (CallTrace b t x)
  show ?thesis by (rule slots_trace_begin [OF assms(1)]) (use assms(2) CallTrace in simp)
next
  case CallCheck
  show ?thesis by (rule slots_trace_check [OF assms(1)]) (use assms(2) CallCheck in simp)
next
  case CallPush
  show ?thesis by (rule slots_trace_push [OF assms(1)]) (use assms(2) CallPush in simp)
next
  case WorkerGo
  show ?thesis by (rule slots_worker [OF assms(1)]) (use assms(2) WorkerGo in simp)
next
  case StopWork
  then show ?thesis using assms slots_stop by auto
qed

lemma slots_reachable: "log_reachable s \<Longrightarrow> slots_inv s"
  by (induction rule: log_reachable.induct) (erule (1) slots_start, erule (1) slots_step)

section \<open>The queue\<close>

text \<open>Every file name fits and every file can be opened.\<close>

definition files_fit :: "WLog \<Rightarrow> bool" where
  "files_fit l \<longleftrightarrow> (\<forall>c. unat (lc_bType c) < ELT_Max \<longrightarrow>
     length (log_path l c) < MAX_STR_LEN \<and> lh_fopen (wl_host l) (log_path l c))"

text \<open>What was written, then what is about to be: the slot in the worker's hand and the queue.\<close>

definition log_line :: "WLog \<Rightarrow> nat \<Rightarrow> byte list \<times> byte list" where
  "log_line l i = (log_path l (wl_astContent l ! i), lc_szContent (wl_astContent l ! i))"

definition log_history :: "log_threads \<Rightarrow> (byte list \<times> byte list) list" where
  "log_history s = lh_written (wl_host (lg_log s))
     @ map (log_line (lg_log s)) (writing_slots (lg_worker s) @ wl_listUsedContent (lg_log s))"

fun accepted_line :: "log_event \<Rightarrow> log_threads \<Rightarrow> (byte list \<times> byte list) list" where
  "accepted_line CallPush s = map (log_line (lg_log s)) (caller_slots (lg_caller s))"
| "accepted_line _ s = []"

lemma files_fit_same: "same_files l l' \<Longrightarrow> files_fit l' \<longleftrightarrow> files_fit l"
  by (simp add: files_fit_def same_files_path) (simp add: same_files_def)

text \<open>A write appends the line of the slot and leaves the other slots alone.\<close>

lemma write_slot_history:
  assumes inv: "slots_inv s" and fit: "files_fit (lg_log s)" and w: "writing_slots (lg_worker s) = [i]" "writing_slots p = []"
  shows "\<exists>s'. write_slot i p s = Some s' \<and> lg_worker s' = p \<and> lg_caller s' = lg_caller s \<and> log_history s' = log_history s
    \<and> files_fit (lg_log s') \<and> same_slots (lg_log s) (lg_log s')"
proof -
  let ?c = "wl_astContent (lg_log s) ! i"
  have ok: "log_ok (lg_log s)" and ty: "unat (lc_bType ?c) < ELT_Max"
    using inv w(1) by (auto simp: slots_defs)
  have fit': "length (log_path (lg_log s) ?c) < MAX_STR_LEN" "lh_fopen (wl_host (lg_log s)) (log_path (lg_log s) ?c)"
    using fit ty by (simp_all add: files_fit_def)
  obtain l where l: "WriteImmediately ?c (lg_log s) = Inr l" "same_files (lg_log s) l" "same_slots (lg_log s) l"
      "lh_written (wl_host l) = lh_written (wl_host (lg_log s)) @ [(log_path (lg_log s) ?c, lc_szContent ?c)]"
    using write_appends [OF ok ty fit'(1)] fit'(2) by auto
  have line: "log_line l = log_line (lg_log s)"
    using l(2,3) same_files_path by (auto simp: log_line_def same_slots_def fun_eq_iff)
  have "log_history (s\<lparr>lg_log := l, lg_worker := p\<rparr>) = log_history s"
    using l(3,4) line w by (simp add: log_history_def log_line_def same_slots_def)
  with l files_fit_same [OF l(2)] fit show ?thesis by (simp add: write_slot_def)
qed

lemma worker_history:
  assumes "slots_inv s" "files_fit (lg_log s)" "LogWriteHandler s = Some s'"
  shows "log_history s' = log_history s \<and> files_fit (lg_log s') \<and> lg_caller s' = lg_caller s"
proof -
  have used: "log_history (take_used hold none s) = log_history s \<and> files_fit (lg_log (take_used hold none s)) \<and> lg_caller (take_used hold none s) = lg_caller s"
    if "writing_slots (lg_worker s) = []" "\<And>i. writing_slots (hold i) = [i]" "writing_slots none = []" for hold none
    using that assms(2)
    by (auto simp: take_used_def set_log_def log_history_def log_line_def log_path_def files_fit_def split: list.split)
  have rel: "log_history (set_log (ReleaseFreeLogContent i) p s) = log_history s
      \<and> files_fit (lg_log (set_log (ReleaseFreeLogContent i) p s)) \<and> lg_caller (set_log (ReleaseFreeLogContent i) p s) = lg_caller s"
    if "writing_slots (lg_worker s) = []" "writing_slots p = []" for i p
    using that assms(2)
    by (auto simp: ReleaseFreeLogContent_def set_log_def log_history_def log_line_def log_path_def files_fit_def)
  have wr: "log_history s' = log_history s \<and> files_fit (lg_log s') \<and> lg_caller s' = lg_caller s"
    if "writing_slots (lg_worker s) = [i]" "writing_slots p = []" "write_slot i p s = Some s'" for i p
    using write_slot_history [OF assms(1,2) that(1,2)] that(3) by auto
  show ?thesis
  proof (cases "lg_worker s")
    case AtLoop
    then show ?thesis using assms(2,3) by (auto simp: LogWriteHandler_def log_history_def)
  next
    case Taking
    then show ?thesis using assms(3) used [of Writing AtLoop] by (auto simp: LogWriteHandler_def)
  next
    case (Writing i)
    then show ?thesis using assms(3) wr [of i "Releasing i"] by (auto simp: LogWriteHandler_def)
  next
    case (Releasing i)
    then show ?thesis using assms(3) rel [of AtLoop i] by (auto simp: LogWriteHandler_def)
  next
    case Draining
    then show ?thesis using assms(3) used [of DrainWriting Ended] by (auto simp: LogWriteHandler_def)
  next
    case (DrainWriting i)
    then show ?thesis using assms(3) wr [of i "DrainReleasing i"] by (auto simp: LogWriteHandler_def)
  next
    case (DrainReleasing i)
    then show ?thesis using assms(3) rel [of Draining i] by (auto simp: LogWriteHandler_def)
  next
    case Ended
    then show ?thesis using assms(3) by (simp add: LogWriteHandler_def)
  qed
qed

section \<open>Every step\<close>

text \<open>The caller's slot is in no other hand, so filling it changes no line that waits.\<close>

lemma begin_history:
  assumes "slots_inv s" "files_fit (lg_log s)" "trace_begin b t text' s = Some s'"
  shows "log_history s' = log_history s \<and> files_fit (lg_log s')"
proof (cases "s' = s")
  case False
  then obtain i free where i: "wl_listFreeContent (lg_log s) = i # free"
      "s' = s\<lparr>lg_log := fill_slot i (log_content b t text') (lg_log s\<lparr>wl_listFreeContent := free\<rparr>), lg_caller := Filled i\<rparr>"
    using assms by (auto simp: trace_begin_def AllocFreeLogContent_def slots_inv_def split: if_splits list.splits)
  have "i \<notin> set (writing_slots (lg_worker s) @ wl_listUsedContent (lg_log s))"
    using assms(1) i(1) by (auto simp: slots_inv_def log_slots_def)
  moreover have "log_line (lg_log s') x = log_line (lg_log s) x" if "x \<noteq> i" for x
    using that by (simp add: i(2) log_line_def log_path_def fill_slot_def)
  ultimately have "map (log_line (lg_log s')) (writing_slots (lg_worker s) @ wl_listUsedContent (lg_log s))
      = map (log_line (lg_log s)) (writing_slots (lg_worker s) @ wl_listUsedContent (lg_log s))"
    unfolding map_eq_conv by metis
  then have "log_history s' = log_history s" using i(2) by (simp add: log_history_def fill_slot_def)
  moreover have "files_fit (lg_log s')" using assms(2) by (simp add: i(2) files_fit_def log_path_def fill_slot_def)
  ultimately show ?thesis by simp
qed (use assms in simp)

lemma push_history:
  assumes "slots_inv s" "files_fit (lg_log s)" "trace_push s = Some s'"
  shows "log_history s' = log_history s @ accepted_line CallPush s \<and> files_fit (lg_log s')"
proof -
  obtain i where i: "lg_caller s = Accepted i" "s' = s\<lparr>lg_log := queue_slot i (lg_log s), lg_caller := NoCall\<rparr>"
    using assms(3) by (auto simp: trace_push_def split: log_caller.splits if_splits)
  then show ?thesis using assms(2)
    by (auto simp: log_history_def queue_slot_def log_line_def log_path_def files_fit_def)
qed

lemma history_step:
  assumes "slots_inv s" "files_fit (lg_log s)" "log_move e s = Some s'"
  shows "log_history s' = log_history s @ accepted_line e s \<and> files_fit (lg_log s')"
proof (cases e)
  case (CallTrace b t x)
  then show ?thesis using begin_history [OF assms(1,2), of b t x s'] assms(3) by simp
next
  case CallCheck
  then have "lg_log s' = lg_log s" "lg_worker s' = lg_worker s"
    using assms(3) by (auto simp: trace_check_def split: log_caller.splits)
  then show ?thesis using assms(2) CallCheck by (simp add: log_history_def)
next
  case CallPush
  then show ?thesis using push_history [OF assms(1,2), of s'] assms(3) by simp
next
  case WorkerGo
  then show ?thesis using worker_history [OF assms(1,2), of s'] assms(3) by simp
next
  case StopWork
  then have "s' = s\<lparr>lg_log := StopWorkThead (lg_log s)\<rparr>" using assms(3) by simp
  then show ?thesis using assms(2) StopWork
    by (auto simp: log_history_def StopWorkThead_def log_line_def log_path_def files_fit_def)
qed

section \<open>Stopping\<close>

text \<open>How much the worker still has to do once it was told to stop.\<close>

fun worker_phase :: "log_worker \<Rightarrow> nat" where
  "worker_phase AtLoop = 2"
| "worker_phase Taking = 3"
| "worker_phase (Writing i) = 4"
| "worker_phase (Releasing i) = 3"
| "worker_phase Draining = 1"
| "worker_phase (DrainWriting i) = 3"
| "worker_phase (DrainReleasing i) = 2"
| "worker_phase Ended = 0"

definition work_left :: "log_threads \<Rightarrow> nat" where
  "work_left s = 3 * length (wl_listUsedContent (lg_log s)) + worker_phase (lg_worker s)"

fun run_worker :: "nat \<Rightarrow> log_threads \<Rightarrow> log_threads option" where
  "run_worker 0 s = Some s"
| "run_worker (Suc n) s = (case LogWriteHandler s of None \<Rightarrow> None | Some s' \<Rightarrow> run_worker n s')"

text \<open>Once \<open>Ended\<close> is reached by the worker's own step nothing is queued.\<close>

definition worker_done :: "log_threads \<Rightarrow> bool" where
  "worker_done s \<longleftrightarrow> lg_worker s = Ended \<and> wl_listUsedContent (lg_log s) = []"

lemma worker_progress:
  assumes inv: "slots_inv s" and fit: "files_fit (lg_log s)" and stop: "wl_bStopWorkThread (lg_log s)"
    and on: "lg_worker s \<noteq> Ended"
  shows "\<exists>s'. LogWriteHandler s = Some s' \<and> work_left s' < work_left s \<and> wl_bStopWorkThread (lg_log s')
    \<and> (lg_worker s' = Ended \<longrightarrow> worker_done s')"
proof -
  have use: "wl_bUseWorkThread (lg_log s)" using inv by (simp add: slots_inv_def)
  have wr: "\<exists>s'. write_slot i p s = Some s' \<and> lg_worker s' = p \<and> wl_bStopWorkThread (lg_log s')
      \<and> wl_listUsedContent (lg_log s') = wl_listUsedContent (lg_log s)"
    if "writing_slots (lg_worker s) = [i]" "writing_slots p = []" for i p
    using write_slot_history [OF inv fit that] stop by (auto simp: same_slots_def)
  show ?thesis
  proof (cases "lg_worker s")
    case (Writing i)
    then show ?thesis using wr [of i "Releasing i"] by (auto simp: LogWriteHandler_def work_left_def)
  next
    case (DrainWriting i)
    then show ?thesis using wr [of i "DrainReleasing i"] by (auto simp: LogWriteHandler_def work_left_def)
  qed (use stop use on in \<open>auto simp: LogWriteHandler_def work_left_def take_used_def set_log_def
        ReleaseFreeLogContent_def worker_done_def split: list.split\<close>)
qed

lemma worker_drains:
  assumes "slots_inv s" "files_fit (lg_log s)" "wl_bStopWorkThread (lg_log s)" "lg_worker s \<noteq> Ended"
  shows "\<exists>n \<le> work_left s. \<exists>s'. run_worker n s = Some s' \<and> worker_done s' \<and> log_history s' = log_history s"
  using assms
proof (induction "work_left s" arbitrary: s rule: less_induct)
  case less
  obtain s1 where s1: "LogWriteHandler s = Some s1" "work_left s1 < work_left s" "wl_bStopWorkThread (lg_log s1)"
      "lg_worker s1 = Ended \<longrightarrow> worker_done s1"
    using worker_progress [OF less.prems] by blast
  have h: "log_history s1 = log_history s" "files_fit (lg_log s1)"
    using worker_history [OF less.prems(1,2) s1(1)] by simp_all
  show ?case
  proof (cases "lg_worker s1 = Ended")
    case True
    then show ?thesis using s1 h by (intro exI [of _ 1]) (auto simp: work_left_def)
  next
    case False
    have "slots_inv s1" using slots_worker [OF less.prems(1) s1(1)] .
    then obtain n s' where "n \<le> work_left s1" "run_worker n s1 = Some s'" "worker_done s'" "log_history s' = log_history s1"
      using less.hyps [OF s1(2) _ h(2) s1(3) False] by blast
    then show ?thesis using s1(1,2) h(1) by (intro exI [of _ "Suc n"]) auto
  qed
qed

section \<open>Properties\<close>

text \<open>Data for the witnesses: a log with two slots and all names short, one call under way.\<close>

lemma dec_digits_length: "n < 10 ^ k \<Longrightarrow> 0 < k \<Longrightarrow> length (dec_digits n) \<le> k"
proof (induction n arbitrary: k rule: dec_digits.induct)
  case (1 n)
  show ?case
  proof (cases "n < 10")
    case True
    then show ?thesis using 1(3) by (simp add: dec_digits.simps)
  next
    case False
    then obtain j where j: "k = Suc j" using 1(3) by (cases k) auto
    then have "0 < j" using 1(2) False by (cases j) auto
    note j = j this
    then have "n div 10 < 10 ^ j" using 1(2) by (simp add: less_mult_imp_div_less mult.commute)
    from 1(1) [OF False this j(2)] have "length (dec_digits (n div 10)) \<le> j" .
    moreover have "dec_digits n = dec_digits (n div 10) @ [48 + of_nat (n mod 10)]"
      using False by (subst dec_digits.simps) simp
    ultimately show ?thesis using j(1) by simp
  qed
qed

lemma log_file_name_length:
  assumes "unat (lc_bType c) < ELT_Max"
  shows "length (log_file_name name c) \<le> length name + 24"
proof -
  have d: "length (dec_digits (unat (x :: u16))) \<le> 5" for x
    using unsigned_less [of x, where ?'a = nat] by (intro dec_digits_length) simp_all
  have p: "length (dec_pad 4 (unat (x :: u16))) \<le> 5" "length (dec_pad 2 (unat x)) \<le> 5" for x
    using d [of x] by (auto simp: dec_pad_def)
  have "unat (lc_bType c) \<in> {0, 1, 2, 3}" using assms by auto
  then have "length (LogFileExternName (unat (lc_bType c))) \<le> 7" by (auto simp: LogFileExternName_def ascii_def)
  with p(1) [of "lc_wYear c"] p(2) [of "lc_wMonth c"] p(2) [of "lc_wDate c"] show ?thesis
    by (simp add: log_file_name_def c_print_def)
qed

lemma short_names_fit:
  assumes "length (wl_strLogPath l) + length (wl_strLogName l) < 480" "\<And>p. lh_fopen (wl_host l) p"
  shows "files_fit l"
  unfolding files_fit_def
proof (intro allI impI conjI)
  fix c :: SLogContent assume "unat (lc_bType c) < ELT_Max"
  from log_file_name_length [OF this, of "wl_strLogName l"] show "length (log_path l c) < MAX_STR_LEN"
    using assms(1) by (simp add: log_path_def)
qed (rule assms(2))

definition sample_content :: SLogContent where
  "sample_content = \<lparr>lc_bType = 0, lc_wYear = 0, lc_wMonth = 0, lc_wDate = 0, lc_szContent = []\<rparr>"

definition sample_threads :: log_threads where
  "sample_threads = log_started (sample_log\<lparr>wl_bUseWorkThread := True, wl_listFreeContent := [0, 1],
     wl_astContent := [sample_content, sample_content],
     wl_host := VerifyDirectory [97, 47] sample_host, wl_nLogMask := 2\<rparr>)"

lemma sample_threads_reachable: "log_reachable sample_threads"
proof -
  have "Init False (\<lambda>_. sample_content) [97] [98] True 2 (wlog_new sample_log)
      = Inr (lg_log sample_threads\<lparr>wl_nLogMask := 0\<rparr>)"
    by (simp add: Init_def CreateLogPath_def slash_path_def c_string_def c_copy_def wlog_new_def sample_threads_def
        log_started_def sample_log_def upt_rec)
  from log_reach_start [OF _ this, of 2] show ?thesis by (simp add: sample_threads_def log_started_def)
qed

definition sample_queued :: log_threads where
  "sample_queued = (case trace_begin 1 sample_time [104] sample_threads of Some s \<Rightarrow> s\<lparr>lg_caller := Accepted 0\<rparr>)"

lemma sample_begins:
  "trace_begin 1 sample_time [104] sample_threads = Some (sample_queued\<lparr>lg_caller := Filled 0\<rparr>)"
  "lg_caller sample_queued = Accepted 0" "lg_worker sample_queued = AtLoop" "\<not> wl_bStopWorkThread (lg_log sample_queued)"
  "wl_listUsedContent (lg_log sample_queued) = []" "lh_written (wl_host (lg_log sample_queued)) = []"
  by (simp_all add: sample_queued_def trace_begin_def sample_threads_def log_started_def trace_enabled_def peek_bit
      AllocFreeLogContent_def sample_log_def sample_host_def fill_slot_def bit_simps VerifyDirectory_def make_directory_def
      strip_slash_def)

lemma sample_queued_reachable: "log_reachable sample_queued"
proof -
  have "log_reachable (sample_queued\<lparr>lg_caller := Filled 0\<rparr>)"
    by (rule log_reach_step [OF sample_threads_reachable, of "CallTrace 1 sample_time [104]"]) (simp add: sample_begins)
  then show ?thesis
    by (rule log_reach_step [of _ CallCheck])
      (use sample_begins in \<open>auto simp: trace_check_def intro!: log_threads.equality\<close>)
qed

lemma sample_queued_fit: "files_fit (lg_log sample_queued)"
  by (rule short_names_fit)
    (simp_all add: sample_queued_def trace_begin_def sample_threads_def log_started_def trace_enabled_def peek_bit
      AllocFreeLogContent_def sample_log_def sample_host_def fill_slot_def bit_simps VerifyDirectory_def make_directory_def
      strip_slash_def)

text \<open>C36: in every reachable state each slot is in one place at most, the free list, the queue or one
  thread's hand, and until the log is stopped no slot is lost.\<close>

theorem log_slots_conserved:
  assumes "log_reachable s"
  shows "distinct (log_slots s) \<and> set (log_slots s) \<subseteq> {0..<length (wl_astContent (lg_log s))}
    \<and> (\<not> wl_bStopWorkThread (lg_log s) \<longrightarrow> set (log_slots s) = {0..<length (wl_astContent (lg_log s))})"
  using slots_reachable [OF assms] by (simp add: slots_inv_def)

lemma log_slots_conserved_witness:
  "distinct (log_slots sample_queued) \<and> set (log_slots sample_queued) = {0..<length (wl_astContent (lg_log sample_queued))}"
  using log_slots_conserved [OF sample_queued_reachable] sample_begins(4) by blast





end
