(* ===== verification/Singleton.thy ===== *)
theory Singleton
  imports Prelude
begin

text \<open>
  \<open>parallel_core/SafeSingleton.h\<close>: an instance made by the first thread that asks for it, under
  \<open>std::call_once\<close>. Any number of threads, named by a number, call \<open>instance\<close>; the steps interleave.
  \<open>call_once\<close> is as documented: one caller runs the function while the others wait, and when it
  throws the flag stays unset. An instance is its address \<open>'a\<close>.
\<close>

datatype once_flag = NotCalled | InProgress | Done

text \<open>Where a thread is in \<open>instance\<close>: at the call of \<open>call_once\<close>, in \<open>new T\<close>, behind it, or back.\<close>

datatype 'a caller = Calling | Constructing | Passed | Got "'a option" | Threw

record 'a singleton =
  sg_inst :: "'a option"
  sg_once :: once_flag
  sg_made :: "'a list"
  sg_caller :: "nat \<Rightarrow> 'a caller"

definition singleton_new :: "'a singleton" where
  "singleton_new = \<lparr>sg_inst = None, sg_once = NotCalled, sg_made = [], sg_caller = (\<lambda>_. Calling)\<rparr>"

definition move :: "nat \<Rightarrow> 'a caller \<Rightarrow> 'a singleton \<Rightarrow> 'a singleton" where
  "move i pc s = s\<lparr>sg_caller := (sg_caller s)(i := pc)\<rparr>"

inductive instance_step :: "'a singleton \<Rightarrow> 'a singleton \<Rightarrow> bool" where
  begins: "sg_caller s i = Calling \<Longrightarrow> sg_once s = NotCalled \<Longrightarrow>
    instance_step s (move i Constructing (s\<lparr>sg_once := InProgress\<rparr>))"
| makes: "sg_caller s i = Constructing \<Longrightarrow>
    instance_step s (move i Passed (s\<lparr>sg_inst := Some x, sg_once := Done, sg_made := x # sg_made s\<rparr>))"
| throws: "sg_caller s i = Constructing \<Longrightarrow>
    instance_step s (move i Threw (s\<lparr>sg_once := NotCalled\<rparr>))"
| passes: "sg_caller s i = Calling \<Longrightarrow> sg_once s = Done \<Longrightarrow> instance_step s (move i Passed s)"
| returns: "sg_caller s i = Passed \<Longrightarrow> instance_step s (move i (Got (sg_inst s)) s)"
| calls_again: "sg_caller s i = Got p \<or> sg_caller s i = Threw \<Longrightarrow> instance_step s (move i Calling s)"

inductive instance_reach :: "'a singleton \<Rightarrow> bool" where
  init: "instance_reach singleton_new"
| step: "instance_reach s \<Longrightarrow> instance_step s s' \<Longrightarrow> instance_reach s'"

text \<open>Before the flag is set nothing is made, and at most one thread is at it; afterwards there is one
  instance, which everybody gets.\<close>

definition singleton_inv :: "'a singleton \<Rightarrow> bool" where
  "singleton_inv s \<longleftrightarrow> (case sg_once s of
       Done \<Rightarrow> (\<exists>x. sg_inst s = Some x \<and> sg_made s = [x]) \<and> (\<forall>i. sg_caller s i \<noteq> Constructing)
     | _ \<Rightarrow> sg_inst s = None \<and> sg_made s = []
         \<and> (\<forall>i. sg_caller s i \<noteq> Passed \<and> (\<forall>p. sg_caller s i \<noteq> Got p)))
   \<and> (sg_once s = NotCalled \<longrightarrow> (\<forall>i. sg_caller s i \<noteq> Constructing))
   \<and> (\<forall>i j. sg_caller s i = Constructing \<longrightarrow> sg_caller s j = Constructing \<longrightarrow> i = j)
   \<and> (\<forall>i p. sg_caller s i = Got p \<longrightarrow> p = sg_inst s)"

lemma singleton_inv_new: "singleton_inv singleton_new"
  by (simp add: singleton_inv_def singleton_new_def)

lemma singleton_inv_step: "instance_step s s' \<Longrightarrow> singleton_inv s \<Longrightarrow> singleton_inv s'"
proof (induction rule: instance_step.induct)
  case (makes s i x)
  then have "sg_once s = InProgress" by (cases "sg_once s") (auto simp: singleton_inv_def)
  with makes show ?case by (auto simp: singleton_inv_def move_def split: if_splits)
next
  case (throws s i)
  then have "sg_once s = InProgress" by (cases "sg_once s") (auto simp: singleton_inv_def)
  with throws show ?case by (auto simp: singleton_inv_def move_def split: if_splits)
next
  case (returns s i)
  then have "sg_once s = Done" by (cases "sg_once s") (auto simp: singleton_inv_def)
  with returns show ?case by (auto simp: singleton_inv_def move_def split: if_splits)
next
  case (calls_again s i p)
  then show ?case by (cases "sg_once s") (auto simp: singleton_inv_def move_def split: if_splits)
qed (auto simp: singleton_inv_def move_def split: if_splits)

section \<open>Properties\<close>

text \<open>Whatever threads ask for the instance at the same time, one is made at most, and everybody who
  gets a pointer gets that one, never null.\<close>

theorem one_instance:
  assumes "instance_reach s"
  shows "length (sg_made s) \<le> 1 \<and> (\<forall>i p. sg_caller s i = Got p \<longrightarrow> (\<exists>x. p = Some x \<and> sg_made s = [x]))"
proof -
  from assms have inv: "singleton_inv s"
    by (induction rule: instance_reach.induct) (auto intro: singleton_inv_new singleton_inv_step)
  then show ?thesis
    by (cases "sg_once s") (auto simp: singleton_inv_def)
qed

lemma one_instance_witness:
  "\<exists>s. instance_reach s \<and> sg_caller s 3 = Got (Some (9 :: nat)) \<and> sg_made s = [9]"
proof -
  let ?a = "move 3 Constructing (singleton_new\<lparr>sg_once := InProgress\<rparr>) :: nat singleton"
  let ?b = "move 3 Passed (?a\<lparr>sg_inst := Some 9, sg_once := Done, sg_made := 9 # sg_made ?a\<rparr>)"
  let ?c = "move 3 (Got (sg_inst ?b)) ?b"
  have "instance_step singleton_new ?a" by (rule instance_step.begins) (simp_all add: singleton_new_def)
  moreover have "instance_step ?a ?b" by (rule instance_step.makes) (simp add: move_def)
  moreover have "instance_step ?b ?c" by (rule instance_step.returns) (simp add: move_def)
  ultimately have r: "instance_reach ?c" by (blast intro: instance_reach.intros)
  moreover have g: "sg_caller ?c 3 = Got (Some 9)" by (simp add: move_def)
  ultimately show ?thesis using one_instance [OF r] by blast
qed

end
