(* ===== verification/Random_Test.thy ===== *)
theory Random_Test
  imports Safe_Random
begin

text \<open>
  \<open>UnitTest/TestRandom.h\<close>: the test of the generator. It counts how many of the numbers drawn fall
  into each tenth of the range and prints a bar for each; with several threads, a fifth one waits
  until the four that draw are done. Timing and the console are left out.
\<close>

section \<open>Counting\<close>

definition CAPACITY :: nat where
  "CAPACITY = 1024 * 1000"

definition THREAD_NUM :: nat where
  "THREAD_NUM = 4"

definition count_draw :: "(nat \<rightharpoonup> nat) \<Rightarrow> u64 \<Rightarrow> (nat \<rightharpoonup> nat)" where
  "count_draw container draw =
     (let cur_rand = unat (draw mod of_nat CAPACITY) in
      case container cur_rand of
        Some n \<Rightarrow> container(cur_rand \<mapsto> n + 1)
      | None \<Rightarrow> container(cur_rand \<mapsto> 1))"

definition tally :: "u64 list \<Rightarrow> (nat \<rightharpoonup> nat)" where
  "tally draws = foldl count_draw Map.empty draws"

definition add_bucket :: "(nat \<rightharpoonup> nat) \<Rightarrow> nat \<Rightarrow> nat list \<Rightarrow> nat list res" where
  "add_bucket container i count_arr =
     (case container i of
        None \<Rightarrow> Inr count_arr
      | Some n \<Rightarrow> rbind (arr_get count_arr (i div (CAPACITY div 10))) (\<lambda>v.
          arr_set count_arr (i div (CAPACITY div 10)) (v + n)))"

text \<open>\<open>print_bar\<close> copies the bytes of the bar character into 1024 bytes on the stack.\<close>

definition print_bar :: "byte list \<Rightarrow> byte list \<Rightarrow> nat \<Rightarrow> byte list res" where
  "print_bar stack bar_element height =
     (let len = length bar_element in
      rbind (rfold (\<lambda>i. rfold (\<lambda>k buffer. arr_set buffer (i * len + k) (bar_element ! k)) [0..<len])
               [0..<height] stack) (\<lambda>buffer.
      arr_set buffer (height * len) 0))"

definition print_bars :: "byte list \<Rightarrow> byte list \<Rightarrow> nat \<Rightarrow> nat list \<Rightarrow> byte list list res" where
  "print_bars stack bar_element threads count_arr =
     rfold (\<lambda>i bars. rbind (arr_get count_arr i) (\<lambda>c.
        rbind (print_bar stack bar_element (c div threads div (CAPACITY div 10 div 10))) (\<lambda>bar.
        Inr (bars @ [bar])))) [0..<10] []"

definition test_logic :: "byte list \<Rightarrow> byte list \<Rightarrow> u64 list \<Rightarrow> byte list list res" where
  "test_logic stack bar_element draws =
     rbind (rfold (add_bucket (tally draws)) [0..<CAPACITY] (replicate 11 0))
       (print_bars stack bar_element 1)"

text \<open>The sum over the threads, once all are done.\<close>

definition sum_threads :: "byte list \<Rightarrow> byte list \<Rightarrow> u64 list list \<Rightarrow> byte list list res" where
  "sum_threads stack bar_element draws =
     rbind (rfold (\<lambda>n. rfold (add_bucket (tally (draws ! n))) [0..<CAPACITY]) [0..<THREAD_NUM]
              (replicate 11 0))
       (print_bars stack bar_element THREAD_NUM)"

subsection \<open>No draw is lost\<close>

definition times :: "(nat \<rightharpoonup> nat) \<Rightarrow> nat \<Rightarrow> nat" where
  "times c i = (case c i of None \<Rightarrow> 0 | Some n \<Rightarrow> n)"

lemma sum_upd: "k < (n :: nat) \<Longrightarrow> (\<Sum>i<n. (f(k := f k + 1)) i) = (\<Sum>i<n. f i) + (1 :: nat)"
proof -
  assume k: "k < n"
  then have "(\<Sum>i<n. (f(k := f k + 1)) i) = (f k + 1) + (\<Sum>i \<in> {..<n} - {k}. f i)"
    using sum.remove [of "{..<n}" k "f(k := f k + 1)"] by simp
  moreover have "(\<Sum>i<n. f i) = f k + (\<Sum>i \<in> {..<n} - {k}. f i)"
    using k sum.remove [of "{..<n}" k f] by simp
  ultimately show ?thesis by simp
qed

lemma cur_rand_less: "unat (draw mod of_nat CAPACITY :: u64) < CAPACITY"
  by (simp add: CAPACITY_def unat_mod)

lemma tally_total: "(\<Sum>i<CAPACITY. times (foldl count_draw c draws) i) = (\<Sum>i<CAPACITY. times c i) + length draws"
proof (induction draws arbitrary: c)
  case (Cons d draws)
  let ?k = "unat (d mod of_nat CAPACITY)"
  have "times (count_draw c d) = (times c)(?k := times c ?k + 1)"
    by (auto simp: times_def count_draw_def Let_def fun_eq_iff split: option.splits)
  then have "(\<Sum>i<CAPACITY. times (count_draw c d) i) = (\<Sum>i<CAPACITY. times c i) + 1"
    by (simp only: sum_upd [OF cur_rand_less])
  with Cons show ?case by simp
qed simp

lemma bucket_index: "i < CAPACITY \<Longrightarrow> i div (CAPACITY div 10) < 10"
  by (simp add: CAPACITY_def div_less_iff_less_mult)

lemma buckets_sum:
  assumes "length arr = 11"
  shows "n \<le> CAPACITY \<Longrightarrow> \<exists>arr'. rfold (add_bucket c) [0..<n] arr = Inr arr' \<and> length arr' = 11
    \<and> sum_list arr' = sum_list arr + (\<Sum>i<n. times c i)"
proof (induction n)
  case (Suc n)
  then obtain arr' where a: "rfold (add_bucket c) [0..<n] arr = Inr arr'" "length arr' = 11"
      "sum_list arr' = sum_list arr + (\<Sum>i<n. times c i)" by auto
  let ?k = "n div (CAPACITY div 10)"
  have k: "?k < 11" using bucket_index [of n] Suc.prems by linarith
  have "\<exists>b. add_bucket c n arr' = Inr b \<and> length b = 11 \<and> sum_list b = sum_list arr' + times c n"
  proof (cases "c n")
    case (Some v)
    have "arr' ! ?k \<le> sum_list arr'" using k a(2) by (simp add: elem_le_sum_list)
    with Some k a(2) show ?thesis by (simp add: add_bucket_def times_def sum_list_update)
  qed (use a(2) in \<open>simp add: add_bucket_def times_def\<close>)
  with a show ?case by (auto simp: rfold_append)
qed (use assms in simp)

subsection \<open>Every bar fits\<close>

lemma print_bar_ok:
  assumes "length stack = 1024" "height * length bar < 1024"
  shows "\<exists>b. print_bar stack bar height = Inr b"
proof -
  let ?len = "length bar"
  have inner: "\<exists>b'. rfold (\<lambda>k buffer. arr_set buffer (i * ?len + k) (bar ! k)) [0..<?len] b = Inr b' \<and> length b' = 1024"
    if "i < height" "length b = 1024" for i and b :: "byte list"
  proof (rule rfold_inv [where P = "\<lambda>b. length b = 1024"])
    fix k and b' :: "byte list" assume k: "k \<in> set [0..<?len]" "length b' = 1024"
    have "i * ?len + k < Suc i * ?len" using k(1) by simp
    also have "\<dots> \<le> height * ?len" using that(1) by (intro mult_le_mono1) simp
    finally show "\<exists>s'. arr_set b' (i * ?len + k) (bar ! k) = Inr s' \<and> length s' = 1024"
      using k(2) assms(2) by simp
  qed (fact that(2))
  have "\<exists>b. rfold (\<lambda>i. rfold (\<lambda>k buffer. arr_set buffer (i * ?len + k) (bar ! k)) [0..<?len]) [0..<height] stack
      = Inr b \<and> length b = 1024"
    by (rule rfold_inv [where P = "\<lambda>b. length b = 1024"]) (use inner assms(1) in auto)
  then show ?thesis using assms(2) by (auto simp: print_bar_def Let_def)
qed

lemma print_bars_ok:
  assumes "length stack = 1024" "length bar \<le> 10" "length arr = 11" "sum_list arr \<le> threads * CAPACITY" "0 < threads"
  shows "\<exists>bars. print_bars stack bar threads arr = Inr bars"
proof -
  let ?f = "\<lambda>i bars. rbind (arr_get arr i) (\<lambda>c.
    rbind (print_bar stack bar (c div threads div (CAPACITY div 10 div 10))) (\<lambda>b. Inr (bars @ [b])))"
  have "\<exists>bars'. ?f i bars = Inr bars' \<and> True"
    if "i \<in> set [0..<10]" for i bars
  proof -
    have "arr ! i \<le> sum_list arr" using that assms(3) by (simp add: elem_le_sum_list)
    with assms(4) have "arr ! i \<le> threads * CAPACITY" by simp
    then have "arr ! i div threads \<le> CAPACITY" using assms(5) by (metis div_le_mono nonzero_mult_div_cancel_left not_gr0)
    then have "arr ! i div threads div (CAPACITY div 10 div 10) \<le> 100"
      using div_le_mono [of "arr ! i div threads" CAPACITY "CAPACITY div 10 div 10"] by (simp add: CAPACITY_def)
    then have "arr ! i div threads div (CAPACITY div 10 div 10) * length bar \<le> 100 * 10"
      using assms(2) by (rule mult_le_mono)
    then have "arr ! i div threads div (CAPACITY div 10 div 10) * length bar < 1024" by simp
    from print_bar_ok [OF assms(1) this] that assms(3) show ?thesis by auto
  qed
  then have "\<exists>bars. rfold ?f [0..<10] [] = Inr bars \<and> True" by (rule rfold_inv [where P = "\<lambda>_. True"]) simp_all
  then show ?thesis by (simp add: print_bars_def)
qed

section \<open>Waiting for the four threads\<close>

text \<open>
  \<open>done_signals |= 1 << i\<close> reads, then writes, with no lock; the waiting thread holds a mutex that the
  others never take. A waiting thread may also wake up by itself.
\<close>

datatype worker = Counting | HasRead u32 | Wrote | Ended

datatype waiter = Checking | Committed | Sleeping | Summing

record handshake =
  hs_done :: u32
  hs_worker :: "nat \<Rightarrow> worker"
  hs_waiter :: waiter

definition handshake_new :: handshake where
  "handshake_new = \<lparr>hs_done = 0, hs_worker = (\<lambda>_. Counting), hs_waiter = Checking\<rparr>"

inductive handshake_step :: "handshake \<Rightarrow> handshake \<Rightarrow> bool" where
  reads: "i < THREAD_NUM \<Longrightarrow> hs_worker s i = Counting \<Longrightarrow>
    handshake_step s (s\<lparr>hs_worker := (hs_worker s)(i := HasRead (hs_done s))\<rparr>)"
| writes: "i < THREAD_NUM \<Longrightarrow> hs_worker s i = HasRead v \<Longrightarrow>
    handshake_step s (s\<lparr>hs_done := v OR push_bit i 1, hs_worker := (hs_worker s)(i := Wrote)\<rparr>)"
| notifies: "i < THREAD_NUM \<Longrightarrow> hs_worker s i = Wrote \<Longrightarrow>
    handshake_step s (s\<lparr>hs_worker := (hs_worker s)(i := Ended),
      hs_waiter := (if hs_waiter s = Sleeping then Checking else hs_waiter s)\<rparr>)"
| sees_all: "hs_waiter s = Checking \<Longrightarrow> hs_done s = 15 \<Longrightarrow> handshake_step s (s\<lparr>hs_waiter := Summing\<rparr>)"
| must_wait: "hs_waiter s = Checking \<Longrightarrow> hs_done s \<noteq> 15 \<Longrightarrow> handshake_step s (s\<lparr>hs_waiter := Committed\<rparr>)"
| sleeps: "hs_waiter s = Committed \<Longrightarrow> handshake_step s (s\<lparr>hs_waiter := Sleeping\<rparr>)"
| wakes: "hs_waiter s = Sleeping \<Longrightarrow> handshake_step s (s\<lparr>hs_waiter := Checking\<rparr>)"

inductive handshake_reach :: "handshake \<Rightarrow> handshake \<Rightarrow> bool" for s where
  here: "handshake_reach s s"
| step: "handshake_reach s t \<Longrightarrow> handshake_step t u \<Longrightarrow> handshake_reach s u"

text \<open>A bit is set only by the worker it belongs to, in the variable and in what was read of it.\<close>

definition handshake_inv :: "handshake \<Rightarrow> bool" where
  "handshake_inv s \<longleftrightarrow> (\<forall>i<THREAD_NUM. (bit (hs_done s) i \<longrightarrow> hs_worker s i \<in> {Wrote, Ended})
      \<and> (\<forall>j<THREAD_NUM. \<forall>v. hs_worker s j = HasRead v \<longrightarrow> bit v i \<longrightarrow> hs_worker s i \<in> {Wrote, Ended}))
    \<and> (hs_waiter s = Summing \<longrightarrow> (\<forall>i<THREAD_NUM. hs_worker s i \<in> {Wrote, Ended}))"

lemma bit_15: "i < 4 \<Longrightarrow> bit (15 :: u32) i"
  by (auto simp: less_Suc_eq eval_nat_numeral)

lemma handshake_inv_step: "handshake_step s t \<Longrightarrow> handshake_inv s \<Longrightarrow> handshake_inv t"
proof (induction rule: handshake_step.induct)
  case (reads i s)
  then show ?case by (auto simp: handshake_inv_def)
next
  case (writes i s v)
  then show ?case by (auto simp: handshake_inv_def bit_simps)
next
  case (notifies i s)
  then show ?case by (auto simp: handshake_inv_def)
next
  case (sees_all s)
  then show ?case using bit_15 by (auto simp: handshake_inv_def THREAD_NUM_def)
qed (auto simp: handshake_inv_def)

section \<open>Properties\<close>

text \<open>Every number drawn is counted in one of the ten tenths, and the bars fit their buffer whatever was drawn.\<close>

theorem test_logic_runs:
  assumes "length draws = CAPACITY" "length stack = 1024" "length bar \<le> 10"
  shows "\<exists>arr bars. rfold (add_bucket (tally draws)) [0..<CAPACITY] (replicate 11 0) = Inr arr
    \<and> sum_list arr = length draws \<and> test_logic stack bar draws = Inr bars"
proof -
  from buckets_sum [of "replicate 11 0" CAPACITY "tally draws"] obtain arr where
    arr: "rfold (add_bucket (tally draws)) [0..<CAPACITY] (replicate 11 0) = Inr arr" "length arr = 11"
      "sum_list arr = (\<Sum>i<CAPACITY. times (tally draws) i)" by (auto simp: sum_list_replicate)
  have "sum_list arr = length draws"
    using tally_total [of Map.empty draws] by (simp add: arr(3) tally_def times_def)
  with print_bars_ok [OF assms(2,3) arr(2), of 1] assms(1) arr(1) show ?thesis by (simp add: test_logic_def)
qed

text \<open>The fifth thread sums up only when each of the four has counted all its numbers.\<close>

theorem sum_waits_for_all:
  assumes "handshake_reach handshake_new s" "hs_waiter s = Summing" "i < THREAD_NUM"
  shows "hs_worker s i = Wrote \<or> hs_worker s i = Ended"
proof -
  have "handshake_inv s"
    using assms(1)
  proof (induction rule: handshake_reach.induct)
    case here
    show ?case by (simp add: handshake_inv_def handshake_new_def)
  qed (rule handshake_inv_step)
  with assms(2,3) show ?thesis by (auto simp: handshake_inv_def)
qed

lemma sum_threads_buckets:
  "\<exists>arr. rfold (\<lambda>n. rfold (add_bucket (tally (draws ! n))) [0..<CAPACITY]) [0..<k] (replicate 11 0) = Inr arr
    \<and> length arr = 11 \<and> sum_list arr = (\<Sum>n<k. length (draws ! n))"
proof (induction k)
  case (Suc k)
  then obtain arr where arr: "rfold (\<lambda>n. rfold (add_bucket (tally (draws ! n))) [0..<CAPACITY]) [0..<k] (replicate 11 0) = Inr arr"
      "length arr = 11" "sum_list arr = (\<Sum>n<k. length (draws ! n))" by auto
  from buckets_sum [OF arr(2), of CAPACITY "tally (draws ! k)"] obtain b where
    "rfold (add_bucket (tally (draws ! k))) [0..<CAPACITY] arr = Inr b" "length b = 11"
      "sum_list b = sum_list arr + (\<Sum>i<CAPACITY. times (tally (draws ! k)) i)" by auto
  moreover have "(\<Sum>i<CAPACITY. times (tally (draws ! k)) i) = length (draws ! k)"
    using tally_total [of Map.empty "draws ! k"] by (simp add: tally_def times_def)
  ultimately show ?case using arr by (simp add: rfold_append)
qed (simp add: sum_list_replicate)

text \<open>The sum over the four threads counts every number and its bars fit as well.\<close>

theorem sum_threads_runs:
  assumes "\<forall>n<THREAD_NUM. length (draws ! n) = CAPACITY" "length stack = 1024" "length bar \<le> 10"
  shows "\<exists>bars. sum_threads stack bar draws = Inr bars"
proof -
  from sum_threads_buckets [of draws THREAD_NUM] obtain arr where
    arr: "rfold (\<lambda>n. rfold (add_bucket (tally (draws ! n))) [0..<CAPACITY]) [0..<THREAD_NUM] (replicate 11 0) = Inr arr"
      "length arr = 11" "sum_list arr = (\<Sum>n<THREAD_NUM. length (draws ! n))" by blast
  have "sum_list arr = THREAD_NUM * CAPACITY" using assms(1) by (simp add: arr(3))
  with print_bars_ok [OF assms(2,3) arr(2), of THREAD_NUM] arr(1) show ?thesis
    by (simp add: sum_threads_def THREAD_NUM_def)
qed

text \<open>
  Two threads that finish together can lose one of the two bits. Then all four threads end, the
  waiting one never sums up, whatever happens, and the test does not return.
\<close>

definition lost_update :: "handshake \<Rightarrow> bool" where
  "lost_update s \<longleftrightarrow> (\<forall>i<THREAD_NUM. hs_worker s i = Ended) \<and> hs_done s \<noteq> 15 \<and> hs_waiter s \<noteq> Summing"

lemma lost_update_step: "handshake_step s t \<Longrightarrow> lost_update s \<Longrightarrow> lost_update t"
  by (induction rule: handshake_step.induct) (auto simp: lost_update_def)

lemma handshake_reach_trans: "handshake_reach t u \<Longrightarrow> handshake_reach s t \<Longrightarrow> handshake_reach s u"
  by (induction rule: handshake_reach.induct) (auto intro: handshake_reach.intros)

lemma one_worker:
  assumes "i < THREAD_NUM" "hs_worker s i = Counting"
  shows "handshake_reach s (s\<lparr>hs_done := hs_done s OR push_bit i 1, hs_worker := (hs_worker s)(i := Ended),
    hs_waiter := (if hs_waiter s = Sleeping then Checking else hs_waiter s)\<rparr>)"
proof -
  let ?a = "s\<lparr>hs_worker := (hs_worker s)(i := HasRead (hs_done s))\<rparr>"
  let ?b = "?a\<lparr>hs_done := hs_done s OR push_bit i 1, hs_worker := (hs_worker ?a)(i := Wrote)\<rparr>"
  let ?c = "?b\<lparr>hs_worker := (hs_worker ?b)(i := Ended),
      hs_waiter := (if hs_waiter ?b = Sleeping then Checking else hs_waiter ?b)\<rparr>"
  have "handshake_step s ?a" by (rule handshake_step.reads [OF assms])
  moreover have "handshake_step ?a ?b" by (rule handshake_step.writes [OF assms(1)]) simp
  moreover have "handshake_step ?b ?c" by (rule handshake_step.notifies [OF assms(1)]) simp
  ultimately have "handshake_reach s ?c" by (blast intro: handshake_reach.intros)
  moreover have "?c = s\<lparr>hs_done := hs_done s OR push_bit i 1, hs_worker := (hs_worker s)(i := Ended),
      hs_waiter := (if hs_waiter s = Sleeping then Checking else hs_waiter s)\<rparr>"
    by (cases s) simp
  ultimately show ?thesis by (simp only:)
qed

theorem test_may_hang:
  "\<exists>s. handshake_reach handshake_new s \<and> (\<forall>i<THREAD_NUM. hs_worker s i = Ended)
    \<and> (\<forall>t. handshake_reach s t \<longrightarrow> hs_waiter t \<noteq> Summing)"
proof -
  let ?r0 = "handshake_new\<lparr>hs_worker := (hs_worker handshake_new)(0 := HasRead 0)\<rparr>"
  let ?s1 = "?r0\<lparr>hs_done := 0 OR push_bit 1 1, hs_worker := (hs_worker ?r0)(1 := Ended)\<rparr>"
  let ?s2 = "?s1\<lparr>hs_done := 0 OR push_bit 0 1, hs_worker := (hs_worker ?s1)(0 := Wrote)\<rparr>"
  let ?s3 = "?s2\<lparr>hs_worker := (hs_worker ?s2)(0 := Ended)\<rparr>"
  let ?s4 = "?s3\<lparr>hs_done := hs_done ?s3 OR push_bit 2 1, hs_worker := (hs_worker ?s3)(2 := Ended)\<rparr>"
  let ?s5 = "?s4\<lparr>hs_done := hs_done ?s4 OR push_bit 3 1, hs_worker := (hs_worker ?s4)(3 := Ended)\<rparr>"
  have n: "THREAD_NUM = 4" by (simp add: THREAD_NUM_def)
  have "handshake_step handshake_new ?r0"
    using handshake_step.reads [of 0 handshake_new] by (simp add: n handshake_new_def)
  moreover have "handshake_reach ?r0 ?s1"
    using one_worker [of 1 ?r0] by (simp add: n handshake_new_def)
  moreover have "handshake_step ?s1 ?s2" by (rule handshake_step.writes) (simp_all add: n)
  moreover have "handshake_step ?s2 ?s3"
    using handshake_step.notifies [of 0 ?s2] by (simp add: n handshake_new_def)
  moreover have "handshake_reach ?s3 ?s4"
    using one_worker [of 2 ?s3] by (simp add: n handshake_new_def)
  moreover have "handshake_reach ?s4 ?s5"
    using one_worker [of 3 ?s4] by (simp add: n handshake_new_def)
  ultimately have r: "handshake_reach handshake_new ?s5"
    by (meson handshake_reach.intros handshake_reach_trans)
  have lost: "lost_update ?s5"
    unfolding lost_update_def
  proof (intro conjI allI impI)
    show "hs_worker ?s5 i = Ended" if "i < THREAD_NUM" for i
      using that by (auto simp: n less_Suc_eq eval_nat_numeral)
  qed (simp_all add: handshake_new_def)
  have "lost_update t" if "handshake_reach ?s5 t" for t
    using that by (induction rule: handshake_reach.induct) (fact lost, rule lost_update_step)
  with r lost show ?thesis unfolding lost_update_def by blast
qed

end
