(* ===== verification/Silent_Peer.thy ===== *)
theory Silent_Peer
  imports Keep_Alive Proxy_Isolation
begin

text \<open>
  The keep-alive at work: a connected session whose peer has been silent for longer than the timeout
  is kicked by one of the next ticks, within a second's worth of them.
\<close>

section \<open>One tick of a silent session\<close>

definition silent :: "u32 \<Rightarrow> proxy_logic session \<Rightarrow> proxy_world \<Rightarrow> bool" where
  "silent t s w \<longleftrightarrow> s_state s = CONNECTING \<and> s_open s \<and> s_closes s = [] \<and> s_tick_timer s \<and> s_tick_interval s = uint t
     \<and> s_keep_alive_timeout s < duration_ms (w_now w - s_last_recv_time s)"

text \<open>The counter, whatever it holds: the constructor does not initialise it.\<close>

lemma tick_any:
  assumes "tick \<noteq> 0" "unat tick \<le> 1000"
  shows "\<exists>c. is_tick_frame_effective tick KEEP_ALIVE_PRECISION n = Inr (c = 0, c) \<and> unat c < 1000 div unat tick"
proof -
  have k: "unat (1000 div tick) = 1000 div unat tick" by (simp add: unat_div)
  have "0 < unat tick" using assms(1) by (simp add: unat_gt_0)
  then have "0 < 1000 div unat tick" using assms(2) by (simp add: div_greater_zero_iff)
  then have "1000 div tick \<noteq> 0" "unat ((n + 1) mod (1000 div tick)) < 1000 div unat tick"
    using k by (auto simp: unat_mod)
  then show ?thesis using assms(1) by (simp add: is_tick_frame_effective_def Let_def)
qed

lemma silent_tick:
  assumes s: "w_sessions w sid = Some s" "silent t s w"
    and e: "is_tick_frame_effective (word_of_int (uint t)) KEEP_ALIVE_PRECISION (s_frame_count s) = Inr (eff, c)"
  shows "proxy_run fuel z (TickTimer sid False # es) w = proxy_run fuel z es
    (put_session sid (s\<lparr>s_frame_count := c, s_closes := (if eff then [True] else [])\<rparr>) w)"
proof -
  have i: "s_tick_interval s = uint t" "s_tick_timer s" using s(2) by (simp_all add: silent_def)
  let ?s = "s\<lparr>s_tick_timer := False, s_frame_count := c\<rparr>"
  let ?v = "put_session sid ?s (put_session sid (s\<lparr>s_tick_timer := False\<rparr>) w)"
  have "tick_alive (proxy_wrap fuel z) sid ?v = Inr (put_session sid (?s\<lparr>s_closes := [True]\<rparr>) ?v)"
    using s(2) by (simp add: tick_alive_def kick_def close_session_def get_session_def put_session_def silent_def)
  then have "fixed_tick (proxy_wrap fuel z) sid (put_session sid (s\<lparr>s_tick_timer := False\<rparr>) w)
      = Inr (put_session sid (s\<lparr>s_frame_count := c, s_closes := (if eff then [True] else [])\<rparr>) w)"
    using s(2) e i by (auto simp: fixed_tick_def get_session_def upd_session_def put_session_def arm_tick_timer_def silent_def)
      (cases s; simp)+
  then show ?thesis using s(1) i(2) by (simp add: tick_timer_done_def upd_session_def get_session_def)
qed

lemma silent_put [simp]: "silent t (s\<lparr>s_frame_count := c\<rparr>) (put_session sid s' w) \<longleftrightarrow> silent t s w"
  by (simp add: silent_def put_session_def)

lemma silent_ticks:
  assumes t: "0 < t" "t \<le> 1000"
  shows "w_sessions w sid = Some s \<Longrightarrow> silent t s w \<Longrightarrow> unat (s_frame_count s) + 1 + n = 1000 div unat t \<Longrightarrow>
    proxy_run fuel z (replicate (Suc n) (TickTimer sid False) @ es) w
      = proxy_run fuel z es (put_session sid (s\<lparr>s_frame_count := 0, s_closes := [True]\<rparr>) w)"
proof (induction n arbitrary: s w)
  case base: 0
  let ?t = "word_of_int (uint t) :: u64"
  have u: "?t \<noteq> 0" "unat ?t = unat t" "unat ?t \<le> 1000" using t by (simp_all add: word_less_nat_alt word_le_nat_alt unat_ucast_up flip: unat_eq_0)
  have "unat (s_frame_count s) < 1000 div unat ?t" using base(3) u(2) by simp
  from tick_once [OF u(1,3) this] obtain c where
    "is_tick_frame_effective ?t KEEP_ALIVE_PRECISION (s_frame_count s) = Inr (True, c)" "unat c = 0"
    using base(3) u(2) by auto
  then show ?case using silent_tick [OF base(1,2)] by (simp add: unat_eq_0)
next
  case (Suc n)
  let ?t = "word_of_int (uint t) :: u64"
  have u: "?t \<noteq> 0" "unat ?t = unat t" "unat ?t \<le> 1000" using t by (simp_all add: word_less_nat_alt word_le_nat_alt unat_ucast_up flip: unat_eq_0)
  have "unat (s_frame_count s) < 1000 div unat ?t" using Suc.prems(3) u(2) by simp
  from tick_once [OF u(1,3) this] obtain c where
    c: "is_tick_frame_effective ?t KEEP_ALIVE_PRECISION (s_frame_count s) = Inr (False, c)" "unat c = unat (s_frame_count s) + 1"
    using Suc.prems(3) u(2) by auto
  let ?s = "s\<lparr>s_frame_count := c\<rparr>"
  have nc: "s\<lparr>s_frame_count := c, s_closes := []\<rparr> = ?s" using Suc.prems(2) by (simp add: silent_def)
  have "proxy_run fuel z (replicate (Suc (Suc n)) (TickTimer sid False) @ es) w
      = proxy_run fuel z (replicate (Suc n) (TickTimer sid False) @ es) (put_session sid ?s w)"
    using silent_tick [OF Suc.prems(1,2) c(1)] nc by simp
  also have "\<dots> = proxy_run fuel z es (put_session sid (?s\<lparr>s_frame_count := 0, s_closes := [True]\<rparr>) (put_session sid ?s w))"
    by (rule Suc.IH) (use Suc.prems c(2) in simp_all)
  finally show ?case by (simp add: put_session_def)
qed

section \<open>Properties\<close>

text \<open>C18: a dead peer is noticed. In every reachable state with a sane configuration, a connected session
  that ticks and whose peer has been silent for longer than the timeout is kicked by one of the ticks
  of the next second, and the close task then shuts its sending side down.\<close>

theorem silent_peer_kicked:
  assumes "proxy_reachable fuel z w" "sane_config (pm_config (w_env w))" "w_sessions w sid = Some s"
    and "s_state s = CONNECTING" "s_open s" "s_tick_timer s" "s_closes s = []"
    and "s_keep_alive_timeout s < duration_ms (w_now w - s_last_recv_time s)"
  shows "\<exists>k w' s'. 1 \<le> k \<and> k \<le> 1000 div unat (cfg_tick_interval (pm_config (w_env w)))
    \<and> proxy_run fuel z (replicate k (TickTimer sid False) @ [CloseTask sid]) w = Inr w'
    \<and> w_sessions w' sid = Some s' \<and> s_state s' = TO_CLOSE"
proof -
  let ?i = "cfg_tick_interval (pm_config (w_env w))"
  let ?t = "word_of_int (uint ?i) :: u64"
  have i: "0 < ?i" "?i \<le> 1000" using assms(2) by (simp_all add: sane_config_def)
  have u: "?t \<noteq> 0" "unat ?t = unat ?i" "unat ?t \<le> 1000" using i by (simp_all add: word_less_nat_alt word_le_nat_alt unat_ucast_up flip: unat_eq_0)
  have si: "silent ?i s w"
    using assms(4-8) fitted_session [OF fitted_reachable [OF assms(1)] assms(3)] by (simp add: silent_def fit_def)
  have closed: "\<exists>w' s'. proxy_run fuel z [CloseTask sid] (put_session sid (s\<lparr>s_frame_count := c, s_closes := [True]\<rparr>) w) = Inr w'
      \<and> w_sessions w' sid = Some s' \<and> s_state s' = TO_CLOSE" for c
    using assms(4,5) by (simp add: close_task_def upd_session_def get_session_def put_session_def close_task_session_def
        clear_all_timer_def Let_def)
  obtain c where c: "is_tick_frame_effective ?t KEEP_ALIVE_PRECISION (s_frame_count s) = Inr (c = 0, c)"
    "unat c < 1000 div unat ?i" using tick_any [OF u(1,3)] u(2) by auto
  show ?thesis
  proof (cases "c = 0")
    case True
    have "1 \<le> 1000 div unat ?i" using c(2) by simp
    then show ?thesis using silent_tick [OF assms(3) si c(1)] closed [of c] True
      by (intro exI [of _ 1]) simp
  next
    case False
    let ?s = "s\<lparr>s_frame_count := c\<rparr>"
    let ?n = "1000 div unat ?i - 1 - unat c"
    have nc: "s\<lparr>s_frame_count := c, s_closes := []\<rparr> = ?s" using assms(7) by simp
    have pos: "0 < unat c" using False by (simp add: unat_gt_0)
    have "proxy_run fuel z (replicate (Suc ?n) (TickTimer sid False) @ [CloseTask sid]) (put_session sid ?s w)
        = proxy_run fuel z [CloseTask sid] (put_session sid (?s\<lparr>s_frame_count := 0, s_closes := [True]\<rparr>) (put_session sid ?s w))"
      by (rule silent_ticks [OF i]) (use si c(2) in simp_all)
    then have "proxy_run fuel z (replicate (Suc (Suc ?n)) (TickTimer sid False) @ [CloseTask sid]) w
        = proxy_run fuel z [CloseTask sid] (put_session sid (s\<lparr>s_frame_count := 0, s_closes := [True]\<rparr>) w)"
      using silent_tick [OF assms(3) si c(1)] False nc by (simp add: put_session_def)
    moreover have "Suc (Suc ?n) \<le> 1000 div unat ?i" using pos c(2) by simp
    ultimately show ?thesis using closed [of 0] by (intro exI [of _ "Suc (Suc ?n)"]) simp
  qed
qed

lemma ticking_silent: "\<exists>w s. ticking_run [Accepted False 9, Elapse 31000000000] = Inr w \<and> w_sessions w 0 = Some s
    \<and> s_state s = CONNECTING \<and> s_open s \<and> s_tick_timer s \<and> s_closes s = [] \<and> sane_config (pm_config (w_env w))
    \<and> s_keep_alive_timeout s < duration_ms (w_now w - s_last_recv_time s)
    \<and> cfg_tick_interval (pm_config (w_env w)) = 1000"
  by (simp add: ticking_defs sane_config_def)

lemma silent_peer_kicked_witness:
  "\<exists>w w' s'. ticking_run [Accepted False 9, Elapse 31000000000] = Inr w
     \<and> proxy_run 5 sample_zlib [TickTimer 0 False, CloseTask 0] w = Inr w' \<and> w_sessions w' 0 = Some s' \<and> s_state s' = TO_CLOSE"
proof -
  obtain w s where r: "ticking_run [Accepted False 9, Elapse 31000000000] = Inr w" "w_sessions w 0 = Some s"
      "s_state s = CONNECTING" "s_open s" "s_tick_timer s" "s_closes s = []" "sane_config (pm_config (w_env w))"
      "s_keep_alive_timeout s < duration_ms (w_now w - s_last_recv_time s)"
      "cfg_tick_interval (pm_config (w_env w)) = 1000"
    using ticking_silent by blast
  from silent_peer_kicked [OF ticking_run_reachable [OF r(1)] r(7,2-6,8)] r(9) obtain k w' s' where
    "1 \<le> k" "k \<le> 1" "proxy_run 5 sample_zlib (replicate k (TickTimer 0 False) @ [CloseTask 0]) w = Inr w'"
    "w_sessions w' 0 = Some s'" "s_state s' = TO_CLOSE" by auto
  moreover from this have "k = 1" by simp
  ultimately show ?thesis using r(1) by auto
qed

end
