(* ===== verification/Server_Main.thy ===== *)
theory Server_Main
  imports Proxy_Isolation Log_Writer
begin

text \<open>
  The proxy's program as a whole: \<open>main\<close> of \<open>TestServer/ServerMain.cpp\<close> up to its idle loop, from the
  configuration file and an unused log to a proxy that waits for a connection; and that it then
  answers every event, as long as its peers behave. \<open>main\<close> of \<open>TestClient/ClientMain.cpp\<close> sets up the
  log only.
\<close>

section \<open>The programs\<close>

text \<open>
  The log both programs set up: no worker thread, errors and information switched on. \<open>slots\<close> is what
  its slots hold, \<open>stale\<close> the memory of the log itself.
\<close>

definition main_log :: "bool \<Rightarrow> (nat \<Rightarrow> SLogContent) \<Rightarrow> byte list \<Rightarrow> WLog \<Rightarrow> WLog res" where
  "main_log win32 slots name stale =
     rbind (Init win32 slots (ascii ''F:'' @ [92] @ ascii ''ProxyLog'' @ [92]) name False 1 (wlog_new stale)) (\<lambda>l.
     rbind (AppendLogMask (log_type_code ELT_Error) l) (\<lambda>l.
     AppendLogMask (log_type_code ELT_Info) l))"

definition client_main :: "bool \<Rightarrow> (nat \<Rightarrow> SLogContent) \<Rightarrow> WLog \<Rightarrow> WLog res" where
  "client_main win32 slots stale = main_log win32 slots (ascii ''Svrlog'') stale"

text \<open>The instance of the manager: its constructor reads the configuration file.\<close>

definition proxy_instance ::
  "(byte list \<Rightarrow> byte list option) \<Rightarrow> (byte list \<Rightarrow> (string \<Rightarrow> int option) option) \<Rightarrow> rand_state \<Rightarrow> int \<Rightarrow> (nat \<Rightarrow> memory)
   \<Rightarrow> proxy_world res" where
  "proxy_instance read_all parse rand now junk =
     rbind (load_proxy_config (open_file read_all parse (ascii ''../../../../proxy_config.json''))) (\<lambda>cfg. Inr
       \<lparr>w_sessions = Map.empty, w_now = now, w_alloc = 0, w_junk = junk, w_env = proxy_new cfg rand\<rparr>)"

definition server_main ::
  "bool \<Rightarrow> (nat \<Rightarrow> SLogContent) \<Rightarrow> WLog
   \<Rightarrow> (byte list \<Rightarrow> byte list option) \<Rightarrow> (byte list \<Rightarrow> (string \<Rightarrow> int option) option) \<Rightarrow> rand_state \<Rightarrow> int \<Rightarrow> (nat \<Rightarrow> memory)
   \<Rightarrow> u64 \<Rightarrow> u64 \<Rightarrow> int \<Rightarrow> int \<Rightarrow> default_logic \<Rightarrow> (WLog \<times> proxy_world) res" where
  "server_main win32 slots stale read_all parse rand now junk clock frame_count interval timeout logic =
     rbind (main_log win32 slots (ascii ''log'') stale) (\<lambda>l.
     rbind (proxy_instance read_all parse rand now junk) (\<lambda>w.
     rbind (start_proxy clock frame_count interval timeout logic w) (\<lambda>w. Inr (l, w))))"

section \<open>The log is ready\<close>

lemma main_log_ready:
  assumes "length name < MAX_STR_LEN"
  shows "\<exists>l. main_log win32 slots name stale = Inr l \<and> log_ok l \<and> \<not> wl_bUseWorkThread l
    \<and> (\<forall>b. bit (wl_nLogMask l) b \<longleftrightarrow> b = 1 \<or> b = 3)"
proof -
  let ?path = "ascii ''F:'' @ [92] @ ascii ''ProxyLog'' @ [92]"
  have "\<exists>l. Init win32 slots ?path name False 1 (wlog_new stale) = Inr l \<and> \<not> wl_bUseWorkThread l \<and> wl_nLogMask l = 0"
    by (cases win32) (simp_all add: Init_def Let_def CreateLogPath_def slash_path_def c_string_def c_copy_def wlog_new_def ascii_def)
  then obtain l where l: "Init win32 slots ?path name False 1 (wlog_new stale) = Inr l" "\<not> wl_bUseWorkThread l" "wl_nLogMask l = 0"
    by blast
  have "log_ok l" using l(1) log_ok_init [OF assms] by (rule yieldsD)
  moreover have "main_log win32 slots name stale = Inr (l\<lparr>wl_nLogMask := push_bit 1 1 OR push_bit 3 1\<rparr>)"
    unfolding main_log_def l(1) using l(3) by (simp add: AppendLogMask_def log_bit_def)
  moreover have "bit (push_bit 1 1 OR push_bit 3 1 :: u32) b \<longleftrightarrow> b = 1 \<or> b = 3" for b
    unfolding bit_or_iff bit_push_bit_iff bit_1_iff by auto
  ultimately show ?thesis using l(2) by simp
qed

section \<open>The proxy is started\<close>

lemma start_reachable:
  assumes i: "proxy_init w" and c: "sane_config (pm_config (w_env w))"
  shows "\<exists>w'. start_proxy cl f i t d w = Inr w' \<and> proxy_reachable fuel z w' \<and> pm_config (w_env w') = pm_config (w_env w)
    \<and> pm_accepting (w_env w') = Some 0"
proof -
  let ?w = "upd_env (\<lambda>e. e\<lparr>pm_session_excutor := executor_start (pm_session_excutor e),
      pm_acceptor_executor := executor_start (pm_acceptor_executor e), pm_clean_up_timer := True\<rparr>) w"
  have f: "fitted (pm_config (w_env w)) ?w" and n: "pm_next_session (w_env ?w) = 0"
    using i by (auto simp: proxy_init_def proxy_new_def fitted_def upd_env_def executor_start_def executor_new_def)
  have "succeeds (start_proxy cl f i t d w)"
    unfolding start_proxy_def Let_def by (rule succeeds_accept [OF f]) (use c in \<open>simp add: sane_config_def\<close>)
  then obtain w' where w': "start_proxy cl f i t d w = Inr w'" by (auto simp: succeeds_def)
  have "fitted (pm_config (w_env w)) w'"
    using yieldsD [OF _ fitted_accept [OF f]] w' unfolding start_proxy_def Let_def by blast
  moreover have "pm_accepting (w_env w') = Some 0"
    using w' n by (auto simp: start_proxy_def accept_a_session_def Let_def rbind_eq_Inr upd_env_def modify_session_logic_def
        upd_session_Inr split: prod.splits)
  ultimately show ?thesis using w' reach_start [OF i w'] by (auto simp: fitted_def)
qed

text \<open>Events that can happen, one after the other, with peers that send nothing unacceptable.\<close>

fun well_behaved :: "nat \<Rightarrow> zlib \<Rightarrow> proxy_event list \<Rightarrow> proxy_world \<Rightarrow> bool" where
  "well_behaved fuel z [] w \<longleftrightarrow> True"
| "well_behaved fuel z (e # es) w \<longleftrightarrow> enabled e w \<and> acceptable e w
     \<and> (case proxy_handler fuel z e w of Inl f \<Rightarrow> True | Inr w' \<Rightarrow> well_behaved fuel z es w')"

lemma well_behaved_runs:
  "proxy_reachable fuel z w \<Longrightarrow> sane_config (pm_config (w_env w)) \<Longrightarrow> well_behaved fuel z es w \<Longrightarrow>
   \<exists>w'. proxy_run fuel z es w = Inr w'"
proof (induction es arbitrary: w)
  case (Cons e es)
  obtain k where ok: "world_ok k w" using proxy_reachable_inv [OF Cons.prems(1)] by (auto simp: proxy_inv_def)
  note f = fitted_reachable [OF Cons.prems(1)]
  have en: "enabled e w" and a: "acceptable e w" using Cons.prems(3) by simp_all
  obtain v where v: "proxy_handler fuel z e w = Inr v"
    using succeeds_handler [OF ok f Cons.prems(2) en a] by (auto simp: succeeds_def)
  have "proxy_reachable fuel z v" using reach_step [OF Cons.prems(1) proxy_step.step [OF en v]] .
  moreover have "pm_config (w_env v) = pm_config (w_env w)"
    using yieldsD [OF v fitted_handler [OF proxy_reachable_inv [OF Cons.prems(1)] f en]] by (simp add: fitted_def)
  moreover have "well_behaved fuel z es v" using Cons.prems(3) v by simp
  ultimately obtain w' where "proxy_run fuel z es v = Inr w'" using Cons.IH [of v] Cons.prems(2) by auto
  then show ?case using en v by simp
qed simp

section \<open>Properties\<close>


text \<open>The values of \<open>proxy_config.json\<close>.\<close>

definition sample_json :: "string \<Rightarrow> int option" where
  "sample_json = [''listened_port'' \<mapsto> 10026, ''session_thread_num'' \<mapsto> 4, ''tick_interval'' \<mapsto> 1000,
     ''keep_alive_timeout'' \<mapsto> 10000, ''max_send_delay'' \<mapsto> 200]"


end
