(* ===== verification/Linked_Traffic.thy ===== *)
theory Linked_Traffic
  imports Handshake
begin

text \<open>
  A server's end and the proxy over a whole connection: the request, the answer, and any number of
  messages after it. The connection hands over each write as one read. Every message is
  taken by the logic of the linked session, and the sequence numbers of the two ends go up together.
\<close>

section \<open>One message\<close>

text \<open>
  The linked session while it waits for its next packet, with the sequence number it has counted to.
\<close>

definition server_ready :: "nat \<Rightarrow> u32 \<Rightarrow> proxy_world \<Rightarrow> bool" where
  "server_ready sid n w \<longleftrightarrow> (\<exists>s sl. w_sessions w sid = Some s \<and> s_logic s = Some (Server sl) \<and> sl_seq sl = n
     \<and> s_state s = CONNECTING \<and> s_reads s \<noteq> [] \<and> recv_content (s_recv s) = [])"

text \<open>A read of one packet that the logic of the session takes: it unwraps it and disposes of it.\<close>

definition takes :: "nat \<Rightarrow> zlib \<Rightarrow> nat \<Rightarrow> byte list \<Rightarrow> byte list \<Rightarrow> proxy_world \<Rightarrow> proxy_world \<Rightarrow> bool" where
  "takes fuel z sid bs data w w' \<longleftrightarrow> enabled (ReadDone sid False bs) w
     \<and> read_done (proxy_vt fuel z) sid False bs w = Inr w'
     \<and> (\<exists>h db v db' v'. split_frames bs = ([(h, data)], []) \<and> get_logic sid v = get_logic sid w \<and> w_env v = w_env w
          \<and> hand_over (proxy_vt fuel z) sid h (with_body db h data) v = Inr ((Some True, db'), v')
          \<and> get_logic sid v' = get_logic sid w' \<and> w_env w' = w_env v')"

fun takes_all :: "nat \<Rightarrow> zlib \<Rightarrow> nat \<Rightarrow> (byte list \<times> byte list) list \<Rightarrow> proxy_world \<Rightarrow> proxy_world \<Rightarrow> bool" where
  "takes_all fuel z sid [] w w' \<longleftrightarrow> w' = w"
| "takes_all fuel z sid ((bs, data) # ps) w w' \<longleftrightarrow> (\<exists>v. takes fuel z sid bs data w v \<and> takes_all fuel z sid ps v w')"

lemma takes_step: "takes fuel z sid bs data w w' \<Longrightarrow> proxy_step fuel z w (ReadDone sid False bs) w'"
  by (rule proxy_step.step) (simp_all add: takes_def)

lemma message_hand_over:
  assumes m: "managed k w" and s: "w_sessions w sid = Some s" "s_logic s = Some (Server sl)"
    and db: "block_ok db" "length data = unat (head_len h)" "length data \<le> 65525" "data \<noteq> []"
    and acc: "head_seq h = sl_seq sl + 1" "get_mask (head_bytes h) data 0 = 0" "get_cmd h \<noteq> cmd_code Commands_BroadCast"
  shows "\<exists>db' w'. hand_over (proxy_vt fuel z) sid h (with_body db h data) w = Inr ((Some True, db'), w')
    \<and> w_env w' = w_env w \<and> w_sessions w' sid = Some (s\<lparr>s_logic := Some (Server (sl\<lparr>sl_seq := sl_seq sl + 1\<rparr>))\<rparr>)"
proof -
  obtain ub w1 where tb: "temp_buffer w = (ub, w1)" by fastforce
  note ub = pool_buffer_block [OF tb] and w1 = pool_buffer_world [OF tb]
  have s1: "w_sessions w1 sid = Some s" using w1 s(1) by simp
  then have g: "get_logic sid w1 = Inr (Server sl)" using s(2) by (simp add: get_logic_def get_session_def)
  let ?r = "ub\<lparr>buf_offset := prefix_size (Server sl)\<rparr>" and ?l = "sl\<lparr>sl_seq := sl_seq sl + 1\<rparr>"
  let ?w = "put_session sid (s\<lparr>s_logic := Some (Server ?l)\<rparr>) w1"
  have "unat (buf_offset ?r) + length data \<le> unat (buf_SIZE ?r)" using ub db(3) by simp
  from server_unwrap_verdict [OF s1 block_body(1) [OF db(1,2)] this, of sl] acc(1,2) db(4)
  obtain r' where u: "server_unwrap sid sl (with_body db h data) h ?r w1 = Inr ((True, with_body db h data, r'), ?w)"
    "same_block ?r r'" by auto
  have c: "pm_client_sessions (w_env ?w) = []" using managed_clients [OF m] w1 by simp
  have "\<exists>x. buf_get r' (buffer_at r' 0) 4 = Inr x" using u(2) ub by (simp add: buf_get_def same_block_def)
  then have st: "server_store fuel z ?l r' h ?w = Inr (True, ?w)"
    using acc(3) c unfolding server_store_def Let_def send_to_client_def by (auto simp: hm_try_get_def)
  have g2: "get_logic sid ?w = Inr (Server ?l)" by (simp add: get_logic_def get_session_def)
  have "hand_over (proxy_vt fuel z) sid h (with_body db h data) w = Inr ((Some True, with_body db h data), ?w)"
    unfolding hand_over_def tb Let_def prod.case proxy_vt_def vtable.simps g rbind_Inr proxy_unwrap.simps u(1)
      not_True_eq_False if_False g2 proxy_store.simps st ..
  then show ?thesis using w1 by simp
qed

lemma message_read:
  assumes reach: "proxy_reachable fuel z w" and rdy: "server_ready sid n w"
    and p: "one_packet bs h data" "data \<noteq> []" "length data \<le> 65525"
    and acc: "head_seq h = n + 1" "get_cmd h \<noteq> cmd_code Commands_BroadCast"
  shows "\<exists>w'. takes fuel z sid bs data w w' \<and> server_ready sid (n + 1) w'"
proof -
  obtain s sl where s: "w_sessions w sid = Some s" "s_logic s = Some (Server sl)" "sl_seq sl = n" "s_state s = CONNECTING"
    "s_reads s \<noteq> []" "recv_content (s_recv s) = []" using rdy by (auto simp: server_ready_def)
  obtain k where ok: "world_ok k w" using proxy_reachable_inv [OF reach] by (auto simp: proxy_inv_def)
  have split: "split_frames bs = ([(h, data)], [])" and mask: "get_mask (head_bytes h) data 0 = 0"
    using p(1) by (simp_all add: one_packet_def)
  note en = waits_enabled [OF reach s(1,5,6) p(1,3)]
  let ?sl = "sl\<lparr>sl_seq := n + 1\<rparr>"
  let ?P = "\<lambda>v' :: proxy_world. \<exists>db v db'. get_logic sid v = get_logic sid w \<and> w_env v = w_env w
      \<and> hand_over (proxy_vt fuel z) sid h (with_body db h data) v = Inr ((Some True, db'), v')
      \<and> (\<exists>t. w_sessions v' sid = Some t \<and> s_logic t = Some (Server ?sl) \<and> s_state t = CONNECTING)"
  have "\<exists>v1 t1 w' t'. ?P v1 \<and> w_sessions v1 sid = Some t1 \<and> read_done (proxy_vt fuel z) sid False bs w = Inr w'
    \<and> w_env w' = w_env v1 \<and> w_sessions w' sid = Some t' \<and> reads_on t1 t'"
  proof (rule read_one_done [where P = ?P, OF ok fitted_reachable [OF reach] s(1) en s(6) split])
    fix db and v :: proxy_world and t r
    assume db: "block_ok db" and m: "managed k v" and e: "w_env v = w_env w" and t: "w_sessions v sid = Some t"
      "t = s\<lparr>s_reads := [], s_last_recv_time := w_now w, s_recv := r\<rparr>" and len: "length data = unat (head_len h)"
    have l: "s_logic t = Some (Server sl)" "head_seq h = sl_seq sl + 1" using t(2) s(2,3) acc(1) by simp_all
    from message_hand_over [OF m t(1) l(1) db len p(3,2) l(2) mask acc(2), of fuel z] obtain db' v' where
      "hand_over (proxy_vt fuel z) sid h (with_body db h data) v = Inr ((Some True, db'), v')"
      "w_sessions v' sid = Some (t\<lparr>s_logic := Some (Server ?sl)\<rparr>)" using s(3) by auto
    moreover have "get_logic sid v = get_logic sid w" using t s(1) by (simp add: get_logic_def get_session_def)
    moreover have "s_state t = CONNECTING" using t(2) s(4) by simp
    ultimately show "\<exists>x db' v1. hand_over (proxy_vt fuel z) sid h (with_body db h data) v = Inr ((x, db'), v1)
        \<and> x \<noteq> Some False \<and> ?P v1" using e by fastforce
  qed
  then obtain v1 t1 w' t' where r: "?P v1" "w_sessions v1 sid = Some t1" "read_done (proxy_vt fuel z) sid False bs w = Inr w'"
    "w_env w' = w_env v1" "w_sessions w' sid = Some t'" "reads_on t1 t'" by blast
  have t1: "s_logic t1 = Some (Server ?sl)" "s_state t1 = CONNECTING" using r(1,2) by auto
  note t' = reads_onD [OF r(6)]
  have "get_logic sid v1 = get_logic sid w'" using r(2,5) t' by (simp add: get_logic_def get_session_def)
  then have "takes fuel z sid bs data w w'" unfolding takes_def using en r(1,3,4) split by metis
  moreover have "server_ready sid (n + 1) w'" unfolding server_ready_def using r(5) t1 t' by auto
  ultimately show ?thesis by blast
qed

section \<open>Many messages\<close>

text \<open>The messages a server sends, one after the other: the receiver's name and the data.\<close>

fun send_all :: "(u32 \<times> byte list) list \<Rightarrow> active_world \<Rightarrow> active_world res" where
  "send_all [] w = Inr w"
| "send_all ((t, data) # ms) w =
     rbind (active_send t (list_reader data) (of_nat (length data)) w) (send_all ms)"

abbreviation message_bytes :: "u32 \<times> byte list \<Rightarrow> byte list" where
  "message_bytes m \<equiv> write_uint32 (fst m) @ snd m"

text \<open>The server's end while it may send: connected, its request answered.\<close>

definition sender_ready :: "nat \<Rightarrow> active_logic \<Rightarrow> byte list list \<Rightarrow> active_world \<Rightarrow> bool" where
  "sender_ready a l out w \<longleftrightarrow> am_session (w_env w) = Some a \<and> al_authentication l \<noteq> BEFORE_VERIFY
     \<and> (\<exists>s. w_sessions w a = Some s \<and> s_state s = CONNECTING \<and> s_logic s = Some l \<and> map pw_bytes (s_writes s) = out)"

lemma send_one_ready:
  assumes rdy: "sender_ready a l out w" and n: "length data \<le> 65521"
  shows "\<exists>w' bs h. active_send t (list_reader data) (of_nat (length data)) w = Inr w'
    \<and> sender_ready a (l\<lparr>al_seq := al_seq l + 1\<rparr>) (out @ [bs]) w' \<and> one_packet bs h (write_uint32 t @ data)
    \<and> head_seq h = al_seq l + 1 \<and> get_cmd h = cmd_code Commands_RoutingTransparent"
proof -
  obtain s where s: "am_session (w_env w) = Some a" "w_sessions w a = Some s" "s_state s = CONNECTING" "s_logic s = Some l"
    "map pw_bytes (s_writes s) = out" "al_authentication l \<noteq> BEFORE_VERIFY" using rdy by (auto simp: sender_ready_def)
  have u: "unat (of_nat (length data) :: u16) = length data" using n by (intro unat_of_nat_small) simp
  have "list_reader data 0 (unat (of_nat (length data) :: u16)) = Inr data" "length data = unat (of_nat (length data) :: u16)"
    "unat (of_nat (length data) :: u16) \<le> 65521" using n by (simp_all only: u) (simp_all add: list_reader_def)
  from active_send_one [where rd = "list_reader data" and data = data and len = "of_nat (length data)" and t = t, OF s(1-4) this]
  show ?thesis using s(1,3,5,6) unfolding sender_ready_def by fastforce
qed

text \<open>Two ends in step stay in step, and every message arrives.\<close>

lemma linked_talk:
  assumes "proxy_reachable fuel z w" "server_ready sid (al_seq l) w" "sender_ready a l out wa"
    and "\<forall>m \<in> set ms. length (snd m) \<le> 65521"
  shows "\<exists>wa' bss w'. send_all ms wa = Inr wa' \<and> length bss = length ms
    \<and> sender_ready a (l\<lparr>al_seq := al_seq l + of_nat (length ms)\<rparr>) (out @ bss) wa'
    \<and> takes_all fuel z sid (zip bss (map message_bytes ms)) w w' \<and> server_ready sid (al_seq l + of_nat (length ms)) w'"
  using assms
proof (induction ms arbitrary: w wa l out)
  case (Cons m ms)
  obtain t data where m: "m = (t, data)" by (cases m)
  have len: "length data \<le> 65521" using Cons.prems(4) m by simp
  from send_one_ready [OF Cons.prems(3) len, of t] obtain wa1 bs h where
    a: "active_send t (list_reader data) (of_nat (length data)) wa = Inr wa1"
    "sender_ready a (l\<lparr>al_seq := al_seq l + 1\<rparr>) (out @ [bs]) wa1" "one_packet bs h (write_uint32 t @ data)"
    "head_seq h = al_seq l + 1" "get_cmd h = cmd_code Commands_RoutingTransparent" by blast
  have d: "write_uint32 t @ data \<noteq> []" "length (write_uint32 t @ data) \<le> 65525" using len by (auto simp: write_uint32_def)
  have nb: "get_cmd h \<noteq> cmd_code Commands_BroadCast" using a(5) by simp
  obtain w1 where w1: "takes fuel z sid bs (write_uint32 t @ data) w w1" "server_ready sid (al_seq l + 1) w1"
    using message_read [OF Cons.prems(1,2) a(3) d a(4) nb] by blast
  have "proxy_reachable fuel z w1" by (rule reach_step [OF Cons.prems(1) takes_step [OF w1(1)]])
  from Cons.IH [OF this _ a(2)] w1(2) Cons.prems(4) obtain wa' bss w' where
    r: "send_all ms wa1 = Inr wa'" "length bss = length ms"
    "sender_ready a (l\<lparr>al_seq := al_seq l + of_nat (Suc (length ms))\<rparr>) (out @ bs # bss) wa'"
    "takes_all fuel z sid (zip bss (map message_bytes ms)) w1 w'" "server_ready sid (al_seq l + of_nat (Suc (length ms))) w'"
    by (auto simp: add.assoc)
  show ?case
    by (rule exI [of _ wa'], rule exI [of _ "bs # bss"], rule exI [of _ w']) (use r a(1) w1(1) m in auto)
qed simp

section \<open>The whole connection\<close>

text \<open>C4: a server's end and the proxy from the request on. The server's request links the session; the answer
  reaches the server's end; and whatever messages the server sends then, however many and of whatever
  lengths up to the limit, each is one packet that the logic of the linked session takes, the receiver's
  name before the data, unchanged and in order. Both ends have then counted the same number of packets.\<close>

theorem linked_server_is_heard:
  assumes "proxy_reachable fuel z w" "w_sessions w sid = Some s" "s_logic s = Some (Default d)"
    and "s_reads s \<noteq> []" "recv_content (s_recv s) = []" "s_state s = CONNECTING" "s_open s"
    and "hm_try_get (pm_un_managed_sessions (w_env w)) (s_uuid s) = Some sid"
    and "\<not> hm_contains_key (pm_server_sessions (w_env w)) (s_uuid s)"
    and "w_sessions wa a = Some sa" "s_state sa = CONNECTING" "s_logic sa = Some l" "al_session_holder l = Some a"
    and "length (si_platform (al_server_info l)) \<le> 65000"
    and "dl_authentication d = BEFORE_VERIFY" "al_authentication l = BEFORE_VERIFY" "dl_seq d = al_seq l"
    and "am_session (w_env wa) = Some a" "s_recv sa = Some (name, buf)" "recv_ok buf" "recv_bytes buf = []"
    and "s_reads sa = [\<lparr>pr_buffer = name, pr_pos = buf_length buf, pr_room = room\<rparr>]"
    and "\<forall>m \<in> set ms. length (snd m) \<le> 65521"
  shows "\<exists>wa1 sa1 req w1 s1 ans wa2 wa3 sa3 bss w2.
       send_verify_authentication l wa = Inr wa1 \<and> w_sessions wa1 a = Some sa1
     \<and> map pw_bytes (s_writes sa1) = map pw_bytes (s_writes sa) @ [req]
     \<and> read_done (proxy_vt fuel z) sid False req w = Inr w1 \<and> w_sessions w1 sid = Some s1
     \<and> map pw_bytes (s_writes s1) = map pw_bytes (s_writes s) @ [ans]
     \<and> read_done active_vt a False ans wa1 = Inr wa2
     \<and> send_all ms wa2 = Inr wa3 \<and> w_sessions wa3 a = Some sa3 \<and> length bss = length ms
     \<and> map pw_bytes (s_writes sa3) = map pw_bytes (s_writes sa) @ [req] @ bss
     \<and> takes_all fuel z sid (zip bss (map message_bytes ms)) w1 w2
     \<and> server_ready sid (al_seq l + 1 + of_nat (length ms)) w2
     \<and> (\<exists>l3. s_logic sa3 = Some l3 \<and> al_seq l3 = al_seq l + 1 + of_nat (length ms))"
proof -
  let ?l1 = "l\<lparr>al_seq := al_seq l + 1\<rparr>" and ?l2 = "l\<lparr>al_seq := al_seq l + 1, al_authentication := VERIFY_FAILED\<rparr>"
  from send_verify_packet [OF assms(10-14)] assms(16) obtain wa1 req h sa1 where
    a1: "send_verify_authentication l wa = Inr wa1" "w_sessions wa1 a = Some sa1"
      "s_writes sa1 = s_writes sa @ [\<lparr>pw_bytes = req, pw_callback = NoCallback\<rparr>]" "s_logic sa1 = Some ?l1"
      "one_packet req h (request_bytes (al_server_info l))" "head_seq h = al_seq l + 1" "s_state sa1 = s_state sa"
      "s_recv sa1 = s_recv sa" "s_reads sa1 = s_reads sa" "w_env wa1 = w_env wa" "get_cmd h = cmd_code Commands_AuthenticationAAA"
    by auto
  have "head_seq h = dl_seq d + 1" using a1(6) assms(17) by simp
  from request_read [OF assms(1-9) a1(5) assms(14,15) this a1(11)] obtain w1 s1 where
    w1: "read_done (proxy_vt fuel z) sid False req w = Inr w1" "w_sessions w1 sid = Some s1"
      "linked_session sid (al_seq l + 1) (al_server_info l) d s s1" "recv_content (s_recv s1) = []" "s_reads s1 \<noteq> []"
    using assms(17) by auto
  obtain ans h' data where ans: "s_writes s1 = s_writes s @ [\<lparr>pw_bytes = ans, pw_callback = NoCallback\<rparr>]"
      "one_packet ans h' data" "linked_answer data (dl_rc4_info d) (dl_target_uid d)"
    using w1(3) unfolding linked_session_def by blast
  have key: "RC4_KEY_LEN \<le> length (rc4_key (dl_rc4_info d))"
    using fitted_session [OF fitted_reachable [OF assms(1)] assms(2)] assms(3) by (simp add: fit_def)
  have "s_recv sa1 = Some (name, buf)" "al_authentication ?l1 = BEFORE_VERIFY"
    "s_reads sa1 = \<lparr>pr_buffer = name, pr_pos = buf_length buf, pr_room = room\<rparr> # []" using a1 assms(16,19,22) by simp_all
  from answer_read [OF a1(2,4) this(2,1) assms(20,21) this(3) ans(2,3) key] obtain wa2 sa2 where
    a2: "read_done active_vt a False ans wa1 = Inr wa2" "w_sessions wa2 a = Some sa2" "s_logic sa2 = Some ?l2"
      "s_state sa2 = s_state sa1" "s_writes sa2 = s_writes sa1" "w_env wa2 = w_env wa1" by auto
  have "sender_ready a ?l2 (map pw_bytes (s_writes sa) @ [req]) wa2"
    using a2 a1 assms(11,18) by (simp add: sender_ready_def)
  moreover have "server_ready sid (al_seq ?l2) w1"
    using w1 by (auto simp: server_ready_def linked_session_def linked_logic_def)
  moreover have "proxy_reachable fuel z w1"
    by (rule reach_step [OF assms(1) proxy_step.step [where e = "ReadDone sid False req"]])
      (use waits_enabled [OF assms(1,2,4,5) a1(5)] w1(1) assms(14) in simp_all)
  ultimately obtain wa3 bss w2 where t: "send_all ms wa2 = Inr wa3" "length bss = length ms"
    "sender_ready a (?l2\<lparr>al_seq := al_seq ?l2 + of_nat (length ms)\<rparr>) ((map pw_bytes (s_writes sa) @ [req]) @ bss) wa3"
    "takes_all fuel z sid (zip bss (map message_bytes ms)) w1 w2" "server_ready sid (al_seq ?l2 + of_nat (length ms)) w2"
    using linked_talk [of fuel z w1 sid ?l2 a _ wa2 ms] assms(23) by blast
  obtain sa3 where "w_sessions wa3 a = Some sa3" "s_logic sa3 = Some (?l2\<lparr>al_seq := al_seq ?l2 + of_nat (length ms)\<rparr>)"
    "map pw_bytes (s_writes sa3) = map pw_bytes (s_writes sa) @ [req] @ bss" using t(3) by (auto simp: sender_ready_def)
  with a1(1-3) w1(1,2) ans(1) a2(1) t(1,2,4,5) show ?thesis by fastforce
qed

lemma linked_server_is_heard_witness:
  "\<exists>w (w1 :: proxy_world) w2 req bss. sample_run [Accepted False 9] = Inr w
     \<and> read_done (proxy_vt 5 sample_zlib) 0 False req w = Inr w1
     \<and> takes_all 5 sample_zlib 0 (zip bss [write_uint32 5 @ [7, 8], write_uint32 6 @ []]) w1 w2 \<and> length bss = 2
     \<and> server_ready 0 3 w2"
proof -
  let ?l = "sample_active_logic\<lparr>al_session_holder := Some 0\<rparr>"
  let ?s = "sample_active_peer\<lparr>s_logic := Some ?l, s_recv := Some (0, sample_storage_block),
    s_reads := [\<lparr>pr_buffer = 0, pr_pos = 0, pr_room = ONCE_BUFFER_SIZE\<rparr>]\<rparr>"
  let ?wa = "sample_linked\<lparr>w_sessions := [0 \<mapsto> ?s]\<rparr>"
  let ?ms = "[(5, [7, 8]), (6, [])] :: (u32 \<times> byte list) list"
  obtain w s d where r: "sample_run [Accepted False 9] = Inr w" "w_sessions w 0 = Some s" "s_logic s = Some (Default d)"
      "s_reads s \<noteq> []" "recv_content (s_recv s) = []" "s_state s = CONNECTING" "s_open s"
      "hm_try_get (pm_un_managed_sessions (w_env w)) (s_uuid s) = Some 0"
      "\<not> hm_contains_key (pm_server_sessions (w_env w)) (s_uuid s)" "dl_authentication d = BEFORE_VERIFY" "dl_seq d = 0"
    using sample_waits by (auto simp: hm_contains_key_def)
  have l: "w_sessions ?wa 0 = Some ?s" "s_state ?s = CONNECTING" "s_logic ?s = Some ?l" "al_session_holder ?l = Some 0"
    "length (si_platform (al_server_info ?l)) \<le> 65000" "al_authentication ?l = BEFORE_VERIFY" "dl_seq d = al_seq ?l"
    "am_session (w_env ?wa) = Some 0" "s_recv ?s = Some (0, sample_storage_block)" "recv_ok sample_storage_block"
    "recv_bytes sample_storage_block = []"
    "s_reads ?s = [\<lparr>pr_buffer = 0, pr_pos = buf_length sample_storage_block, pr_room = ONCE_BUFFER_SIZE\<rparr>]"
    "\<forall>m \<in> set ?ms. length (snd m) \<le> 65521" "al_seq ?l = 0"
    using r(11) by (simp_all add: sample_active_peer_def sample_active_logic_def sample_info_def sample_linked_def
        sample_storage_block_def recv_ok_def recv_bytes_def)
  from linked_server_is_heard [OF sample_run_reachable [OF r(1)] r(2-9) l(1-5) r(10) l(6-13)]
  obtain w1 w2 req bss where c: "read_done (proxy_vt 5 sample_zlib) 0 False req w = Inr w1"
    "takes_all 5 sample_zlib 0 (zip bss (map message_bytes ?ms)) w1 w2" "length bss = length ?ms"
    "server_ready 0 (al_seq ?l + 1 + of_nat (length ?ms)) w2" by blast
  show ?thesis
    by (rule exI [of _ w], rule exI [of _ w1], rule exI [of _ w2], rule exI [of _ req], rule exI [of _ bss])
      (use c r(1) l(14) in simp)
qed

end
