(* ===== verification/Active_Faults.thy ===== *)
theory Active_Faults
  imports Handshake
begin

text \<open>
  What breaks a server's end: a message too short for the sender's name in front of it. Its length is
  reduced by the four bytes of the name without a look, wraps around, and wraps back in the test
  whether the storage has room; the copy then runs off the received block.
\<close>

section \<open>A read that faults\<close>

text \<open>A read of one packet on an empty buffer faults when handing the packet over does, whatever the logic.\<close>

lemma read_single_faults:
  assumes s: "w_sessions w sid = Some s" "s_recv s = Some (name, b)" "recv_ok b" "recv_bytes b = []"
    and rd: "s_reads s = \<lparr>pr_buffer = name, pr_pos = buf_length b, pr_room = n\<rparr> # rest"
      "length bs \<le> unat (ONCE_BUFFER_SIZE - buf_length b)"
    and bs: "split_frames bs = ([(h, body)], [])"
    and ho: "\<And>db v t. block_ok db \<Longrightarrow> w_env v = w_env w \<Longrightarrow> w_sessions v sid = Some t \<Longrightarrow> s_logic t = s_logic s \<Longrightarrow>
        length body = unat (head_len h) \<Longrightarrow> hand_over vt sid h (with_body db h body) v = Inl flt"
  shows "read_done vt sid False bs w = Inl flt"
proof -
  obtain b' where dl: "read_done vt sid False bs w
      = pick_entire_msgs vt sid (put_session sid (s\<lparr>s_reads := rest, s_last_recv_time := w_now w, s_recv := Some (name, b')\<rparr>) w)"
      "recv_ok b'" "recv_bytes b' = bs" using read_done_picks [OF s(1-3) rd, of vt False] s(4) by auto
  let ?t = "s\<lparr>s_reads := rest, s_last_recv_time := w_now w, s_recv := Some (name, b')\<rparr>"
  let ?v = "put_session sid ?t w"
  note v = dl(1)
  obtain db v0 where tb: "temp_buffer ?v = (db, v0)" by fastforce
  have t0: "w_sessions v0 sid = Some ?t" "w_env v0 = w_env w"
    using pool_buffer_world [OF tb] by (simp_all add: put_session_def)
  have db: "block_ok db" using pool_buffer_block [OF tb] by (simp add: block_ok_def)
  have r: "s_recv ?t = Some (name, b')" "split_frames (recv_bytes b') = ([(h, body)], [])" using dl(3) bs by simp_all
  have len: "length body = unat (head_len h)" using split_frames_bytes [of bs] bs by (simp add: frame_ok_def)
  have l: "s_logic ?t = s_logic s" by simp
  have "pick_a_entire_msg vt sid db v0 = Inl flt"
    unfolding pick_frame(1) [OF t0(1) r(1) dl(2) db r(2)] ho [OF db t0(2,1) l len] by simp
  then have "pick_loop pick_fuel vt sid db v0 = Inl flt" by (simp only: pick_loop_once rbind_Inl)
  then show ?thesis unfolding v pick_entire_msgs_def tb Let_def prod.case by simp
qed

section \<open>A message without a name\<close>

lemma short_message_store:
  assumes st: "al_storage l" "storage_ok (am_storage (w_env w))" "length (ring_list (am_storage (w_env w))) + 8 \<le> ring_room (am_storage (w_env w))"
    and b: "buf_SIZE b = ONCE_BUFFER_SIZE" "unat (buf_offset b) + 4 \<le> 65536" "0 < unat (buf_length b)" "unat (buf_length b) < 4"
  shows "active_store sid l b h w = Inl OutOfBounds"
proof -
  let ?r = "am_storage (w_env w)" and ?n = "buf_length b - session_uid_size"
  have n: "unat ?n = 2 ^ 64 + unat (buf_length b) - 4" using b(4) by (simp add: unat_sub_if')
  have "unat (8 + ?n) = 4 + unat (buf_length b)"
    unfolding unat_word_ariths(1) n using b(3,4) by (simp add: mod_if)
  then have room: "\<not> ring_full ?r (8 + ?n)" using ring_full_room [OF st(2), of "8 + ?n"] st(3) b(4) by simp
  obtain ub where g: "buf_get b (buffer_at b 0) 4 = Inr ub" using b(1,2) by (simp add: buf_get_def)
  have "write_block (store_header (read_uint32 ub) (get_cmd h) (ucast ?n) ?r)
      (b\<lparr>buf_offset := buf_offset b + session_uid_size, buf_length := ?n\<rparr>) = Inl OutOfBounds"
    by (rule write_block_short) (use store_header_ok [OF st(2)] b(1,3) n in simp_all)
  then show ?thesis
    using st(1) room unfolding active_store_def g rbind_Inr Let_def store_header_def by simp
qed

lemma short_message_hand_over:
  assumes s: "w_sessions w a = Some s" "s_logic s = Some l" "al_authentication l \<noteq> BEFORE_VERIFY" "al_storage l"
    and st: "storage_ok (am_storage (w_env w))" "length (ring_list (am_storage (w_env w))) + 8 \<le> ring_room (am_storage (w_env w))"
    and db: "block_ok db" "length data = unat (head_len h)" "data \<noteq> []" "length data < 4"
    and acc: "get_mask (head_bytes h) data 0 = 0" "get_cmd h \<noteq> cmd_code Commands_ConnectionConfirm"
  shows "hand_over active_vt a h (with_body db h data) w = Inl OutOfBounds"
proof -
  obtain ub w1 where tb: "temp_buffer w = (ub, w1)" by fastforce
  note ub = pool_buffer_block [OF tb] and w1 = pool_buffer_world [OF tb]
  have g: "get_logic a w1 = Inr l" using w1 s(1,2) by (simp add: get_logic_def get_session_def)
  let ?b = "with_body db h data" and ?r = "ub\<lparr>buf_offset := active_prefix_size l\<rparr>"
  note body = block_body [OF db(1,2)]
  have pre: "unat (active_prefix_size l) \<le> 15" by (simp add: active_prefix_size_def)
  have "unat (buf_offset ?r) + length data \<le> unat (buf_SIZE ?r)" using pre ub db(4) by simp
  moreover have lu: "unat (ucast (head_len h) :: u64) = length data" using db(2) by simp
  ultimately obtain b' where b': "buf_put ?r (buf_offset ?r) data = Inr b'" "same_block ?r (b'\<lparr>buf_length := ucast (head_len h)\<rparr>)"
    using put_payload [of ?r data "ucast (head_len h)"] by blast
  have nz: "head_len h \<noteq> 0" using db(2,3) by (auto simp: unat_eq_zero)
  have "active_unwrap a l ?b h ?r w1 = Inr ((True, ?b, b'\<lparr>buf_length := ucast (head_len h)\<rparr>), w1)"
    unfolding active_unwrap_def mask_ok_at [OF body(1)] rbind_Inr using acc s(3) nz body(1) b'(1) by simp
  moreover have "active_store a l (b'\<lparr>buf_length := ucast (head_len h)\<rparr>) h w1 = Inl OutOfBounds"
    by (rule short_message_store [OF s(4)])
      (use b'(2) ub st w1 lu db(3,4) pre in \<open>simp_all add: same_block_def\<close>)
  ultimately show ?thesis
    unfolding hand_over_def tb Let_def prod.case g rbind_Inr by (simp add: active_vt_def g)
qed

section \<open>Properties\<close>

text \<open>C14: A message of one to three bytes ends the server. On a connection whose request was answered and whose
  storage has room for another message header, a packet with the right checksum whose data is shorter
  than the sender's name that should be in front of it makes the copy into the storage run off the
  received block.\<close>

theorem short_message_crashes:
  assumes "w_sessions wa a = Some sa" "s_logic sa = Some l" "al_authentication l \<noteq> BEFORE_VERIFY" "al_storage l"
    and "storage_ok (am_storage (w_env wa))"
    and "length (ring_list (am_storage (w_env wa))) + 8 \<le> ring_room (am_storage (w_env wa))"
    and "s_recv sa = Some (name, buf)" "recv_ok buf" "recv_bytes buf = []"
    and "s_reads sa = \<lparr>pr_buffer = name, pr_pos = buf_length buf, pr_room = room\<rparr> # rest"
    and "one_packet bs h data" "data \<noteq> []" "length data < 4" "get_cmd h \<noteq> cmd_code Commands_ConnectionConfirm"
  shows "read_done active_vt a False bs wa = Inl OutOfBounds"
proof -
  have "buf_length buf = 0" using assms(9) by (metis length_recv_bytes list.size(3) unat_eq_0)
  then have room: "length bs \<le> unat (ONCE_BUFFER_SIZE - buf_length buf)"
    using one_packet_bytes(2) [OF assms(11)] assms(13) by simp
  have split: "split_frames bs = ([(h, data)], [])" and mask: "get_mask (head_bytes h) data 0 = 0"
    using assms(11) by (simp_all add: one_packet_def)
  show ?thesis
    by (rule read_single_faults [OF assms(1,7-10) room split], rule short_message_hand_over)
      (use assms mask in simp_all)
qed

lemma short_message_crashes_witness:
  "\<exists>bs. read_done active_vt 0 False bs (sample_linked\<lparr>w_sessions := [0 \<mapsto> sample_active_peer\<lparr>
       s_logic := Some (sample_active_logic\<lparr>al_authentication := VERIFY_FAILED, al_storage := True\<rparr>),
       s_recv := Some (0, sample_storage_block), s_reads := [\<lparr>pr_buffer = 0, pr_pos = 0, pr_room = ONCE_BUFFER_SIZE\<rparr>]\<rparr>]\<rparr>)
     = Inl OutOfBounds"
proof -
  let ?l = "sample_active_logic\<lparr>al_authentication := VERIFY_FAILED, al_storage := True\<rparr>"
  let ?sa = "sample_active_peer\<lparr>s_logic := Some ?l, s_recv := Some (0, sample_storage_block),
    s_reads := [\<lparr>pr_buffer = 0, pr_pos = 0, pr_room = ONCE_BUFFER_SIZE\<rparr>]\<rparr>"
  let ?wa = "sample_linked\<lparr>w_sessions := [0 \<mapsto> ?sa]\<rparr>"
  let ?h = "seal_head (get_a_head FRAME_KEY 2 0 (cmd_code Commands_RoutingTransparent) False 1) [7, 8]"
  have p: "one_packet (head_bytes ?h @ [7, 8]) ?h [7, 8]" by (rule sealed_one_packet) simp
  have st: "storage_ok (am_storage (w_env ?wa))" "ring_list (am_storage (w_env ?wa)) = []"
    using storage_ok_new [of "\<lambda>_. 0"] by (simp_all add: sample_linked_def active_mgr_new_def)
  have "w_sessions ?wa 0 = Some ?sa" "s_logic ?sa = Some ?l" "al_authentication ?l \<noteq> BEFORE_VERIFY" "al_storage ?l"
    "length (ring_list (am_storage (w_env ?wa))) + 8 \<le> ring_room (am_storage (w_env ?wa))"
    "s_recv ?sa = Some (0, sample_storage_block)" "recv_ok sample_storage_block" "recv_bytes sample_storage_block = []"
    "s_reads ?sa = \<lparr>pr_buffer = 0, pr_pos = buf_length sample_storage_block, pr_room = ONCE_BUFFER_SIZE\<rparr> # []"
    "[7, 8 :: byte] \<noteq> []" "length [7, 8 :: byte] < 4" "get_cmd ?h \<noteq> cmd_code Commands_ConnectionConfirm"
    using st by (simp_all add: storage_ok_def sample_storage_block_def recv_ok_def recv_bytes_def get_cmd_head)
  from short_message_crashes [OF this(1-4) st(1) this(5-9) p this(10-12)] show ?thesis by blast
qed

end
