(* ===== verification/Log_Macros.thy ===== *)
theory Log_Macros
  imports Log_Writer
begin

text \<open>
  \<open>LogUtils.hpp\<close>: the macros the rest of the program reports with. As the repository is set up
  (\<open>LOG_CONSOLE\<close> 1) they print to the console, in parts: place and time to the standard output, the
  message to the standard error. With \<open>LOG_CONSOLE\<close> 0 they write to the log, and \<open>LOG\<close> hands the finished
  line on as a format. What \<open>printf\<close> makes of a format is modelled for the directives the
  program uses; a directive without its argument is undefined behaviour, a fault.
\<close>

section \<open>Formats\<close>

datatype log_arg = Int_Arg u32 | Long_Arg u64 | Str_Arg "byte list"

definition print_int :: "int \<Rightarrow> byte list" where
  "print_int n = (if n < 0 then 45 # dec_digits (nat (- n)) else dec_digits (nat n))"

text \<open>\<open>d\<close>, \<open>u\<close>, \<open>s\<close>, \<open>lu\<close> (where a \<open>long\<close> has 64 bits) and \<open>llu\<close>; \<open>%%\<close> is a percent sign.\<close>

fun print_arg :: "byte list \<Rightarrow> log_arg \<Rightarrow> (byte list \<times> byte list) option" where
  "print_arg (c # fmt) (Int_Arg n) =
     (if c = 100 then Some (print_int (sint n), fmt) else if c = 117 then Some (dec_digits (unat n), fmt) else None)"
| "print_arg (c # fmt) (Long_Arg n) =
     (if take 2 (c # fmt) = [108, 117] then Some (dec_digits (unat n), drop 2 (c # fmt))
      else if take 3 (c # fmt) = [108, 108, 117] then Some (dec_digits (unat n), drop 3 (c # fmt)) else None)"
| "print_arg (c # fmt) (Str_Arg s) = (if c = 115 then Some (s, fmt) else None)"
| "print_arg [] a = None"

lemma print_arg_shorter: "print_arg fmt a = Some (s, fmt') \<Longrightarrow> length fmt' < length fmt"
  by (cases "(fmt, a)" rule: print_arg.cases) (auto split: if_splits)

function c_format :: "byte list \<Rightarrow> log_arg list \<Rightarrow> byte list res" where
  "c_format [] args = Inr []"
| "c_format (c # fmt) args =
     (if c \<noteq> 37 then rbind (c_format fmt args) (\<lambda>out. Inr (c # out))
      else if take 1 fmt = [37] then rbind (c_format (drop 1 fmt) args) (\<lambda>out. Inr (37 # out))
      else case args of [] \<Rightarrow> Inl OutOfBounds
        | a # args' \<Rightarrow>
          (case print_arg fmt a of None \<Rightarrow> Inl OutOfBounds
           | Some (s, fmt') \<Rightarrow> rbind (c_format fmt' args') (\<lambda>out. Inr (s @ out))))"
  by pat_completeness auto
termination
  by (relation "measure (length \<circ> fst)") (auto dest: print_arg_shorter)

declare c_format.simps [simp del]

lemma c_format_plain: "37 \<notin> set xs \<Longrightarrow> c_format (xs @ fmt) args = rbind (c_format fmt args) (\<lambda>out. Inr (xs @ out))"
proof (induction xs)
  case Nil
  then show ?case by (cases "c_format fmt args") simp_all
next
  case (Cons x xs)
  then show ?case by (cases "c_format fmt args") (simp_all add: c_format.simps(2))
qed

text \<open>A text without percent signs prints as it is; one with a directive needs an argument.\<close>

lemma c_format_text: "37 \<notin> set xs \<Longrightarrow> c_format xs args = Inr xs"
  using c_format_plain [of xs "[]" args] by (simp add: c_format.simps(1))

lemma c_format_directive: "37 \<notin> set xs \<Longrightarrow> c \<noteq> 37 \<Longrightarrow> c_format (xs @ [37, c] @ rest) [] = Inl OutOfBounds"
  using c_format_plain [of xs "[37, c] @ rest" "[]"] by (simp add: c_format.simps(2))

section \<open>To the console\<close>

record log_site =
  ls_timestamp :: "byte list"
  ls_function :: "byte list"
  ls_file :: "byte list"
  ls_line :: nat

record console =
  con_out :: "byte list"
  con_err :: "byte list"
  con_colour :: "u16 option"

definition to_out :: "byte list \<Rightarrow> console \<Rightarrow> console" where
  "to_out s c = c\<lparr>con_out := con_out c @ s\<rparr>"

definition to_err :: "byte list \<Rightarrow> log_arg list \<Rightarrow> console \<Rightarrow> console res" where
  "to_err fmt args c = rbind (c_format fmt args) (\<lambda>s. Inr (c\<lparr>con_err := con_err c @ s\<rparr>))"

text \<open>Where the message was printed, as the stream writes it.\<close>

definition site_text :: "log_site \<Rightarrow> byte list" where
  "site_text site = ls_function site @ ascii '', file: '' @ ls_file site @ ascii '', line: ''
     @ dec_digits (ls_line site) @ ascii '': ''"

abbreviation newline :: "byte list" where
  "newline \<equiv> [10]"

definition LOG_windows :: "log_site \<Rightarrow> byte list \<Rightarrow> log_arg list \<Rightarrow> console \<Rightarrow> console res" where
  "LOG_windows site fmt args c =
     rbind (to_err fmt args (to_out (ascii ''['' @ ls_timestamp site @ ascii '']    '') (c\<lparr>con_colour := Some (8 OR 4)\<rparr>))) (\<lambda>c.
     Inr (to_out (newline @ ascii ''in function: '' @ site_text site @ newline) c))"

definition LOG_NON_SENSITIVE_windows :: "log_site \<Rightarrow> byte list \<Rightarrow> log_arg list \<Rightarrow> console \<Rightarrow> console res" where
  "LOG_NON_SENSITIVE_windows site fmt args c =
     rbind (to_err fmt args (to_out (ascii ''['' @ ls_timestamp site @ ascii '']    '') (c\<lparr>con_colour := Some 7\<rparr>))) (\<lambda>c.
     Inr (to_out newline c))"

definition LOG_linux :: "log_site \<Rightarrow> byte list \<Rightarrow> log_arg list \<Rightarrow> console \<Rightarrow> console res" where
  "LOG_linux site fmt args c =
     rbind (to_err fmt args (to_out (ls_timestamp site @ ascii '' '') c)) (\<lambda>c.
     Inr (to_out (ascii ''    : function: '' @ site_text site @ newline) c))"

definition LOG_NON_SENSITIVE_linux :: "log_site \<Rightarrow> byte list \<Rightarrow> log_arg list \<Rightarrow> console \<Rightarrow> console res" where
  "LOG_NON_SENSITIVE_linux site fmt args c =
     rbind (to_err fmt args (to_out (ls_timestamp site @ ascii '' '') c)) (\<lambda>c.
     Inr (to_out (ascii ''    : function: '' @ site_text site @ newline) c))"

text \<open>Only the message goes to the standard error, all else to the standard output.\<close>

lemma console_message:
  assumes "c_format fmt args = Inr s"
  shows "\<exists>c'. LOG_linux site fmt args c = Inr c' \<and> con_err c' = con_err c @ s
    \<and> con_out c' = con_out c @ ls_timestamp site @ ascii ''     : function: '' @ site_text site @ newline"
    and "\<exists>c'. LOG_windows site fmt args c = Inr c' \<and> con_err c' = con_err c @ s"
  using assms
  by (simp_all add: LOG_linux_def LOG_windows_def to_err_def to_out_def ascii_def)

section \<open>To the log\<close>

text \<open>\<open>Trace\<close> with its format: the text is made only for a record that is enabled and has a slot.\<close>

definition trace_format :: "ELogType \<Rightarrow> log_time \<Rightarrow> byte list \<Rightarrow> log_arg list \<Rightarrow> WLog \<Rightarrow> WLog res" where
  "trace_format ty t fmt args l =
     rbind (trace_enabled (log_type_code ty) l) (\<lambda>on.
     if \<not> on \<or> fst (AllocFreeLogContent l) = None then Inr l
     else rbind (c_format fmt args) (\<lambda>s. Trace (log_type_code ty) t (Some s) l))"

definition log_line :: "log_site \<Rightarrow> byte list \<Rightarrow> byte list" where
  "log_line site buf = c_print MAX_STR_LEN
     (buf @ ascii ''; in function: ['' @ ls_function site @ ascii ''], file: ['' @ ls_file site @ ascii ''], line: [''
      @ dec_digits (ls_line site) @ ascii '']'')"

definition LOG_file :: "log_site \<Rightarrow> log_time \<Rightarrow> byte list \<Rightarrow> log_arg list \<Rightarrow> WLog \<Rightarrow> WLog res" where
  "LOG_file site t fmt args l =
     rbind (c_format fmt args) (\<lambda>s.
     trace_format ELT_Error t (log_line site (c_print MAX_STR_LEN s)) [] l)"

definition LOG_NON_SENSITIVE_file :: "log_time \<Rightarrow> byte list \<Rightarrow> log_arg list \<Rightarrow> WLog \<Rightarrow> WLog res" where
  "LOG_NON_SENSITIVE_file t fmt args l = trace_format ELT_Info t fmt args l"

text \<open>A line without percent signs is written as an error, cut to the record; what is not enabled is dropped.\<close>

lemma log_file_traces:
  assumes "c_format fmt args = Inr s" "37 \<notin> set (log_line site (c_print MAX_STR_LEN s))"
    and "trace_enabled (log_type_code ELT_Error) l = Inr on" "fst (AllocFreeLogContent l) \<noteq> None"
  shows "LOG_file site t fmt args l
    = (if on then Trace (log_type_code ELT_Error) t (Some (log_line site (c_print MAX_STR_LEN s))) l else Inr l)"
  using assms by (auto simp: LOG_file_def trace_format_def c_format_text)

text \<open>
  A message with a percent sign is formatted a second time, without arguments. So the failed request of a
  peer, whose platform name is logged, can make the process read arguments that are not there.
\<close>

lemma c_print_prefix: "length a < n \<Longrightarrow> \<exists>y. c_print n (a @ x) = a @ y"
  by (simp add: c_print_def)

lemma log_line_prefix:
  assumes "length p + 2 < MAX_STR_LEN"
  shows "\<exists>rest. log_line site (c_print MAX_STR_LEN (p @ [37, c] @ q)) = p @ [37, c] @ rest"
proof -
  have n: "length (p @ [37, c]) < MAX_STR_LEN" using assms by simp
  obtain y where "c_print MAX_STR_LEN (p @ [37, c] @ q) = (p @ [37, c]) @ y"
    using c_print_prefix [OF n, of q] by auto
  then show ?thesis unfolding log_line_def using c_print_prefix [OF n] by (simp only: append_assoc)
qed

theorem platform_name_is_a_format:
  assumes "trace_enabled (log_type_code ELT_Error) l = Inr True" "fst (AllocFreeLogContent l) \<noteq> None"
    and "platform = p @ [37, c] @ q" "37 \<notin> set p" "c \<noteq> 37" "length p < 200"
  shows "LOG_file site t (ascii ''platform: %s'') [Str_Arg platform] l = Inl OutOfBounds"
proof -
  let ?m = "ascii ''platform: ''"
  have m: "37 \<notin> set ?m" "length ?m = 10" by (simp_all add: ascii_def)
  have "ascii ''platform: %s'' = ?m @ [37, 115]" by (simp add: ascii_def)
  then have "c_format (ascii ''platform: %s'') [Str_Arg platform] = Inr (?m @ platform)"
    using c_format_plain [OF m(1), of "[37, 115]" "[Str_Arg platform]"] by (simp add: c_format.simps)
  moreover obtain rest where "log_line site (c_print MAX_STR_LEN (?m @ platform)) = (?m @ p) @ [37, c] @ rest"
    using log_line_prefix [of "?m @ p" site c q] assms(3,6) m(2) by auto
  moreover have "c_format ((?m @ p) @ [37, c] @ rest) [] = Inl OutOfBounds"
    using m(1) assms(4,5) by (intro c_format_directive) auto
  ultimately show ?thesis using assms(1,2) by (simp add: LOG_file_def trace_format_def)
qed

end
