(* ===== verification/Socket_Options.thy ===== *)
theory Socket_Options
  imports Log_Macros
begin

text \<open>
  \<open>init_options\<close> of \<open>basic_async_session.cpp\<close>: the options of a connected socket, set one by one; an error
  is reported and the next option is tried. What the system answers to each option is given.
\<close>

datatype socket_option = Keep_Alive bool | Linger bool nat | No_Delay bool | Reuse_Address bool

record socket =
  so_open :: bool
  so_refuses :: "socket_option \<Rightarrow> byte list option"
  so_options :: "socket_option list"

text \<open>One option: the source's four blocks differ in the option and in the line they report.\<close>

definition set_one_option ::
  "(nat \<Rightarrow> log_site) \<Rightarrow> socket_option \<times> nat \<Rightarrow> socket \<times> console \<Rightarrow> (socket \<times> console) res" where
  "set_one_option site ol sc =
     (case (ol, sc) of ((opt, line), (s, c)) \<Rightarrow>
        case so_refuses s opt of
          None \<Rightarrow> Inr (s\<lparr>so_options := so_options s @ [opt]\<rparr>, c)
        | Some message \<Rightarrow>
            rbind (LOG_linux (site line) (ascii ''set option error: %s'') [Str_Arg message] c) (\<lambda>c. Inr (s, c)))"

definition init_options :: "(nat \<Rightarrow> log_site) \<Rightarrow> socket \<times> console \<Rightarrow> (socket \<times> console) res" where
  "init_options site sc =
     (if so_open (fst sc)
      then rfold (set_one_option site) [(Keep_Alive False, 38), (Linger True 10, 44), (No_Delay True, 50), (Reuse_Address True, 56)] sc
      else Inr sc)"

text \<open>
  Every option is tried, in order, whatever became of those before it: the accepted ones are set, each
  refused one is reported once, and nothing can go wrong.
\<close>

lemma report_option: "c_format (ascii ''set option error: %s'') [Str_Arg m] = Inr (ascii ''set option error: '' @ m)"
proof -
  have "ascii ''set option error: %s'' = ascii ''set option error: '' @ [37, 115]" "37 \<notin> set (ascii ''set option error: '')"
    by (simp_all add: ascii_def)
  then show ?thesis using c_format_plain [of "ascii ''set option error: ''" "[37, 115]" "[Str_Arg m]"]
    by (simp add: c_format.simps)
qed

lemma set_options_all:
  "\<exists>c'. rfold (set_one_option site) os (s, c) = Inr (s\<lparr>so_options := so_options s @ filter (\<lambda>opt. so_refuses s opt = None) (map fst os)\<rparr>, c')
    \<and> con_err c' = con_err c @ concat (map (\<lambda>m. ascii ''set option error: '' @ m) (List.map_filter (so_refuses s) (map fst os)))"
proof (induction os arbitrary: s c)
  case (Cons ol os)
  obtain opt line where ol: "ol = (opt, line)" by (cases ol)
  show ?case
  proof (cases "so_refuses s opt")
    case None
    with Cons.IH [of "s\<lparr>so_options := so_options s @ [opt]\<rparr>" c] ol show ?thesis
      by (simp add: set_one_option_def List.map_filter_simps)
  next
    case (Some m)
    obtain c1 where c1: "LOG_linux (site line) (ascii ''set option error: %s'') [Str_Arg m] c = Inr c1"
      "con_err c1 = con_err c @ ascii ''set option error: '' @ m"
      using console_message(1) [OF report_option] by blast
    with Cons.IH [of s c1] Some ol show ?thesis
      by (simp add: set_one_option_def List.map_filter_simps)
  qed
qed (simp add: List.map_filter_simps)

lemma options_initialised:
  assumes "so_open s"
  shows "\<exists>s' c'. init_options site (s, c) = Inr (s', c')
    \<and> so_options s' = so_options s @ filter (\<lambda>opt. so_refuses s opt = None) [Keep_Alive False, Linger True 10, No_Delay True, Reuse_Address True]"
  using assms set_options_all [of site "[(Keep_Alive False, 38), (Linger True 10, 44), (No_Delay True, 50), (Reuse_Address True, 56)]" s c]
  by (auto simp: init_options_def)

end
