(* ===== verification/Cache_Line.thy ===== *)
theory Cache_Line
  imports Prelude
begin

text \<open>
  \<open>ParallelUtils.cpp\<close> and \<open>CacheLineFriendly.cpp\<close>: how many processors the system has and how long a
  line of its cache is, on each platform from what the system answers. The answers are arguments.
\<close>

section \<open>Processors\<close>

text \<open>\<open>sysconf\<close> returns a \<open>long\<close>, and -1 when it cannot tell; it is returned as a \<open>size_t\<close>.\<close>

definition get_standard_thread_num_linux :: "64 word \<Rightarrow> u64" where
  "get_standard_thread_num_linux sysconf = sysconf"

definition get_standard_thread_num_windows :: "u32 \<Rightarrow> u64" where
  "get_standard_thread_num_windows number_of_processors = ucast number_of_processors"

section \<open>Cache lines\<close>

text \<open>Apple: the value the system stores, 0 if it stores none.\<close>

definition cache_line_size_apple :: "u64 option \<Rightarrow> u64" where
  "cache_line_size_apple answer = (case answer of None \<Rightarrow> 0 | Some n \<Rightarrow> n)"

text \<open>Windows: the first entry that describes a cache of level 1.\<close>

record processor_info =
  pi_is_cache :: bool
  pi_level :: byte
  pi_line_size :: u16

fun cache_line_size_windows :: "processor_info list \<Rightarrow> u64" where
  "cache_line_size_windows [] = 0"
| "cache_line_size_windows (p # ps) =
     (if pi_is_cache p \<and> pi_level p = 1 then ucast (pi_line_size p) else cache_line_size_windows ps)"

text \<open>
  Linux: the file's text, if it can be opened, read with \<open>%d\<close>: white space, a sign, digits. Without
  a number the variable keeps its 0. A number that does not fit is undefined behaviour.
\<close>

fun scan_digits :: "int \<Rightarrow> byte list \<Rightarrow> int" where
  "scan_digits n [] = n"
| "scan_digits n (c # cs) = (if 48 \<le> c \<and> c \<le> 57 then scan_digits (10 * n + uint (c - 48)) cs else n)"

definition is_space :: "byte \<Rightarrow> bool" where
  "is_space c \<longleftrightarrow> c = 32 \<or> 9 \<le> c \<and> c \<le> 13"

definition scan_int :: "byte list \<Rightarrow> int option" where
  "scan_int text' =
     (let cs = dropWhile is_space text';
          (neg, ds) = (if take 1 cs = [45] then (True, drop 1 cs) else if take 1 cs = [43] then (False, drop 1 cs) else (False, cs))
      in if ds \<noteq> [] \<and> 48 \<le> hd ds \<and> hd ds \<le> 57
         then Some (if neg then - scan_digits 0 ds else scan_digits 0 ds) else None)"

definition cache_line_size_linux :: "byte list option \<Rightarrow> u64 res" where
  "cache_line_size_linux file =
     (case file of None \<Rightarrow> Inr 0
      | Some text' \<Rightarrow>
        (case scan_int text' of None \<Rightarrow> Inr 0
         | Some n \<Rightarrow> if - (2 ^ 31) \<le> n \<and> n < 2 ^ 31 then Inr (ucast (word_of_int n :: u32)) else Inl OutOfBounds))"

text \<open>The line size is the one of some cache of level 1 in the list, or 0 when there is none.\<close>

lemma cache_line_windows_found:
  "cache_line_size_windows ps =
     (case filter (\<lambda>p. pi_is_cache p \<and> pi_level p = 1) ps of [] \<Rightarrow> 0 | p # _ \<Rightarrow> ucast (pi_line_size p))"
  by (induction ps) auto

lemma cache_line_linux_missing: "cache_line_size_linux None = Inr 0" "scan_int t = None \<Longrightarrow> cache_line_size_linux (Some t) = Inr 0"
  by (simp_all add: cache_line_size_linux_def)

lemma cache_line_linux_usual: "cache_line_size_linux (Some [54, 52, 10]) = Inr 64"
  by (simp add: cache_line_size_linux_def scan_int_def is_space_def)

end
