(* ===== verification/Spec2Isabelle.thy ===== *)
theory Spec2Isabelle
  imports Prelude Byte_Order Reusable_Buffer Proto_Mask Rc4 Protocol Ring_Buffer Spin_Lock
    Safe_Random Safe_Hash_Map Object_Pool Thread_Cache Async_Job
    Executor_Life Job_Agents Compression Session_Logic Async_Session
    Session_Receive Session_Framing Proxy_Manager Proxy_Run Proxy_Invariants Proxy_Properties
    Proxy_Traffic Proxy_Fit Proxy_Faults Proxy_Isolation Sync_Read Message_Storage Session_Env Active_Server Active_Storage Active_Traffic
    Handshake Inner_Pair Inner_Link Keep_Alive Log_Writer Log_Threads Singleton Random_Test
    Silent_Peer Server_Main Session_Life Linked_Traffic Active_Faults Log_Macros Socket_Options Cache_Line
begin

text \<open>
  AsioNet (\<open>src/AsioNet\<close>) is a small network middleware in C++ on top of Asio: a proxy that
  accepts TCP connections, authenticates game servers and clients and routes framed packets
  between them (\<open>AsioNet/\<close>, \<open>TestServer/\<close>), a library for the servers that connect to it and for
  direct links between two programs (\<open>TestClient/\<close>), and the utilities both use. This development
  models all of it that is not a vendored library, and proves what it does, the mistakes included.

  \<^bold>\<open>How the program is modelled.\<close> Integers keep their width (\<open>byte\<close>, \<open>u16\<close>, \<open>u32\<close>, \<open>u64\<close> are words, so
  they wrap as in the source). What C++ leaves undefined or ends the process with is a fault: an
  operation that can fail returns \<open>'a res\<close>, that is \<open>Inl\<close> a fault or \<open>Inr\<close> a value, and \<open>rbind\<close>
  sequences such operations (Prelude). Memory blocks are functions from positions to bytes whose
  every access is checked against the size. Values the program leaves uninitialised (pooled
  buffers, stack arrays, fresh objects) are arguments, so the theorems hold for any of them.
  What an operation reports to the console is left out of its model; the macros it does so with have
  a theory of their own.

  \<^bold>\<open>Data and algorithms.\<close>
  Byte_Order: \<open>NetUtils.hpp\<close>, integers in network order.
  Reusable_Buffer: \<open>reusabel_buffer.hpp\<close>, the 64 KB blocks with room for a header in front.
  Proto_Mask: \<open>proto_mask.hpp\<close>, the 16-bit checksum; a packet sealed with it is accepted, one with a
  changed byte is not.
  Rc4: \<open>rc4.hpp\<close>, key schedule and cipher; decryption inverts encryption for every key and modulus in
  range and whatever the box held.
  Protocol: \<open>protocol.hpp\<close>, the packet header in both layouts and the three messages of the
  handshake, with their round trips.
  Ring_Buffer: \<open>RingBuffer.h\<close>; the locale \<open>bounded_queue\<close> states what its clients rely on and is
  interpreted for it.
  Spin_Lock: \<open>Spinlock.hpp\<close>, as steps of any number of threads, with mutual exclusion.
  Safe_Random, Safe_Hash_Map: the generator and the map with its lock; the locale \<open>insert_store\<close> is
  the contract of the map.
  Object_Pool, Thread_Cache: \<open>ObjectPool.h\<close>, and \<open>ThreadCacheContainer.h\<close>, \<open>ThreadSafeObjectPool.h\<close>,
  \<open>ThreadWrapper.cpp\<close>, \<open>ThreadLifecircleListener.cpp\<close>: recycled objects in a heap, one pool per
  container and thread id, dropped by a listener when the thread ends; \<open>pool_reach\<close> are the states
  any calls lead to.
  Async_Job, Executor_Life, Job_Agents: \<open>async_job.h\<close> and \<open>async_job.cpp\<close>: the executor and its strands;
  its owners, threads and destructor as steps (\<open>life_reach\<close>); the agents and their pool.
  Singleton: \<open>SafeSingleton.h\<close>, one instance for any number of threads. Random_Test: the test of the
  generator (\<open>UnitTest/TestRandom.h\<close>), its counting and the wait for its threads.
  Compression: \<open>compression/\<close>, the loops around zlib; \<open>deflate\<close> and \<open>inflate\<close> are parameters, and
  their documented behaviour (chunks of one stream until it ends) is a hypothesis of the round
  trip only, which an instance satisfies.

  \<^bold>\<open>Sessions.\<close> A \<open>world\<close> holds the sessions by name, the clock, the pooled buffers handed out, and an
  environment that belongs to the program around. Asio itself is outside: a session records the
  operations it was asked to start (reads, writes, posted closes, armed timers), and a handler is a
  function of the session's name, the error code and the bytes.
  Session_Logic: the data of the three logics and the configuration.
  Async_Session: \<open>basic_async_session\<close> without its receiving half: states, sending, closing, ticks.
  Session_Receive: reading, cutting into packets, the handlers; \<open>split_frames\<close> is the
  specification of the cutting, independent of how the stream arrives.
  Session_Framing: the handlers implement the specification, under the contract \<open>session_logic\<close>
  of a plugged-in logic; the loop over the packets has fuel, and \<open>pick_fuel\<close> = 6000 is enough, as
  a packet takes 11 bytes at least and the buffer has 65536.
  Session_Env: the contract \<open>env_law\<close>, by which every handler keeps what the logic's operations keep
  of the environment.
  Keep_Alive: the counter that thins out the ticks. Silent_Peer: a dead peer is noticed within a
  second's worth of ticks.
  Sync_Read: the blocking read of \<open>buffer_read.hpp\<close>, compared with the specification of the cutting.

  \<^bold>\<open>The proxy.\<close> Proxy_Manager: the operations of the three session logics (unverified, server,
  client) and of \<open>proxy_manager\<close>. Proxy_Run: the events of the running proxy, as a step relation
  \<open>proxy_step\<close> and the states \<open>proxy_reachable\<close> from its start. Proxy_Invariants: the invariant of those
  states, who manages which session and what the receive buffers hold. Session_Life: an abstract
  machine for the life of the sessions (\<open>life_moves\<close> on the phase of each), which every step of the
  proxy refines under the abstraction \<open>phases\<close>. Proxy_Properties: what follows.
  Proxy_Traffic: what each logic puts on the wire and does with a packet, and the
  authentication of a server. Proxy_Fit: what the handlers rely on beside, \<open>fitted\<close>, an invariant
  too. Proxy_Faults: which events can bring the proxy down; with a sane configuration only packets
  that are not \<open>harmless\<close>, or a read that brings packets on a closed socket, and those do.
  Proxy_Isolation: what the handlers of one session do to the others, \<open>spared\<close>, with the contract
  \<open>session_keeps\<close> for the parts that touch one session only; and what becomes of a half closed one.

  \<^bold>\<open>The programs at the other end.\<close> Message_Storage: the ring of bytes they keep messages in.
  Active_Server, Active_Storage, Active_Traffic: a server's connection to the proxy
  (\<open>active_server_session_logic\<close>, \<open>active_server_session_mgr\<close>), its steps, what its storage holds and
  what it sends. The manager comes from \<open>new\<close> and three of its members are never set; the
  reachable states start with these members zero, as in fresh memory. Inner_Pair: the direct link
  (\<open>inner_session_logic\<close>, \<open>inner_pair_session\<close>); its accepting side cannot start (see the definition
  \<open>inner_start\<close>), its handler is modelled all the same. Both interpret \<open>env_law\<close>.
  Handshake: a server's end and the proxy together, from the request to the answer and a message
  after it. Linked_Traffic: the same through the handlers of both ends for any number of messages, by
  induction over them (\<open>server_ready\<close> and \<open>sender_ready\<close> are what the two ends keep). Active_Faults: the
  message that breaks a server's end. Inner_Link: the two ends of a direct link together, from \<open>send\<close> to \<open>pick_msg\<close>.

  \<^bold>\<open>The log.\<close> Log_Writer: \<open>WLog\<close> in one thread; Log_Threads: with its worker thread, as steps of the two
  threads. The file system and what \<open>vsnprintf\<close> makes of its arguments are given. Log_Macros: the macros
  of \<open>LogUtils.hpp\<close>, to the console and to the log, with \<open>printf\<close> for the directives the program uses.

  \<^bold>\<open>The platform.\<close> Socket_Options: the options of a new socket, with their reports. Cache_Line: the number
  of processors and the length of a cache line, as \<open>ParallelUtils.cpp\<close> and \<open>CacheLineFriendly.cpp\<close> work
  them out.

  \<^bold>\<open>The programs.\<close> Server_Main: \<open>main\<close> of \<open>TestServer/ServerMain.cpp\<close>, from the configuration file and the
  log to a proxy that waits for a connection and answers every event from then on, as long as its
  peers behave; and \<open>main\<close> of \<open>TestClient/ClientMain.cpp\<close>, which sets up the log.

  \<^bold>\<open>Not modelled.\<close> Asio, RapidJSON and zlib (vendored; parameters where they are used), the calls of the
  reporting macros in the other models, the operating system's threads (their steps interleave in
  the relations above), the compiler's macros, the branch of the ring buffer that is not compiled,
  and the idle loops of the programs. Memory ordering is sequentially consistent throughout.
  Operations on another session run in the caller's step, although the source runs them on the
  caller's strand without synchronising.
\<close>

end
